(* ===== verification/Prelude.thy ===== *)
theory Prelude
  imports "HOL-Library.Word" "HOL-Library.Monad_Syntax"
begin

text \<open>
  Shared vocabulary of the development: the fixed-width integer types of \<open>src/types.h\<close>, C
  strings as byte lists, arrays with checked accesses, and the generic lemmas and lemma
  collections the component theories use.

  Convention on partiality: an operation of the C code that may read or write outside an
  object, or whose loop may not end, returns an \<open>option\<close>; \<open>None\<close> is "the C code has no defined
  result here" (an access out of bounds, signed overflow, or no return at all).  A theorem that
  an operation equals \<open>Some\<close> of something therefore also says that it is memory safe and
  returns.
\<close>

unbundle bit_operations_syntax

section \<open>Fixed-width integers (types.h)\<close>

type_synonym u8 = "8 word"
type_synonym u16 = "16 word"
type_synonym u32 = "32 word"
type_synonym u64 = "64 word"

named_theorems align_simps \<open>rounding addresses and sizes to a power of two\<close>
named_theorems ring_simps \<open>index arithmetic of ring buffers\<close>
named_theorems arr_simps \<open>checked array accesses\<close>

section \<open>Byte-addressed memory and C strings\<close>

type_synonym mem = "u64 \<Rightarrow> u8"

text \<open>The bytes of a string literal, without its terminating zero.\<close>

definition str :: "string \<Rightarrow> u8 list" where
  "str s = map of_char s"

lemma str_Nil [simp]: "str [] = []"
  by (simp add: str_def)

lemma length_str [simp]: "length (str s) = length s"
  by (simp add: str_def)

text \<open>The C string a byte array holds: the bytes before its first zero.\<close>

definition cstr :: "u8 list \<Rightarrow> u8 list" where
  "cstr xs = takeWhile (\<lambda>c. c \<noteq> 0) xs"

lemma cstr_simps [simp]:
  "cstr [] = []"
  "cstr (0 # xs) = []"
  "c \<noteq> 0 \<Longrightarrow> cstr (c # xs) = c # cstr xs"
  by (simp_all add: cstr_def)

lemma cstr_nonzero: "0 \<notin> set (cstr xs)"
  by (induction xs) (auto simp: cstr_def)

lemma cstr_append_zero: "0 \<notin> set xs \<Longrightarrow> cstr (xs @ 0 # ys) = xs"
  by (induction xs) (auto simp: cstr_def)

lemma cstr_id: "0 \<notin> set xs \<Longrightarrow> cstr xs = xs"
  by (induction xs) (auto simp: cstr_def)

lemma length_cstr_le: "length (cstr xs) \<le> length xs"
  by (simp add: cstr_def length_takeWhile_le)

lemma length_cstr_less: "0 \<in> set xs \<Longrightarrow> length (cstr xs) < length xs"
  by (induction xs) (auto simp: cstr_def)

lemma nth_length_cstr: "0 \<in> set xs \<Longrightarrow> xs ! length (cstr xs) = 0"
  using nth_length_takeWhile [of "\<lambda>c. c \<noteq> 0" xs] length_cstr_less [of xs]
  by (auto simp: cstr_def)

lemma cstr_split: "0 \<in> set xs \<Longrightarrow> \<exists>ys. xs = cstr xs @ 0 # ys"
proof (induction xs)
  case (Cons x xs)
  then show ?case by (cases "x = 0") (auto simp: cstr_def)
qed simp

section \<open>Arrays with checked accesses\<close>

definition rd :: "'a list \<Rightarrow> nat \<Rightarrow> 'a option" where
  "rd xs i = (if i < length xs then Some (xs ! i) else None)"

definition wr :: "'a list \<Rightarrow> nat \<Rightarrow> 'a \<Rightarrow> 'a list option" where
  "wr xs i v = (if i < length xs then Some (xs[i := v]) else None)"

lemma rd_in [arr_simps, simp]: "i < length xs \<Longrightarrow> rd xs i = Some (xs ! i)"
  by (simp add: rd_def)

lemma wr_in [arr_simps, simp]: "i < length xs \<Longrightarrow> wr xs i v = Some (xs[i := v])"
  by (simp add: wr_def)

lemma rd_eq_Some: "rd xs i = Some v \<longleftrightarrow> i < length xs \<and> v = xs ! i"
  by (auto simp: rd_def)

lemma wr_eq_Some: "wr xs i v = Some ys \<longleftrightarrow> i < length xs \<and> ys = xs[i := v]"
  by (auto simp: wr_def)

lemma take_Suc_update: "i < length xs \<Longrightarrow> take (Suc i) (xs[i := v]) = take i xs @ [v]"
  by (simp add: take_Suc_conv_app_nth)

lemma drop_Suc_update: "drop (Suc i) (xs[i := v]) = drop (Suc i) xs"
  by simp

lemma update_as_split: "i < length xs \<Longrightarrow> xs[i := v] = take i xs @ v # drop (Suc i) xs"
  by (simp add: upd_conv_take_nth_drop)

section \<open>Words\<close>

lemma unat_and_mask:
  fixes x :: "'a::len word"
  shows "unat (x AND mask n) = unat x mod 2 ^ n"
  unfolding take_bit_eq_mask [symmetric] unsigned_take_bit_eq
  by (simp add: take_bit_eq_mod)

lemma and_not_mask_minus:
  fixes x :: "'a::len word"
  shows "x AND NOT (mask n) = x - (x AND mask n)"
proof -
  have "x - (x AND mask n) = x AND NOT (x AND mask n)"
    by (rule disjunctive_diff_eq_and_not) (auto simp: bit_eq_iff bit_simps)
  also have "\<dots> = x AND NOT (mask n)"
    by (rule bit_word_eqI) (auto simp: bit_simps)
  finally show ?thesis by simp
qed

lemma unat_and_not_mask:
  fixes x :: "'a::len word"
  shows "unat (x AND NOT (mask n)) = unat x div 2 ^ n * 2 ^ n"
proof -
  have "x AND mask n \<le> x" by (simp add: word_and_le2)
  then have "unat (x AND NOT (mask n)) = unat x - unat x mod 2 ^ n"
    by (simp add: and_not_mask_minus unat_sub unat_and_mask)
  then show ?thesis by (simp add: minus_mod_eq_div_mult)
qed

lemma unat_lt64: "unat (x :: u64) < 2 ^ 64"
  using unsigned_less [of x] by simp

lemma unat_lt64' [simp]: "unat (x :: u64) < 18446744073709551616"
  using unat_lt64 [of x] by simp

lemma unat_Suc64:
  fixes i :: u64
  assumes "i < n"
  shows "unat (i + 1) = Suc (unat i)"
proof -
  have "unat i < unat n" using assms by (simp add: word_less_nat_alt)
  then have "unat i + 1 < 2 ^ 64" using unat_lt64 [of n] by linarith
  then show ?thesis by (simp add: unat_plus_if')
qed

lemma unat_Suc32:
  fixes i :: u32
  assumes "i < n"
  shows "unat (i + 1) = Suc (unat i)"
proof -
  have "unat i < unat n" using assms by (simp add: word_less_nat_alt)
  moreover have "unat n < 2 ^ 32" by (rule order_less_le_trans [OF unsigned_less]) simp
  ultimately have "unat i + 1 < 2 ^ 32" by linarith
  then show ?thesis by (simp add: unat_plus_if')
qed

lemma unat_add64:
  fixes a b :: u64
  shows "unat a + unat b < 2 ^ 64 \<Longrightarrow> unat (a + b) = unat a + unat b"
  by (simp add: unat_plus_if')

lemma unat_of_nat64: "n < 2 ^ 64 \<Longrightarrow> unat (of_nat n :: u64) = n"
  by (simp add: unat_of_nat)

lemma sint_u8: "sint (c :: u8) = (if uint c < 128 then uint c else uint c - 256)"
proof (cases "uint c < 128")
  case True
  moreover have "- (2 ^ 7) \<le> uint c" by (rule order_trans [of _ 0]) simp_all
  ultimately have "signed_take_bit 7 (uint c) = uint c"
    by (intro signed_take_bit_int_eq_self) simp_all
  then show ?thesis using True by (simp add: sint_uint)
next
  case False
  have "signed_take_bit 7 (uint c) = signed_take_bit 7 (uint c - 256)"
    by (simp add: signed_take_bit_eq_iff_take_bit_eq take_bit_eq_mod)
  also have "\<dots> = uint c - 256"
    using False uint_bounded [of c] by (intro signed_take_bit_int_eq_self) simp_all
  finally show ?thesis using False by (simp add: sint_uint)
qed

section \<open>Intervals\<close>

lemma insert_interval: "(a::nat) < b \<Longrightarrow> insert a U \<union> {Suc a..<b} = U \<union> {a..<b}"
  by auto

section \<open>Counted loops\<close>

text \<open>\<open>for (i = a; i < n; i++) body(i)\<close> with a body that may fail.\<close>

function for_range :: "nat \<Rightarrow> nat \<Rightarrow> (nat \<Rightarrow> 's \<Rightarrow> 's option) \<Rightarrow> 's \<Rightarrow> 's option" where
  "for_range i n f s = (if i < n then do { s' \<leftarrow> f i s; for_range (Suc i) n f s' } else Some s)"
  by pat_completeness auto
termination
  by (relation "measure (\<lambda>(i, n, f, s). n - i)") auto

declare for_range.simps [simp del]

lemma for_range_done [simp]: "n \<le> i \<Longrightarrow> for_range i n f s = Some s"
  by (subst for_range.simps) simp

lemma for_range_step: "i < n \<Longrightarrow> f i s = Some t \<Longrightarrow> for_range i n f s = for_range (Suc i) n f t"
  by (subst for_range.simps) simp

lemma for_range_invariant:
  assumes "I i s" and "i \<le> n"
    and "\<And>j s. i \<le> j \<Longrightarrow> j < n \<Longrightarrow> I j s \<Longrightarrow> \<exists>s'. f j s = Some s' \<and> I (Suc j) s'"
  shows "\<exists>s'. for_range i n f s = Some s' \<and> I n s'"
  using assms
proof (induction "n - i" arbitrary: i s)
  case 0
  then show ?case by auto
next
  case (Suc k)
  then have lt: "i < n" by simp
  then obtain s1 where s1: "f i s = Some s1" "I (Suc i) s1" using Suc.prems by blast
  have "\<exists>s'. for_range (Suc i) n f s1 = Some s' \<and> I n s'"
    using Suc.hyps(1) [OF _ s1(2)] Suc.hyps(2) Suc.prems(3) lt by auto
  then show ?case using for_range_step [of i n f s s1] lt s1(1) by simp
qed

text \<open>A loop whose every iteration applies a total function.\<close>

lemma for_range_fold:
  assumes "\<And>j s. i \<le> j \<Longrightarrow> j < n \<Longrightarrow> f j s = Some (g j s)"
  shows "for_range i n f s = Some (fold g [i..<n] s)"
  using assms
proof (induction "n - i" arbitrary: i s)
  case (Suc k)
  then have lt: "i < n" by simp
  have "for_range (Suc i) n f (g i s) = Some (fold g [Suc i..<n] (g i s))"
    using Suc.hyps(1) [of "Suc i"] Suc.hyps(2) Suc.prems lt by auto
  then show ?case using for_range_step [of i n f s "g i s"] Suc.prems [of i] lt by (simp add: upt_conv_Cons)
qed simp

lemma take_take_append: "take n (take n xs @ ys) = take n (xs @ ys)"
  by (cases "length xs \<le> n") simp_all

text \<open>\<open>for (i = a; i < n && cond; i++) body(i)\<close>.\<close>

function for_while :: "nat \<Rightarrow> nat \<Rightarrow> ('s \<Rightarrow> bool) \<Rightarrow> (nat \<Rightarrow> 's \<Rightarrow> 's option) \<Rightarrow> 's \<Rightarrow> 's option" where
  "for_while i n c f s = (if i < n \<and> c s then do { s' \<leftarrow> f i s; for_while (Suc i) n c f s' } else Some s)"
  by pat_completeness auto
termination
  by (relation "measure (\<lambda>(i, n, c, f, s). n - i)") auto

declare for_while.simps [simp del]

text \<open>
  A loop that appends to a bounded output: iteration \<open>i\<close> adds \<open>g i\<close> as far as there is room, and the
  loop stops when there is none.
\<close>

lemma for_while_bounded:
  assumes "I s xs" and "length xs \<le> m" and "\<And>s xs. I s xs \<Longrightarrow> c s \<longleftrightarrow> length xs < m"
    and "\<And>j s xs. i \<le> j \<Longrightarrow> j < n \<Longrightarrow> I s xs \<Longrightarrow> length xs < m \<Longrightarrow> \<exists>s'. f j s = Some s' \<and> I s' (take m (xs @ g j))"
  shows "\<exists>s'. for_while i n c f s = Some s' \<and> I s' (take m (xs @ concat (map g [i..<n])))"
  using assms(1,2,4)
proof (induction "n - i" arbitrary: i s xs)
  case 0
  then show ?case by (subst for_while.simps) simp
next
  case (Suc k)
  then have lt: "i < n" by simp
  show ?case
  proof (cases "length xs < m")
    case True
    obtain s' where s': "f i s = Some s'" "I s' (take m (xs @ g i))" using Suc.prems(3) [of i s xs] Suc.prems(1) lt True by auto
    have "\<exists>t. for_while (Suc i) n c f s' = Some t \<and> I t (take m (take m (xs @ g i) @ concat (map g [Suc i..<n])))"
      using Suc.hyps(1) [OF _ s'(2)] Suc.hyps(2) Suc.prems(3) by simp
    moreover have "take m (take m (xs @ g i) @ concat (map g [Suc i..<n])) = take m (xs @ concat (map g [i..<n]))"
      using lt unfolding take_take_append by (simp add: upt_conv_Cons del: take_append)
    ultimately show ?thesis using assms(3) [OF Suc.prems(1)] True lt s'(1) by (subst for_while.simps) simp
  next
    case False
    then have "length xs = m" using Suc.prems(2) by simp
    then show ?thesis using assms(3) [OF Suc.prems(1)] False Suc.prems(1) by (subst for_while.simps) simp
  qed
qed

section \<open>Little-endian bytes\<close>

definition le :: "nat \<Rightarrow> 'a::len word \<Rightarrow> u8 list" where
  "le n w = map (\<lambda>i. ucast (drop_bit (8 * i) w)) [0..<n]"

primrec of_le :: "u8 list \<Rightarrow> nat" where
  "of_le [] = 0"
| "of_le (b # bs) = unat b + 256 * of_le bs"

lemma length_le [simp]: "length (le n w) = n"
  by (simp add: le_def)

lemma le_Suc: "le (Suc n) w = ucast w # le n (drop_bit 8 w)"
  by (simp add: le_def upt_conv_Cons map_Suc_upt [symmetric] o_def add.commute del: upt_Suc)

lemma of_le_le: "of_le (le n w) = unat w mod 256 ^ n"
proof (induction n arbitrary: w)
  case 0
  then show ?case by (simp add: le_def)
next
  case (Suc n)
  have b: "unat (ucast w :: u8) = unat w mod 256" by (simp add: unsigned_ucast_eq take_bit_eq_mod)
  have "unat (drop_bit 8 w) = drop_bit 8 (unat w)" by (rule unat_drop_bit_eq)
  then have d: "unat (drop_bit 8 w) = unat w div 256" by (simp add: drop_bit_eq_div)
  show ?case unfolding le_Suc of_le.simps Suc.IH b d
    using mod_mult2_eq [of "unat w" 256 "256 ^ n"] by simp
qed

lemma of_le_append: "of_le (xs @ ys) = of_le xs + 256 ^ length xs * of_le ys"
  by (induction xs) (simp_all add: algebra_simps)

lemma of_le_words:
  "of_le (le 2 (x :: u16)) = unat x" "of_le (le 4 (y :: u32)) = unat y" "of_le (le 8 (z :: u64)) = unat z"
  using unsigned_less [of x, where 'a = nat] unsigned_less [of y, where 'a = nat] unsigned_less [of z, where 'a = nat]
  by (simp_all add: of_le_le)

lemma concat_uniform_nth:
  assumes "\<forall>x \<in> set xs. length (f x) = n" and "i < length xs"
  shows "take n (drop (n * i) (concat (map f xs))) = f (xs ! i)"
  using assms
proof (induction xs arbitrary: i)
  case (Cons x xs)
  then show ?case by (cases i) simp_all
qed simp

end
