(* ===== verification/KString.thy ===== *)
theory KString
  imports Prelude
begin

text \<open>
  \<open>src/kstring.c\<close>: the byte-memory routines on one flat memory (so that source and destination
  may overlap), the string routines on byte arrays with checked reads, and the conversions
  between numbers and digit strings.
\<close>

section \<open>Byte memory\<close>

text \<open>\<open>out[i] = in[i]\<close> for \<open>i\<close> from the given index up to \<open>n\<close>.\<close>

function kmemcpy_loop :: "mem \<Rightarrow> u64 \<Rightarrow> u64 \<Rightarrow> u64 \<Rightarrow> u64 \<Rightarrow> mem" where
  "kmemcpy_loop m out inp n i =
     (if i < n then kmemcpy_loop (m(out + i := m (inp + i))) out inp n (i + 1) else m)"
  by pat_completeness auto
termination
  by (relation "measure (\<lambda>(m, out, inp, n, i). unat n - unat i)")
    (auto simp: unat_Suc64 word_less_nat_alt)

definition kmemcpy :: "mem \<Rightarrow> u64 \<Rightarrow> u64 \<Rightarrow> u64 \<Rightarrow> mem" where
  "kmemcpy m dst src n = kmemcpy_loop m dst src n 0"

text \<open>The descending loop of \<open>kmemmove\<close>: \<open>for (i = n; i > 0; i--)\<close>.\<close>

function kmemmove_down :: "mem \<Rightarrow> u64 \<Rightarrow> u64 \<Rightarrow> u64 \<Rightarrow> mem" where
  "kmemmove_down m out inp i =
     (if i > 0 then kmemmove_down (m(out + (i - 1) := m (inp + (i - 1)))) out inp (i - 1)
      else m)"
  by pat_completeness auto
termination
  by (relation "measure (\<lambda>(m, out, inp, i). unat i)")
    (auto simp: word_less_nat_alt unat_minus_one unat_gt_0)

definition kmemmove :: "mem \<Rightarrow> u64 \<Rightarrow> u64 \<Rightarrow> u64 \<Rightarrow> mem" where
  "kmemmove m dst src n =
     (if dst = src \<or> n = 0 then m
      else if dst < src then kmemcpy m dst src n
      else kmemmove_down m dst src n)"

function kmemset_loop :: "mem \<Rightarrow> u64 \<Rightarrow> u32 \<Rightarrow> u64 \<Rightarrow> u64 \<Rightarrow> mem" where
  "kmemset_loop m out value n i =
     (if i < n then kmemset_loop (m(out + i := ucast value)) out value n (i + 1) else m)"
  by pat_completeness auto
termination
  by (relation "measure (\<lambda>(m, out, value, n, i). unat n - unat i)")
    (auto simp: unat_Suc64 word_less_nat_alt)

definition kmemset :: "mem \<Rightarrow> u64 \<Rightarrow> u32 \<Rightarrow> u64 \<Rightarrow> mem" where
  "kmemset m dst value n = kmemset_loop m dst value n 0"

declare kmemcpy_loop.simps [simp del] kmemmove_down.simps [simp del] kmemset_loop.simps [simp del]

section \<open>Strings\<close>

text \<open>A byte array is the object from the pointer to its end; reading past it is \<open>None\<close>.\<close>

function kstrlen_loop :: "u8 list \<Rightarrow> nat \<Rightarrow> nat option" where
  "kstrlen_loop s len =
     (if len < length s then (if s ! len \<noteq> 0 then kstrlen_loop s (len + 1) else Some len)
      else None)"
  by pat_completeness auto
termination
  by (relation "measure (\<lambda>(s, len). length s - len)") auto

declare kstrlen_loop.simps [simp del]

definition kstrlen :: "u8 list \<Rightarrow> nat option" where
  "kstrlen s = kstrlen_loop s 0"

fun kstrcmp :: "u8 list \<Rightarrow> u8 list \<Rightarrow> int option" where
  "kstrcmp (a # as) (b # bs) =
     (if a \<noteq> 0 \<and> a = b then kstrcmp as bs else Some (uint a - uint b))"
| "kstrcmp _ _ = None"

fun kstrncmp :: "u8 list \<Rightarrow> u8 list \<Rightarrow> nat \<Rightarrow> int option" where
  "kstrncmp as bs 0 = Some 0"
| "kstrncmp (a # as) (b # bs) (Suc n) =
     (if a \<noteq> b \<or> a = 0 \<or> b = 0 then Some (uint a - uint b) else kstrncmp as bs n)"
| "kstrncmp _ _ (Suc n) = None"

text \<open>
  \<open>ku64_parse\<close>: the inner option is the C result (\<open>None\<close> for the return value 0, \<open>Some v\<close> for
  1 with \<open>*value = v\<close>); the outer one is a read past the end of the array.  A null pointer is
  \<open>None\<close> (\<open>str\<close>) or \<open>False\<close> (\<open>value\<close>).  \<open>char\<close> is signed on the target, so the comparisons
  are signed.
\<close>

fun ku64_parse_loop :: "u8 list \<Rightarrow> u64 \<Rightarrow> u64 option option" where
  "ku64_parse_loop [] out = None"
| "ku64_parse_loop (c # cs) out =
     (if c = 0 then Some (Some out)
      else if sint c < 48 \<or> 57 < sint c then Some None
      else ku64_parse_loop cs (out * 10 + ucast (c - 48)))"

definition ku64_parse :: "u8 list option \<Rightarrow> bool \<Rightarrow> u64 option option" where
  "ku64_parse s value_ok =
     (case s of
        None \<Rightarrow> Some None
      | Some cs \<Rightarrow>
          do { c \<leftarrow> rd cs 0;
               if c = 0 \<or> \<not> value_ok then Some None else ku64_parse_loop cs 0 })"

section \<open>Number to string\<close>

text \<open>\<open>while (value > 0 && pos < sizeof(tmp)) tmp[pos++] = digits[value % base]\<close>.\<close>

function convert_digits ::
    "u8 list \<Rightarrow> u64 \<Rightarrow> u64 \<Rightarrow> u8 list \<Rightarrow> nat \<Rightarrow> (u8 list \<times> nat) option" where
  "convert_digits digits base value tmp pos =
     (if value > 0 \<and> pos < 32 then
        do { d \<leftarrow> rd digits (unat (value mod base));
             tmp' \<leftarrow> wr tmp pos d;
             convert_digits digits base (value div base) tmp' (pos + 1) }
      else Some (tmp, pos))"
  by pat_completeness auto
termination
  by (relation "measure (\<lambda>(digits, base, value, tmp, pos). 32 - pos)") auto

text \<open>\<open>while (pos > 0 && out + 1 < sz) buffer[out++] = tmp[--pos]\<close>.\<close>

fun convert_emit :: "u8 list \<Rightarrow> nat \<Rightarrow> u8 list \<Rightarrow> nat \<Rightarrow> nat \<Rightarrow> (u8 list \<times> nat) option" where
  "convert_emit tmp 0 buffer out sz = Some (buffer, out)"
| "convert_emit tmp (Suc pos) buffer out sz =
     (if out + 1 < sz then
        do { d \<leftarrow> rd tmp pos;
             buffer' \<leftarrow> wr buffer out d;
             convert_emit tmp pos buffer' (out + 1) sz }
      else Some (buffer, out))"

definition convert_u64 ::
    "u8 list \<Rightarrow> nat \<Rightarrow> u64 \<Rightarrow> u32 \<Rightarrow> u8 list \<Rightarrow> u8 list option" where
  "convert_u64 buffer sz value base digits =
     (if sz = 0 then Some buffer
      else if value = 0 then
        (if sz > 1 then do { b \<leftarrow> wr buffer 0 48; wr b 1 0 } else wr buffer 0 0)
      else
        do { (tmp, pos) \<leftarrow> convert_digits digits (ucast base) value (replicate 32 0) 0;
             (b, out) \<leftarrow> convert_emit tmp pos buffer 0 sz;
             wr b out 0 })"

definition ku64_to_dec :: "u8 list \<Rightarrow> nat \<Rightarrow> u64 \<Rightarrow> u8 list option" where
  "ku64_to_dec buffer sz value = convert_u64 buffer sz value 10 (str ''0123456789'')"

definition ku64_to_hex :: "u8 list \<Rightarrow> nat \<Rightarrow> u64 \<Rightarrow> u8 list option" where
  "ku64_to_hex buffer sz value = convert_u64 buffer sz value 16 (str ''0123456789ABCDEF'')"

declare convert_digits.simps [simp del]

section \<open>Correctness of the memory routines\<close>

text \<open>Memory after copying \<open>n\<close> bytes as if through a buffer: the sources as they were before.\<close>

definition copied :: "mem \<Rightarrow> u64 \<Rightarrow> u64 \<Rightarrow> u64 \<Rightarrow> mem" where
  "copied m dst src n = (\<lambda>a. if a - dst < n then m (src + (a - dst)) else m a)"

lemma word_diff_cancel_lt:
  fixes i k n :: u64
  assumes "i < k" "k < n"
  shows "0 < k - i" and "k - i < n"
  using assms by unat_arith+

lemma kmemcpy_loop_spec:
  assumes "\<not> (0 < out - inp \<and> out - inp < n)"
  shows "kmemcpy_loop m out inp n i =
    (\<lambda>a. if i \<le> a - out \<and> a - out < n then m (inp + (a - out)) else m a)"
  using assms
proof (induction m out inp n i rule: kmemcpy_loop.induct)
  case (1 m out inp n i)
  show ?case
  proof (cases "i < n")
    case True
    have ne: "inp + (a - out) \<noteq> out + i" if "i + 1 \<le> a - out" "a - out < n" for a
    proof
      assume eq: "inp + (a - out) = out + i"
      have "(a - out) - i = (inp + (a - out)) - i - inp" by simp
      also have "\<dots> = out - inp" by (simp only: eq) simp
      finally have d: "(a - out) - i = out - inp" .
      have "i < a - out" using that(1) True by unat_arith
      from word_diff_cancel_lt [OF this that(2)] show False
        unfolding d using "1.prems" by blast
    qed
    have step: "i \<le> x \<longleftrightarrow> x = i \<or> i + 1 \<le> x" if "x < n" for x :: u64
      using True that by unat_arith
    have "kmemcpy_loop m out inp n i = kmemcpy_loop (m(out + i := m (inp + i))) out inp n (i + 1)"
      using True by (subst kmemcpy_loop.simps) simp
    also have "\<dots> = (\<lambda>a. if i + 1 \<le> a - out \<and> a - out < n
         then (m(out + i := m (inp + i))) (inp + (a - out)) else (m(out + i := m (inp + i))) a)"
      by (rule "1.IH" [OF True "1.prems"])
    also have "\<dots> = (\<lambda>a. if i \<le> a - out \<and> a - out < n then m (inp + (a - out)) else m a)"
    proof
      fix a
      have "a = out + i \<longleftrightarrow> a - out = i" by (auto simp: algebra_simps)
      then show "(if i + 1 \<le> a - out \<and> a - out < n
         then (m(out + i := m (inp + i))) (inp + (a - out)) else (m(out + i := m (inp + i))) a)
       = (if i \<le> a - out \<and> a - out < n then m (inp + (a - out)) else m a)"
        using ne [of a] step [of "a - out"] True by auto
    qed
    finally show ?thesis .
  next
    case False
    then have "\<not> (i \<le> a - out \<and> a - out < n)" for a by auto
    with False show ?thesis by (subst kmemcpy_loop.simps) (auto simp: fun_eq_iff)
  qed
qed

lemma kmemmove_down_spec:
  assumes "\<not> (0 < inp - out \<and> inp - out < i)"
  shows "kmemmove_down m out inp i =
    (\<lambda>a. if a - out < i then m (inp + (a - out)) else m a)"
  using assms
proof (induction m out inp i rule: kmemmove_down.induct)
  case (1 m out inp i)
  show ?case
  proof (cases "i > 0")
    case True
    let ?j = "i - 1"
    have ne: "inp + (a - out) \<noteq> out + ?j" if "a - out < ?j" for a
    proof
      assume eq: "inp + (a - out) = out + ?j"
      have "?j - (a - out) = (out + ?j) - (a - out) - out" by simp
      also have "\<dots> = inp - out" by (simp only: eq [symmetric]) simp
      finally have d: "?j - (a - out) = inp - out" .
      have "?j < i" using True by unat_arith
      from word_diff_cancel_lt [OF that this] show False
        unfolding d using "1.prems" \<open>?j < i\<close> by (meson less_trans)
    qed
    have step: "x < i \<longleftrightarrow> x = ?j \<or> x < ?j" for x :: u64
      using True by unat_arith
    have pre: "\<not> (0 < inp - out \<and> inp - out < ?j)"
      using "1.prems" step by auto
    have "kmemmove_down m out inp i = kmemmove_down (m(out + ?j := m (inp + ?j))) out inp ?j"
      using True by (subst kmemmove_down.simps) simp
    also have "\<dots> = (\<lambda>a. if a - out < ?j
         then (m(out + ?j := m (inp + ?j))) (inp + (a - out)) else (m(out + ?j := m (inp + ?j))) a)"
      by (rule "1.IH" [OF True pre])
    also have "\<dots> = (\<lambda>a. if a - out < i then m (inp + (a - out)) else m a)"
    proof
      fix a
      have "a = out + ?j \<longleftrightarrow> a - out = ?j" by (auto simp: algebra_simps)
      then show "(if a - out < ?j
         then (m(out + ?j := m (inp + ?j))) (inp + (a - out)) else (m(out + ?j := m (inp + ?j))) a)
       = (if a - out < i then m (inp + (a - out)) else m a)"
        using ne [of a] step [of "a - out"] by auto
    qed
    finally show ?thesis .
  next
    case False
    then show ?thesis by (subst kmemmove_down.simps) (auto simp: fun_eq_iff word_gt_0)
  qed
qed

lemma kmemcpy_eq_copied:
  "\<not> (0 < dst - src \<and> dst - src < n) \<Longrightarrow> kmemcpy m dst src n = copied m dst src n"
  by (simp add: kmemcpy_def copied_def kmemcpy_loop_spec)

lemma kmemmove_copied:
  assumes "unat dst + unat n \<le> 2 ^ 64" and "unat src + unat n \<le> 2 ^ 64"
  shows "kmemmove m dst src n = copied m dst src n"
proof -
  consider (same) "dst = src" | (zero) "n = 0" | (up) "dst < src" "n \<noteq> 0" | (down) "src < dst" "n \<noteq> 0"
    by (cases dst src rule: linorder_cases) auto
  then show ?thesis
  proof cases
    case up
    have "\<not> (0 < dst - src \<and> dst - src < n)"
      using up(1) assms(2) by (auto simp: word_less_nat_alt unat_sub_if')
    with up show ?thesis by (auto simp: kmemmove_def kmemcpy_eq_copied)
  next
    case down
    have "\<not> (0 < src - dst \<and> src - dst < n)"
      using down(1) assms(1) by (auto simp: word_less_nat_alt unat_sub_if')
    with down show ?thesis by (auto simp: kmemmove_def copied_def kmemmove_down_spec)
  qed (auto simp: kmemmove_def copied_def)
qed

lemma kmemset_loop_spec:
  "kmemset_loop m out v n i = (\<lambda>a. if i \<le> a - out \<and> a - out < n then ucast v else m a)"
proof (induction m out v n i rule: kmemset_loop.induct)
  case (1 m out v n i)
  show ?case
  proof (cases "i < n")
    case True
    have step: "i \<le> x \<longleftrightarrow> x = i \<or> i + 1 \<le> x" if "x < n" for x :: u64
      using True that by unat_arith
    have eq: "a = out + i \<longleftrightarrow> a - out = i" for a by (auto simp: algebra_simps)
    have "kmemset_loop m out v n i = kmemset_loop (m(out + i := ucast v)) out v n (i + 1)"
      using True by (subst kmemset_loop.simps) simp
    also have "\<dots> = (\<lambda>a. if i + 1 \<le> a - out \<and> a - out < n then ucast v
        else (m(out + i := ucast v)) a)"
      by (rule "1.IH" [OF True])
    also have "\<dots> = (\<lambda>a. if i \<le> a - out \<and> a - out < n then ucast v else m a)"
    proof
      fix a
      show "(if i + 1 \<le> a - out \<and> a - out < n then ucast v
          else (m(out + i := ucast v)) a) = (if i \<le> a - out \<and> a - out < n then ucast v else m a)"
        using step [of "a - out"] eq [of a] True by auto
    qed
    finally show ?thesis .
  next
    case False
    then have "\<not> (i \<le> a - out \<and> a - out < n)" for a by auto
    with False show ?thesis by (subst kmemset_loop.simps) (auto simp: fun_eq_iff)
  qed
qed

lemma kmemset_fill:
  "kmemset m dst v n = (\<lambda>a. if a - dst < n then ucast v else m a)"
  by (simp add: kmemset_def kmemset_loop_spec)


section \<open>Correctness of the string routines\<close>

lemma kstrlen_loop_spec:
  "n \<le> length s \<Longrightarrow> 0 \<in> set (drop n s) \<Longrightarrow>
   kstrlen_loop s n = Some (n + length (cstr (drop n s)))"
proof (induction s n rule: kstrlen_loop.induct)
  case (1 s n)
  then have lt: "n < length s" by (cases "n < length s") auto
  then have d: "drop n s = s ! n # drop (n + 1) s" by (simp add: Cons_nth_drop_Suc)
  show ?case
  proof (cases "s ! n = 0")
    case True
    then show ?thesis using lt d by (subst kstrlen_loop.simps) simp
  next
    case False
    then have "0 \<in> set (drop (n + 1) s)" using "1.prems" d by auto
    then show ?thesis using "1.IH" lt False d by (subst kstrlen_loop.simps) simp
  qed
qed

lemma kstrlen_loop_unterminated: "0 \<notin> set (drop n s) \<Longrightarrow> kstrlen_loop s n = None"
proof (induction s n rule: kstrlen_loop.induct)
  case (1 s n)
  show ?case
  proof (cases "n < length s")
    case True
    then have d: "drop n s = s ! n # drop (n + 1) s" by (simp add: Cons_nth_drop_Suc)
    then have "s ! n \<noteq> 0" "0 \<notin> set (drop (n + 1) s)" using "1.prems" by auto
    then show ?thesis using "1.IH" True by (subst kstrlen_loop.simps) simp
  next
    case False
    then show ?thesis by (subst kstrlen_loop.simps) simp
  qed
qed

lemma kstrlen_cstr:
  "kstrlen s = (if 0 \<in> set s then Some (length (cstr s)) else None)"
  using kstrlen_loop_spec [of 0 s] kstrlen_loop_unterminated [of 0 s] by (simp add: kstrlen_def)

lemma kstrcmp_cstr:
  assumes "0 \<in> set as" and "0 \<in> set bs"
  shows "\<exists>r. kstrcmp as bs = Some r \<and> (r = 0 \<longleftrightarrow> cstr as = cstr bs) \<and>
    (r < 0 \<longleftrightarrow> ord_class.lexordp (cstr as) (cstr bs))"
  using assms
proof (induction as bs rule: kstrcmp.induct)
  case (1 a as b bs)
  show ?case
  proof (cases "a \<noteq> 0 \<and> a = b")
    case True
    then show ?thesis using 1 by auto
  next
    case False
    have "uint a - uint b = 0 \<longleftrightarrow> a = b" "uint a - uint b < 0 \<longleftrightarrow> a < b" by (auto simp: word_less_alt word_uint_eq_iff)
    moreover have "\<not> a < 0" for a :: u8 by simp
    ultimately show ?thesis using False
      by (cases "a = 0"; cases "b = 0") (auto simp: word_gt_0)
  qed
qed auto

lemma kstrcmp_eq_0:
  "0 \<in> set as \<Longrightarrow> 0 \<in> set bs \<Longrightarrow> kstrcmp as bs = Some 0 \<longleftrightarrow> cstr as = cstr bs"
  using kstrcmp_cstr [of as bs] by auto

lemma kstrcmp_defined: "0 \<in> set as \<Longrightarrow> 0 \<in> set bs \<Longrightarrow> \<exists>r. kstrcmp as bs = Some r"
  using kstrcmp_cstr [of as bs] by auto

lemma kstrncmp_cstr:
  assumes "0 \<in> set as \<or> n \<le> length as" and "0 \<in> set bs \<or> n \<le> length bs"
  shows "\<exists>r. kstrncmp as bs n = Some r \<and> (r = 0 \<longleftrightarrow> take n (cstr as) = take n (cstr bs))"
  using assms
proof (induction as bs n rule: kstrncmp.induct)
  case (2 a as b bs n)
  have "uint a - uint b = 0 \<longleftrightarrow> a = b" by (auto simp: word_uint_eq_iff)
  then show ?case using 2 by (cases "a = 0"; cases "b = 0"; cases "a = b") auto
qed auto

section \<open>Numbers and digit strings\<close>

fun base_digits :: "nat \<Rightarrow> nat \<Rightarrow> nat list" where
  "base_digits b n = (if n < b \<or> b \<le> 1 then [n] else base_digits b (n div b) @ [n mod b])"

declare base_digits.simps [simp del]

definition digits_value :: "nat \<Rightarrow> nat list \<Rightarrow> nat" where
  "digits_value b ds = foldl (\<lambda>a d. a * b + d) 0 ds"

lemma digits_value_snoc [simp]: "digits_value b (ds @ [d]) = digits_value b ds * b + d"
  by (simp add: digits_value_def)

lemma digits_value_base_digits: "digits_value b (base_digits b n) = n"
proof (induction b n rule: base_digits.induct)
  case (1 b n)
  show ?case
  proof (cases "n < b \<or> b \<le> 1")
    case True
    then show ?thesis by (subst base_digits.simps) (simp add: digits_value_def)
  next
    case False
    then show ?thesis using 1 by (subst base_digits.simps) simp
  qed
qed

lemma base_digits_lt: "1 < b \<Longrightarrow> d \<in> set (base_digits b n) \<Longrightarrow> d < b"
proof (induction b n rule: base_digits.induct)
  case (1 b n)
  show ?case
  proof (cases "n < b \<or> b \<le> 1")
    case True
    with 1 show ?thesis by (subst (asm) base_digits.simps) auto
  next
    case False
    with 1 show ?thesis by (subst (asm) base_digits.simps) auto
  qed
qed

lemma length_base_digits_le: "1 < b \<Longrightarrow> n < b ^ k \<Longrightarrow> 0 < k \<Longrightarrow> length (base_digits b n) \<le> k"
proof (induction k arbitrary: n)
  case (Suc k)
  show ?case
  proof (cases "n < b")
    case True
    then show ?thesis by (subst base_digits.simps) simp
  next
    case False
    then have "k \<noteq> 0" using Suc.prems by (cases k) auto
    moreover have "n div b < b ^ k" using Suc.prems by (simp add: div_less_iff_less_mult mult.commute)
    ultimately show ?thesis using Suc False by (subst base_digits.simps) simp
  qed
qed simp

lemma base_digits_nonempty: "base_digits b n \<noteq> []"
  by (subst base_digits.simps) simp

text \<open>The digit loop fills \<open>tmp\<close> with the digits, least significant first.\<close>

lemma convert_digits_spec:
  assumes "1 < b" and "b < 2 ^ 64" and "length digits = b" and "length tmp = 32"
    and "unat v \<noteq> 0 \<longrightarrow> pos + length (base_digits b (unat v)) \<le> 32"
  shows "\<exists>tmp' pos'. convert_digits digits (of_nat b) v tmp pos = Some (tmp', pos') \<and>
    length tmp' = 32 \<and> pos' = pos + (if v = 0 then 0 else length (base_digits b (unat v))) \<and>
    take pos' tmp' = take pos tmp @ (if v = 0 then [] else rev (map (\<lambda>d. digits ! d) (base_digits b (unat v))))"
  using assms
proof (induction digits "of_nat b :: u64" v tmp pos rule: convert_digits.induct)
  case (1 digits v tmp pos)
  show ?case
  proof (cases "v = 0")
    case True
    then show ?thesis using "1.prems" by (subst convert_digits.simps) simp
  next
    case False
    then have u0: "unat v \<noteq> 0" by (simp add: unat_eq_zero)
    have ne: "length (base_digits b (unat v)) > 0" by (simp add: base_digits_nonempty)
    have lt: "pos < 32" using "1.prems"(5) u0 ne by linarith
    have ub: "unat (of_nat b :: u64) = b" using "1.prems" by (simp add: unat_of_nat)
    have um: "unat (v mod of_nat b) = unat v mod b" by (simp add: unat_mod ub)
    have ud: "unat (v div of_nat b) = unat v div b" by (simp add: unat_div ub)
    have dz: "v div of_nat b = 0 \<longleftrightarrow> unat v < b"
      using "1.prems" ud by (auto simp: unat_eq_zero [symmetric] div_eq_0_iff)
    have bd: "base_digits b (unat v) =
        (if unat v < b then [unat v] else base_digits b (unat v div b) @ [unat v mod b])"
      using "1.prems" by (subst base_digits.simps) simp
    let ?d = "digits ! (unat v mod b)"
    let ?t = "tmp[pos := ?d]"
    have mb: "unat v mod b < length digits" using "1.prems" by simp
    have gt: "v > 0" using False by (simp add: word_gt_0)
    have unf: "convert_digits digits (of_nat b) v tmp pos =
        convert_digits digits (of_nat b) (v div of_nat b) ?t (pos + 1)"
      using gt lt mb um "1.prems" by (subst convert_digits.simps) simp
    have "\<exists>tmp' pos'. convert_digits digits (of_nat b) (v div of_nat b) ?t (pos + 1) = Some (tmp', pos') \<and>
      length tmp' = 32 \<and>
      pos' = pos + 1 + (if v div of_nat b = 0 then 0 else length (base_digits b (unat (v div of_nat b)))) \<and>
      take pos' tmp' = take (pos + 1) ?t @ (if v div of_nat b = 0 then []
        else rev (map (\<lambda>d. digits ! d) (base_digits b (unat (v div of_nat b)))))"
    proof (rule "1.hyps")
      show "0 < v \<and> pos < 32" using gt lt by simp
      show "rd digits (unat (v mod of_nat b)) = Some ?d" using mb um by simp
      show "wr tmp pos ?d = Some ?t" using lt "1.prems" by simp
      show "unat (v div of_nat b) \<noteq> 0 \<longrightarrow> pos + 1 + length (base_digits b (unat (v div of_nat b))) \<le> 32"
        using "1.prems" bd dz ud u0 by (auto split: if_splits)
    qed (use "1.prems" in simp_all)
    then show ?thesis
      unfolding unf using False lt "1.prems"
      by (auto simp: bd dz ud take_Suc_update mod_less split: if_splits)
  qed
qed

lemma convert_emit_spec:
  assumes "pos \<le> length tmp" and "sz \<le> length buffer" and "out < sz"
  shows "convert_emit tmp pos buffer out sz =
    (let k = min pos (sz - 1 - out) in
     Some (take out buffer @ take k (rev (take pos tmp)) @ drop (out + k) buffer, out + k))"
  using assms
proof (induction tmp pos buffer out sz rule: convert_emit.induct)
  case (2 tmp pos buffer out sz)
  have tk: "take (Suc pos) tmp = take pos tmp @ [tmp ! pos]"
    using "2.prems" by (simp add: take_Suc_conv_app_nth)
  show ?case
  proof (cases "out + 1 < sz")
    case True
    let ?k = "min pos (sz - 1 - (out + 1))"
    have k: "min (Suc pos) (sz - Suc out) = Suc (min pos (sz - Suc (Suc out)))" using True by auto
    have "convert_emit tmp (Suc pos) buffer out sz = convert_emit tmp pos (buffer[out := tmp ! pos]) (out + 1) sz"
      using True "2.prems" by simp
    also have "\<dots> = Some (take (out + 1) (buffer[out := tmp ! pos]) @ take ?k (rev (take pos tmp)) @
        drop (out + 1 + ?k) buffer, out + 1 + ?k)"
      using "2.IH" [of "tmp ! pos" "buffer[out := tmp ! pos]"] True "2.prems" by (simp add: Let_def)
    also have "take (out + 1) (buffer[out := tmp ! pos]) = take out buffer @ [tmp ! pos]"
      using True "2.prems" take_Suc_update [of out buffer] by simp
    finally show ?thesis by (simp add: k tk Let_def)
  next
    case False
    then have "sz - 1 - out = 0" by simp
    with False show ?thesis by simp
  qed
qed simp

text \<open>The digit string of a number, and the number-to-string routine on a large enough buffer.\<close>

definition digit_string :: "nat \<Rightarrow> nat \<Rightarrow> u8 list" where
  "digit_string b n = map (\<lambda>d. str ''0123456789ABCDEF'' ! d) (base_digits b n)"

lemma convert_u64_spec:
  assumes "1 < b" and "b \<le> 16" and "digits = take b (str ''0123456789ABCDEF'')"
    and "0 < sz" and "sz \<le> length buffer" and "length (base_digits b (unat v)) \<le> 32"
  shows "convert_u64 buffer sz v (of_nat b) digits =
    (let s = take (sz - 1) (digit_string b (unat v)) in
     Some (s @ 0 # drop (Suc (length s)) buffer))"
proof (cases "v = 0")
  case True
  have "base_digits b 0 = [0]" using assms(1) by (subst base_digits.simps) simp
  then have "digit_string b (unat v) = [48]"
    using True by (simp add: digit_string_def str_def)
  with True assms show ?thesis
    by (cases buffer; cases "tl buffer"; cases "sz = 1") (auto simp: convert_u64_def wr_def Let_def)
next
  case False
  let ?ds = "digit_string b (unat v)"
  have ld: "length digits = b" using assms by simp
  have uc: "ucast (of_nat b :: u32) = (of_nat b :: u64)" using assms(2)
    by (simp add: word_eq_iff_unsigned [where 'a = nat] unsigned_ucast_eq unat_of_nat take_bit_nat_eq_self)
  obtain tmp pos where c: "convert_digits digits (of_nat b) v (replicate 32 0) 0 = Some (tmp, pos)"
      and l: "length tmp = 32" and p: "pos = length ?ds"
      and t: "take pos tmp = rev (map (\<lambda>d. digits ! d) (base_digits b (unat v)))"
    using convert_digits_spec [of b digits "replicate 32 0" v 0] assms ld False
    by (auto simp: digit_string_def)
  have m: "map (\<lambda>d. digits ! d) (base_digits b (unat v)) = ?ds"
    using base_digits_lt [of b _ "unat v"] assms by (auto simp: digit_string_def)
  have p32: "pos \<le> 32" using p assms by (simp add: digit_string_def)
  have e: "convert_emit tmp pos buffer 0 sz =
      (let k = min pos (sz - 1) in Some (take k ?ds @ drop k buffer, k))"
    using convert_emit_spec [of pos tmp sz buffer 0] assms l p32 t m by (simp add: Let_def)
  have k: "min pos (sz - 1) < length buffer" using assms by simp
  have "take (min pos (sz - 1)) ?ds = take (sz - 1) ?ds" using p by (simp add: min_def)
  moreover have "length (take (sz - 1) ?ds) = min pos (sz - 1)" using p by simp
  moreover have "drop (min pos (sz - 1)) buffer = buffer ! min pos (sz - 1) # drop (Suc (min pos (sz - 1))) buffer"
    using k by (simp add: Cons_nth_drop_Suc)
  ultimately show ?thesis
    using False assms c e k by (simp add: convert_u64_def uc Let_def list_update_append)
qed
section \<open>Parsing numbers\<close>

definition is_digit :: "u8 \<Rightarrow> bool" where
  "is_digit c \<longleftrightarrow> 48 \<le> c \<and> c \<le> 57"

definition digit_val :: "u8 \<Rightarrow> nat" where
  "digit_val c = unat c - 48"

lemma signed_digit_test: "sint c < 48 \<or> 57 < sint c \<longleftrightarrow> \<not> is_digit c"
  using uint_bounded [of c] by (auto simp: is_digit_def sint_u8 word_le_def split: if_splits)

lemma ucast_digit: "is_digit c \<Longrightarrow> (ucast (c - 48) :: u64) = of_nat (digit_val c)"
proof -
  assume "is_digit c"
  then have le: "48 \<le> c" by (simp add: is_digit_def)
  then have "unat (c - 48) = digit_val c" by (simp add: unat_sub digit_val_def)
  moreover have "(ucast (c - 48) :: u64) = of_nat (unat (c - 48))" by simp
  ultimately show ?thesis by simp
qed

lemma ku64_parse_loop_spec:
  assumes "0 \<in> set cs"
  shows "ku64_parse_loop cs (of_nat n) = Some (if \<forall>c \<in> set (cstr cs). is_digit c
    then Some (of_nat (foldl (\<lambda>a d. a * 10 + d) n (map digit_val (cstr cs)))) else None)"
  using assms
proof (induction cs "of_nat n :: u64" arbitrary: n rule: ku64_parse_loop.induct)
  case (2 c cs)
  show ?case
  proof (cases "c = 0 \<or> \<not> is_digit c")
    case True
    then show ?thesis using signed_digit_test [of c] by auto
  next
    case False
    have "of_nat n * 10 + ucast (c - 48) = (of_nat (n * 10 + digit_val c) :: u64)"
      using False by (simp add: ucast_digit)
    then show ?thesis
      using 2 False signed_digit_test [of c] by (auto simp del: of_nat_add of_nat_mult)
  qed
qed simp

lemma ku64_parse_digits:
  assumes "0 \<in> set s"
  shows "ku64_parse (Some s) True = Some (if cstr s \<noteq> [] \<and> (\<forall>c \<in> set (cstr s). is_digit c)
    then Some (of_nat (digits_value 10 (map digit_val (cstr s)))) else None)"
proof -
  obtain c cs where s: "s = c # cs" using assms by (cases s) auto
  show ?thesis
    using ku64_parse_loop_spec [OF assms, of 0] assms
    by (cases "c = 0") (auto simp: s ku64_parse_def digits_value_def)
qed

lemma less_16_cases: "(d::nat) < 16 \<Longrightarrow> d \<in> {0,1,2,3,4,5,6,7,8,9,10,11,12,13,14,15}"
  unfolding insert_iff empty_iff by presburger

lemma hex_digit_nth:
  "d < 10 \<Longrightarrow> unat (str ''0123456789ABCDEF'' ! d) = 48 + d"
  using less_16_cases [of d] by (auto simp: str_def)

lemma hex_digit_nonzero: "d < 16 \<Longrightarrow> str ''0123456789ABCDEF'' ! d \<noteq> 0"
  using less_16_cases [of d] by (auto simp: str_def)

lemma digit_val_hex: "d < 10 \<Longrightarrow> digit_val (str ''0123456789ABCDEF'' ! d) = d"
  by (simp add: hex_digit_nth digit_val_def)

lemma is_digit_hex: "d < 10 \<Longrightarrow> is_digit (str ''0123456789ABCDEF'' ! d)"
  by (simp add: hex_digit_nth is_digit_def word_le_nat_alt)

lemma digit_string_nonzero: "1 < b \<Longrightarrow> b \<le> 16 \<Longrightarrow> 0 \<notin> set (digit_string b n)"
  using base_digits_lt [of b _ n] hex_digit_nonzero by (fastforce simp: digit_string_def)

lemma digit_string_10:
  "digit_string 10 n \<noteq> []" "\<forall>c \<in> set (digit_string 10 n). is_digit c"
  "map digit_val (digit_string 10 n) = base_digits 10 n"
  using base_digits_lt [of 10 _ n] base_digits_nonempty [of 10 n]
  by (auto simp: digit_string_def is_digit_hex digit_val_hex o_def cong: map_cong)

lemma length_digits_dec: "length (base_digits 10 (unat (v :: u64))) \<le> 20"
proof (rule length_base_digits_le)
  show "unat v < 10 ^ 20" by (rule less_trans [OF unat_lt64]) simp
qed simp_all

lemma length_digits_hex: "length (base_digits 16 (unat (v :: u64))) \<le> 16"
  by (rule length_base_digits_le) (use unat_lt64 [of v] in auto)

lemma ku64_to_dec_digits:
  assumes "0 < sz" and "sz \<le> length buffer"
  shows "ku64_to_dec buffer sz v =
    (let s = take (sz - 1) (digit_string 10 (unat v)) in
     Some (s @ 0 # drop (Suc (length s)) buffer))"
  using convert_u64_spec [of 10 "str ''0123456789''" sz buffer v] assms length_digits_dec [of v]
  by (simp add: ku64_to_dec_def str_def)

lemma ku64_to_hex_digits:
  assumes "0 < sz" and "sz \<le> length buffer"
  shows "ku64_to_hex buffer sz v =
    (let s = take (sz - 1) (digit_string 16 (unat v)) in
     Some (s @ 0 # drop (Suc (length s)) buffer))"
  using convert_u64_spec [of 16 "str ''0123456789ABCDEF''" sz buffer v] assms length_digits_hex [of v]
  by (simp add: ku64_to_hex_def)

lemma ku64_parse_dec_string:
  assumes "20 < sz" and "sz \<le> length buffer"
  shows "\<exists>b. ku64_to_dec buffer sz v = Some b \<and> ku64_parse (Some b) True = Some (Some v)"
proof -
  let ?ds = "digit_string 10 (unat v)"
  have "length ?ds \<le> sz - 1" using length_digits_dec [of v] assms by (simp add: digit_string_def)
  then have "take (sz - 1) ?ds = ?ds" by simp
  with assms have b: "ku64_to_dec buffer sz v = Some (?ds @ 0 # drop (Suc (length ?ds)) buffer)"
    by (simp add: ku64_to_dec_digits Let_def)
  have "cstr (?ds @ 0 # drop (Suc (length ?ds)) buffer) = ?ds"
    by (rule cstr_append_zero) (simp add: digit_string_nonzero)
  then show ?thesis
    using b digit_string_10 [of "unat v"] by (simp add: ku64_parse_digits digits_value_base_digits)
qed


section \<open>Numbers in buffers\<close>

text \<open>The buffer holds the text, cut off at its size, and nothing is written past it.\<close>

definition written :: "u8 list \<Rightarrow> nat \<Rightarrow> u8 list \<Rightarrow> u8 list \<Rightarrow> bool" where
  "written buffer sz t b \<longleftrightarrow> length b = length buffer \<and> drop sz b = drop sz buffer \<and>
     (0 < sz \<longrightarrow> 0 \<in> set (take sz b) \<and> cstr b = take (sz - 1) t)"

lemma written_truncated:
  assumes "0 < sz" and "sz \<le> length buffer" and "0 \<notin> set t" and "s = take (sz - 1) t"
  shows "written buffer sz t (s @ 0 # drop (Suc (length s)) buffer)"
proof -
  have n: "Suc (length s) \<le> sz" using assms(1,4) by simp
  then obtain k where k: "sz = Suc (length s + k)" using less_iff_Suc_add by (auto simp: Suc_le_eq)
  then have "take sz (s @ 0 # drop (Suc (length s)) buffer) = s @ 0 # take (sz - Suc (length s)) (drop (Suc (length s)) buffer)"
    by (simp add: Suc_diff_le)
  moreover have "drop sz (s @ 0 # drop (Suc (length s)) buffer) = drop sz buffer"
    using k by (simp add: Suc_diff_le add.commute)
  moreover have "0 \<notin> set s" using assms(3,4) by (auto dest: in_set_takeD)
  ultimately show ?thesis using n assms(2,4) by (simp add: written_def cstr_append_zero)
qed

section \<open>Properties\<close>

text \<open>C38: \<open>kmemmove\<close> copies \<open>n\<close> bytes as if through a temporary, for overlapping regions in either
  direction, and changes no other byte; the regions only have to lie within the address space.\<close>

theorem kmemmove_correct:
  assumes "unat dst + unat n \<le> 2 ^ 64" and "unat src + unat n \<le> 2 ^ 64"
  shows "kmemmove m dst src n = (\<lambda>a. if a - dst < n then m (src + (a - dst)) else m a)"
  using kmemmove_copied [OF assms] by (simp add: copied_def)

theorem kmemmove_correct_witness:
  "kmemmove (\<lambda>a. ucast a) 101 100 3 103 = 102 \<and> kmemmove (\<lambda>a. ucast a) 101 100 3 104 = 104"
  using kmemmove_correct [of 101 3 100 "\<lambda>a. ucast a"] by simp

text \<open>On terminated strings \<open>kstrcmp\<close> returns; the result is zero exactly for equal strings and
  negative exactly when the first string comes first in the lexicographic order of unsigned bytes.\<close>

lemma kstrcmp_correct:
  assumes "0 \<in> set as" and "0 \<in> set bs"
  shows "\<exists>r. kstrcmp as bs = Some r \<and> (r = 0 \<longleftrightarrow> cstr as = cstr bs) \<and>
    (r < 0 \<longleftrightarrow> ord_class.lexordp (cstr as) (cstr bs))"
  by (rule kstrcmp_cstr [OF assms])

text \<open>\<open>ku64_parse\<close> accepts exactly the non-empty strings of decimal digits, and its value is the
  number they denote modulo two to the 64 (it has no overflow check).\<close>

lemma ku64_parse_correct:
  assumes "0 \<in> set s"
  shows "ku64_parse (Some s) True = Some (if cstr s \<noteq> [] \<and> (\<forall>c \<in> set (cstr s). is_digit c)
    then Some (of_nat (digits_value 10 (map digit_val (cstr s)))) else None)"
  by (rule ku64_parse_digits [OF assms])

text \<open>C37: the printers of numbers never write past the size they are given, whatever the number and the
  size: nothing for size 0, else the digits, cut off where they do not fit, and the terminator.  No number
  has more than 20 decimal or 16 hexadecimal digits, so that the 32 bytes of \<open>tmp\<close> are enough, and with 21
  bytes the text is complete: parsing it gives the number back.\<close>

theorem ku64_print_bounds:
  assumes "sz \<le> length buffer"
  shows "(\<exists>b. ku64_to_dec buffer sz v = Some b \<and> written buffer sz (digit_string 10 (unat v)) b \<and>
      (20 < sz \<longrightarrow> ku64_parse (Some b) True = Some (Some v))) \<and>
    (\<exists>b. ku64_to_hex buffer sz v = Some b \<and> written buffer sz (digit_string 16 (unat v)) b) \<and>
    length (digit_string 10 (unat v)) \<le> 20 \<and> length (digit_string 16 (unat v)) \<le> 16"
proof (cases "sz = 0")
  case True
  then show ?thesis using length_digits_dec [of v] length_digits_hex [of v]
    by (simp add: ku64_to_dec_def ku64_to_hex_def convert_u64_def written_def digit_string_def)
next
  case False
  then have sz: "0 < sz" by simp
  have nz: "0 \<notin> set (digit_string 10 (unat v))" "0 \<notin> set (digit_string 16 (unat v))" by (simp_all add: digit_string_nonzero)
  have "20 < sz \<longrightarrow> (\<exists>b. ku64_to_dec buffer sz v = Some b \<and> ku64_parse (Some b) True = Some (Some v))"
    using ku64_parse_dec_string [OF _ assms] by blast
  then show ?thesis
    using ku64_to_dec_digits [OF sz assms, of v] ku64_to_hex_digits [OF sz assms, of v] length_digits_dec [of v] length_digits_hex [of v]
      written_truncated [OF sz assms nz(1) refl] written_truncated [OF sz assms nz(2) refl]
    by (auto simp: Let_def digit_string_def)
qed

theorem ku64_print_bounds_witness:
  "\<exists>b. ku64_to_dec (replicate 4 7) 3 12345 = Some b \<and> cstr b = str ''12'' \<and> b ! 3 = 7"
proof -
  have "digit_string 10 12345 = str ''12345''" by (simp add: digit_string_def base_digits.simps str_def)
  then obtain b where "ku64_to_dec (replicate 4 7) 3 12345 = Some b" "written (replicate 4 7) 3 (str ''12345'') b"
    using ku64_print_bounds [of 3 "replicate 4 7" 12345] by auto
  moreover then have "drop 3 b ! 0 = (7 :: u8)" "3 \<le> length b" by (simp_all add: written_def numeral_eq_Suc)
  then have "b ! 3 = 7" by simp
  ultimately show ?thesis by (auto simp: written_def str_def)
qed

end
