(* ===== verification/Boot.thy ===== *)
theory Boot
  imports Prelude
begin

text \<open>
  \<open>src/boot_info.h\<close> and \<open>src/boot.c\<close>: the boot information the loader hands to the kernel, the
  pointer the kernel keeps to it, and the names of the memory types.  A pointer to a
  \<open>boot_info_t\<close> is its address together with the structure it points to; the null pointer is
  \<open>None\<close>.
\<close>

definition BOOT_INFO_MAGIC :: u32 where "BOOT_INFO_MAGIC = 0xB007B007"
definition BOOT_INFO_VERSION :: u32 where "BOOT_INFO_VERSION = 1"

record memory_map_entry =
  base :: u64
  len :: u64
  mtype :: u32
  acpi :: u32

record boot_info =
  magic :: u32
  version :: u32
  memory_map_entries :: u32
  reserved0 :: u32
  memory_map_addr :: u64
  kernel_phys_start :: u64
  kernel_phys_end :: u64
  kernel_virt_start :: u64
  pml4_addr :: u64

text \<open>\<open>sizeof(memory_map_entry_t)\<close> and \<open>sizeof(boot_info_t)\<close>.\<close>

definition sizeof_memory_map_entry :: u64 where "sizeof_memory_map_entry = 24"
definition sizeof_boot_info :: u64 where "sizeof_boot_info = 56"

type_synonym boot_info_ptr = "(u64 \<times> boot_info) option"

text \<open>The static \<open>current_boot_info\<close> is the state.\<close>

definition boot_init :: "boot_info_ptr \<Rightarrow> boot_info_ptr \<Rightarrow> boot_info_ptr" where
  "boot_init bi current_boot_info = bi"

definition boot_get_info :: "boot_info_ptr \<Rightarrow> boot_info_ptr" where
  "boot_get_info current_boot_info = current_boot_info"

text \<open>
  \<open>boot_get_memory_map\<close>: the returned pointer and what is stored through \<open>count\<close> when that
  pointer is not null (\<open>has_count\<close>).
\<close>

definition boot_get_memory_map :: "boot_info_ptr \<Rightarrow> bool \<Rightarrow> u64 \<times> u32 option" where
  "boot_get_memory_map current_boot_info has_count =
     (case current_boot_info of
        None \<Rightarrow> (0, if has_count then Some 0 else None)
      | Some (p, bi) \<Rightarrow>
          (memory_map_addr bi, if has_count then Some (memory_map_entries bi) else None))"

definition boot_memory_type_name :: "u32 \<Rightarrow> string" where
  "boot_memory_type_name t =
     (if t = 1 then ''usable''
      else if t = 2 then ''reserved''
      else if t = 3 then ''acpi_reclaim''
      else if t = 4 then ''acpi_nvs''
      else if t = 5 then ''bad_memory''
      else ''unknown'')"

end
