(* ===== verification/FrameSource.thy ===== *)
theory FrameSource
  imports Prelude
begin

text \<open>
  The contract of \<open>pmm_alloc_frames\<close> (\<open>src/pmm.h\<close>) towards its clients: on a well-formed state it
  returns, a null result changes nothing, and a non-null result is a page-aligned run of frames
  below 1 GiB that were not owned by anyone before and are owned after.
\<close>

definition frame_run :: "u64 \<Rightarrow> u64 \<Rightarrow> nat set" where
  "frame_run r c = {unat r div 4096..<unat r div 4096 + unat c}"

locale frame_source =
  fixes alloc :: "u64 \<Rightarrow> 'p \<Rightarrow> (u64 \<times> 'p) option"
    and owned :: "'p \<Rightarrow> nat set"
    and ok :: "'p \<Rightarrow> bool"
  assumes alloc_returns: "ok p \<Longrightarrow> \<exists>r q. alloc c p = Some (r, q)"
    and alloc_ok: "ok p \<Longrightarrow> alloc c p = Some (r, q) \<Longrightarrow> ok q"
    and alloc_null: "ok p \<Longrightarrow> alloc c p = Some (0, q) \<Longrightarrow> q = p"
    and alloc_run: "ok p \<Longrightarrow> alloc c p = Some (r, q) \<Longrightarrow> r \<noteq> 0 \<Longrightarrow>
      c \<noteq> 0 \<and> unat r mod 4096 = 0 \<and> unat r + 4096 * unat c \<le> 0x40000000 \<and>
      frame_run r c \<inter> owned p = {} \<and> owned q = owned p \<union> frame_run r c"
begin

lemma owned_mono: "ok p \<Longrightarrow> alloc c p = Some (r, q) \<Longrightarrow> owned p \<subseteq> owned q"
  using alloc_null alloc_run by (cases "r = 0") auto

text \<open>Two successive allocations never share a frame.\<close>

lemma successive_disjoint:
  assumes "ok p" and "alloc c p = Some (r, q)" and "r \<noteq> 0"
    and "alloc c' q = Some (r', q')" and "r' \<noteq> 0"
  shows "frame_run r c \<inter> frame_run r' c' = {}"
  using alloc_run [OF assms(1-3)] alloc_run [OF alloc_ok [OF assms(1,2)] assms(4,5)] by auto

end

end
