(* ===== verification/Clients.thy ===== *)
theory Clients
  imports Prelude
begin

text \<open>
  Clients of an allocator, of frames or of heap blocks: what they ask for, and the list of what they
  hold.  A run is a list of these operations; the allocators give it a meaning.
\<close>

text \<open>\<open>Request n\<close> asks for \<open>n\<close> frames or bytes, \<open>Release k\<close> gives back the \<open>k\<close>-th of the things held.\<close>

datatype client_op = Request u64 | Release nat

definition remove_nth :: "nat \<Rightarrow> 'a list \<Rightarrow> 'a list" where
  "remove_nth k xs = take k xs @ drop (Suc k) xs"

lemma set_remove_nth_subset: "set (remove_nth k xs) \<subseteq> set xs"
  by (auto simp: remove_nth_def dest: in_set_takeD in_set_dropD)

lemma remove_nth_split:
  assumes "k < length xs"
  shows "\<exists>ys zs. xs = ys @ (xs ! k) # zs \<and> remove_nth k xs = ys @ zs"
  using assms by (intro exI [of _ "take k xs"] exI [of _ "drop (Suc k) xs"]) (simp add: remove_nth_def id_take_nth_drop)

lemma remove_nth_distinct:
  assumes "distinct xs" and "k < length xs"
  shows "distinct (remove_nth k xs)" and "set (remove_nth k xs) = set xs - {xs ! k}"
proof -
  obtain ys zs where "xs = ys @ (xs ! k) # zs" "remove_nth k xs = ys @ zs" using remove_nth_split [OF assms(2)] by blast
  then have "distinct (ys @ (xs ! k) # zs)" "set xs = set (ys @ (xs ! k) # zs)" "remove_nth k xs = ys @ zs" using assms(1) by simp_all
  then show "distinct (remove_nth k xs)" and "set (remove_nth k xs) = set xs - {xs ! k}" by auto
qed

text \<open>The things held share nothing, pair by pair.\<close>

definition apart :: "('a \<Rightarrow> 'b set) \<Rightarrow> 'a list \<Rightarrow> bool" where
  "apart f xs \<longleftrightarrow> sorted_wrt (\<lambda>a b. f a \<inter> f b = {}) xs"

lemma apart_simps [simp]:
  "apart f []"
  "apart f (x # xs) \<longleftrightarrow> (\<forall>y \<in> set xs. f x \<inter> f y = {}) \<and> apart f xs"
  by (simp_all add: apart_def)

lemma apart_append: "apart f (xs @ ys) \<longleftrightarrow> apart f xs \<and> apart f ys \<and> (\<forall>x \<in> set xs. \<forall>y \<in> set ys. f x \<inter> f y = {})"
  by (auto simp: apart_def sorted_wrt_append)

lemma apart_remove_nth:
  assumes "apart f xs" and "k < length xs"
  shows "apart f (remove_nth k xs)" and "\<forall>y \<in> set (remove_nth k xs). f (xs ! k) \<inter> f y = {}"
proof -
  obtain ys zs where s: "xs = ys @ (xs ! k) # zs" "remove_nth k xs = ys @ zs" using remove_nth_split [OF assms(2)] by blast
  then have "apart f (ys @ (xs ! k) # zs)" using assms(1) by simp
  then show "apart f (remove_nth k xs)" and "\<forall>y \<in> set (remove_nth k xs). f (xs ! k) \<inter> f y = {}"
    unfolding s(2) by (auto simp: apart_append)
qed

lemma apartI: "distinct xs \<Longrightarrow> (\<And>a b. a \<in> set xs \<Longrightarrow> b \<in> set xs \<Longrightarrow> a \<noteq> b \<Longrightarrow> f a \<inter> f b = {}) \<Longrightarrow> apart f xs"
  by (induction xs) auto

end
