(* ===== verification/PMM.thy ===== *)
theory PMM
  imports KString Boot FrameSource Clients
begin

text \<open>
  \<open>src/pmm.c\<close>: the physical memory manager, a bitmap with one bit per 4 KiB frame of the first
  GiB (a set bit is a frame in use), a frame limit and a counter of free frames.  Bitmap accesses
  are checked against the size of the array.
\<close>

section \<open>State\<close>

abbreviation PMM_PAGE_SIZE :: u64 where "PMM_PAGE_SIZE \<equiv> 4096"
abbreviation PMM_MAX_MEMORY :: u64 where "PMM_MAX_MEMORY \<equiv> 0x40000000"
abbreviation PMM_MAX_FRAMES :: u64 where "PMM_MAX_FRAMES \<equiv> 0x40000"
abbreviation BITMAP_BYTES :: u64 where "BITMAP_BYTES \<equiv> 0x8000"

lemma pmm_constants:
  "PMM_MAX_MEMORY = push_bit 30 1" "PMM_MAX_FRAMES = PMM_MAX_MEMORY div PMM_PAGE_SIZE"
  "BITMAP_BYTES = PMM_MAX_FRAMES div 8"
  by simp_all

record pmm =
  frame_bitmap :: mem
  frame_limit :: u64
  total_frames :: u64
  free_frames :: u64

text \<open>The statics before \<open>pmm_init\<close>: all zero but \<open>frame_limit\<close>.\<close>

definition pmm_static :: pmm where
  "pmm_static = \<lparr>frame_bitmap = (\<lambda>_. 0), frame_limit = PMM_MAX_FRAMES, total_frames = 0, free_frames = 0\<rparr>"

section \<open>Bitmap\<close>

definition frame_mask :: "u64 \<Rightarrow> u8" where
  "frame_mask frame = ucast (push_bit (unat (frame mod 8)) (1 :: u32))"

definition bit_set :: "u64 \<Rightarrow> pmm \<Rightarrow> pmm option" where
  "bit_set frame s =
     (let i = frame div 8 in
      if i < BITMAP_BYTES
      then Some (s\<lparr>frame_bitmap := (frame_bitmap s)(i := frame_bitmap s i OR frame_mask frame)\<rparr>)
      else None)"

definition bit_clear :: "u64 \<Rightarrow> pmm \<Rightarrow> pmm option" where
  "bit_clear frame s =
     (let i = frame div 8 in
      if i < BITMAP_BYTES
      then Some (s\<lparr>frame_bitmap := (frame_bitmap s)(i := frame_bitmap s i AND NOT (frame_mask frame))\<rparr>)
      else None)"

definition bit_test :: "u64 \<Rightarrow> pmm \<Rightarrow> bool option" where
  "bit_test frame s =
     (let i = frame div 8 in
      if i < BITMAP_BYTES then Some (frame_bitmap s i AND frame_mask frame \<noteq> 0) else None)"

definition page_align_up :: "u64 \<Rightarrow> u64" where
  "page_align_up value = (value + PMM_PAGE_SIZE - 1) AND NOT (PMM_PAGE_SIZE - 1)"

definition page_align_down :: "u64 \<Rightarrow> u64" where
  "page_align_down value = value AND NOT (PMM_PAGE_SIZE - 1)"

section \<open>Reserving and freeing ranges\<close>

text \<open>
  The address loops step a \<open>u64\<close> by the page size; for an end near the top of the address space
  the addition wraps and the C loop does not end, so the loops are partial.
\<close>

partial_function (option) reserve_loop :: "u64 \<Rightarrow> u64 \<Rightarrow> pmm \<Rightarrow> pmm option" where
  "reserve_loop addr end_addr s =
     (if addr < end_addr then
        do { let frame = addr div PMM_PAGE_SIZE;
             used \<leftarrow> bit_test frame s;
             s' \<leftarrow> (if used then Some s
                   else do { s1 \<leftarrow> bit_set frame s;
                             Some (s1\<lparr>free_frames := free_frames s1 - 1\<rparr>) });
             reserve_loop (addr + PMM_PAGE_SIZE) end_addr s' }
      else Some s)"

definition reserve_range :: "u64 \<Rightarrow> u64 \<Rightarrow> pmm \<Rightarrow> pmm option" where
  "reserve_range rbase rlen s =
     (let start = page_align_down rbase;
          end_addr = page_align_up (rbase + rlen)
      in if start \<ge> PMM_MAX_MEMORY then Some s
         else reserve_loop start (if end_addr > PMM_MAX_MEMORY then PMM_MAX_MEMORY else end_addr) s)"

partial_function (option) free_loop :: "u64 \<Rightarrow> u64 \<Rightarrow> pmm \<Rightarrow> pmm option" where
  "free_loop addr end_addr s =
     (if addr < end_addr then
        do { let frame = addr div PMM_PAGE_SIZE;
             used \<leftarrow> bit_test frame s;
             s' \<leftarrow> (if used
                   then do { s1 \<leftarrow> bit_clear frame s;
                             Some (s1\<lparr>free_frames := free_frames s1 + 1\<rparr>) }
                   else Some s);
             free_loop (addr + PMM_PAGE_SIZE) end_addr s' }
      else Some s)"

definition free_range :: "u64 \<Rightarrow> u64 \<Rightarrow> pmm \<Rightarrow> pmm option" where
  "free_range rbase rlen s =
     (let start = page_align_up rbase;
          end_addr = page_align_down (rbase + rlen)
      in if start \<ge> end_addr \<or> start \<ge> PMM_MAX_MEMORY then Some s
         else free_loop start (if end_addr > PMM_MAX_MEMORY then PMM_MAX_MEMORY else end_addr) s)"

section \<open>Initialisation\<close>

text \<open>The loop over the memory map; \<open>entries\<close> is the array at \<open>memory_map_addr\<close>.\<close>

function free_usable :: "memory_map_entry list \<Rightarrow> u32 \<Rightarrow> u32 \<Rightarrow> pmm \<Rightarrow> pmm option" where
  "free_usable entries n i s =
     (if i < n then
        do { e \<leftarrow> rd entries (unat i);
             s' \<leftarrow> (if mtype e = 1 then free_range (base e) (len e) s else Some s);
             free_usable entries n (i + 1) s' }
      else Some s)"
  by pat_completeness auto
termination
  by (relation "measure (\<lambda>(entries, n, i, s). unat n - unat i)")
    (auto simp: unat_Suc32 word_less_nat_alt)

definition pmm_init :: "u64 \<times> boot_info \<Rightarrow> memory_map_entry list \<Rightarrow> pmm \<Rightarrow> pmm option" where
  "pmm_init bip entries s =
     (let (p, bi) = bip;
          s0 = s\<lparr>frame_bitmap := kmemset (frame_bitmap s) 0 0xFF BITMAP_BYTES,
                 total_frames := frame_limit s, free_frames := 0\<rparr>
      in do { s1 \<leftarrow> free_usable entries (memory_map_entries bi) 0 s0;
              s2 \<leftarrow> reserve_range 0 0x100000 s1;
              s3 \<leftarrow> reserve_range (kernel_phys_start bi) (kernel_phys_end bi - kernel_phys_start bi) s2;
              s4 \<leftarrow> reserve_range p sizeof_boot_info s3;
              s5 \<leftarrow> reserve_range (memory_map_addr bi)
                     (sizeof_memory_map_entry * ucast (memory_map_entries bi)) s4;
              reserve_range 0x1000 0x4000 s5 })"

section \<open>Allocating and freeing frames\<close>

text \<open>\<open>for (i = 0; i < count; i++) bit_set(run_start + i)\<close>.\<close>

function set_run :: "u64 \<Rightarrow> u64 \<Rightarrow> u64 \<Rightarrow> pmm \<Rightarrow> pmm option" where
  "set_run run_start count i s =
     (if i < count then do { s' \<leftarrow> bit_set (run_start + i) s; set_run run_start count (i + 1) s' }
      else Some s)"
  by pat_completeness auto
termination
  by (relation "measure (\<lambda>(run_start, count, i, s). unat count - unat i)")
    (auto simp: unat_Suc64 word_less_nat_alt)

text \<open>The scan over all frames; the result is the returned pointer (0 for failure).\<close>

function alloc_scan :: "u64 \<Rightarrow> u64 \<Rightarrow> u64 \<Rightarrow> u64 \<Rightarrow> pmm \<Rightarrow> (u64 \<times> pmm) option" where
  "alloc_scan count frame run_start run_length s =
     (if frame < frame_limit s then
        do { used \<leftarrow> bit_test frame s;
             (if \<not> used then
                let run_start' = (if run_length = 0 then frame else run_start);
                    run_length' = run_length + 1
                in if run_length' = count
                   then do { s' \<leftarrow> set_run run_start' count 0 s;
                             Some (run_start' * PMM_PAGE_SIZE,
                                   s'\<lparr>free_frames := free_frames s' - count\<rparr>) }
                   else alloc_scan count (frame + 1) run_start' run_length' s
              else alloc_scan count (frame + 1) run_start 0 s) }
      else Some (0, s))"
  by pat_completeness auto
termination
  by (relation "measure (\<lambda>(count, frame, run_start, run_length, s). unat (frame_limit s) - unat frame)")
    (auto simp: unat_Suc64 word_less_nat_alt)

definition pmm_alloc_frames :: "u64 \<Rightarrow> pmm \<Rightarrow> (u64 \<times> pmm) option" where
  "pmm_alloc_frames count s =
     (if count = 0 \<or> count > frame_limit s then Some (0, s) else alloc_scan count 0 0 0 s)"

definition pmm_alloc_frame :: "pmm \<Rightarrow> (u64 \<times> pmm) option" where
  "pmm_alloc_frame s = pmm_alloc_frames 1 s"

function free_run :: "u64 \<Rightarrow> u64 \<Rightarrow> u64 \<Rightarrow> pmm \<Rightarrow> pmm option" where
  "free_run frame count i s =
     (if i < count then
        let current = frame + i in
        if current \<ge> frame_limit s then Some s
        else do { used \<leftarrow> bit_test current s;
                  (if \<not> used then Some s
                   else do { s' \<leftarrow> bit_clear current s;
                             free_run frame count (i + 1) (s'\<lparr>free_frames := free_frames s' + 1\<rparr>) }) }
      else Some s)"
  by pat_completeness auto
termination
  by (relation "measure (\<lambda>(frame, count, i, s). unat count - unat i)")
    (auto simp: unat_Suc64 word_less_nat_alt)

definition pmm_free_frames :: "u64 \<Rightarrow> u64 \<Rightarrow> pmm \<Rightarrow> pmm option" where
  "pmm_free_frames frame_ptr count s =
     (if frame_ptr = 0 \<or> count = 0 then Some s
      else let frame = frame_ptr div PMM_PAGE_SIZE in
        if frame \<ge> frame_limit s then Some s else free_run frame count 0 s)"

definition pmm_free_frame :: "u64 \<Rightarrow> pmm \<Rightarrow> pmm option" where
  "pmm_free_frame frame_ptr s = pmm_free_frames frame_ptr 1 s"

definition pmm_total_bytes :: "pmm \<Rightarrow> u64" where
  "pmm_total_bytes s = total_frames s * PMM_PAGE_SIZE"

definition pmm_free_bytes :: "pmm \<Rightarrow> u64" where
  "pmm_free_bytes s = free_frames s * PMM_PAGE_SIZE"

definition pmm_reserved_bytes :: "pmm \<Rightarrow> u64" where
  "pmm_reserved_bytes s = pmm_total_bytes s - pmm_free_bytes s"

declare reserve_loop.simps [code] free_loop.simps [code]

declare free_usable.simps [simp del] set_run.simps [simp del] alloc_scan.simps [simp del]
  free_run.simps [simp del]


section \<open>Frames in use\<close>

definition used_frames :: "pmm \<Rightarrow> nat set" where
  "used_frames s = {f. f < 0x40000 \<and> bit (frame_bitmap s (of_nat (f div 8))) (f mod 8)}"

definition free_set :: "pmm \<Rightarrow> nat set" where
  "free_set s = {..<0x40000} - used_frames s"

lemma used_frames_lt: "f \<in> used_frames s \<Longrightarrow> f < 0x40000"
  by (simp add: used_frames_def)

lemma finite_free_set [simp]: "finite (free_set s)"
  by (simp add: free_set_def)

lemma card_free_set_le: "card (free_set s) \<le> 0x40000"
proof -
  have "card (free_set s) \<le> card {..<0x40000::nat}"
    by (rule card_mono) (auto simp: free_set_def)
  then show ?thesis by simp
qed

lemma used_frames_cong: "frame_bitmap s = frame_bitmap t \<Longrightarrow> used_frames s = used_frames t"
  by (simp add: used_frames_def)

lemma used_frames_update [simp]:
  "used_frames (s\<lparr>free_frames := x\<rparr>) = used_frames s"
  "used_frames (s\<lparr>total_frames := x\<rparr>) = used_frames s"
  by (simp_all add: used_frames_def)

lemma free_set_update [simp]:
  "free_set (s\<lparr>free_frames := x\<rparr>) = free_set s"
  "free_set (s\<lparr>total_frames := x\<rparr>) = free_set s"
  by (simp_all add: free_set_def)

lemma frame_mask_eq: "frame_mask frame = push_bit (unat (frame mod 8)) 1"
proof (rule bit_word_eqI)
  fix n assume "n < LENGTH(8)"
  then show "bit (frame_mask frame) n \<longleftrightarrow> bit (push_bit (unat (frame mod 8)) 1 :: u8) n"
    by (auto simp: frame_mask_def bit_simps)
qed

lemma frame_index:
  assumes "frame < PMM_MAX_FRAMES"
  shows "frame div 8 < BITMAP_BYTES" and "unat frame < 0x40000"
    and "frame div 8 = of_nat (unat frame div 8)" and "unat (frame mod 8) = unat frame mod 8"
proof -
  show u: "unat frame < 0x40000" using assms by (simp add: word_less_nat_alt)
  have d: "unat (frame div 8) = unat frame div 8" by (simp add: unat_div)
  show "frame div 8 < BITMAP_BYTES" using u d by (simp add: word_less_nat_alt)
  show "frame div 8 = of_nat (unat frame div 8)" by (simp flip: d)
  show "unat (frame mod 8) = unat frame mod 8" by (simp add: unat_mod)
qed

lemma bit_frame_mask:
  "g < 8 \<Longrightarrow> bit (frame_mask frame) g \<longleftrightarrow> unat (frame mod 8) = g"
  by (auto simp: frame_mask_def bit_simps)

lemma bit_test_spec:
  assumes "frame < PMM_MAX_FRAMES"
  shows "bit_test frame s = Some (unat frame \<in> used_frames s)"
  using frame_index [OF assms]
  by (simp add: bit_test_def Let_def frame_mask_eq used_frames_def bit_iff_and_push_bit_not_eq_0)

lemma of_nat_byte_eq:
  "f < 0x40000 \<Longrightarrow> g < 0x40000 \<Longrightarrow> (of_nat (f div 8) :: u64) = of_nat (g div 8) \<longleftrightarrow> f div 8 = g div 8"
  by (auto simp: word_eq_iff_unsigned [where 'a = nat] unat_of_nat take_bit_nat_eq_self)

lemma same_frame_iff: "f = g \<longleftrightarrow> f div 8 = g div 8 \<and> f mod 8 = g mod (8::nat)"
  by (metis div_mult_mod_eq)

lemma bit_set_spec:
  assumes "frame < PMM_MAX_FRAMES"
  shows "\<exists>t. bit_set frame s = Some t \<and> used_frames t = insert (unat frame) (used_frames s) \<and>
    frame_limit t = frame_limit s \<and> free_frames t = free_frames s \<and> total_frames t = total_frames s"
proof -
  note ix = frame_index [OF assms]
  let ?t = "s\<lparr>frame_bitmap := (frame_bitmap s)(frame div 8 := frame_bitmap s (frame div 8) OR frame_mask frame)\<rparr>"
  have "f \<in> used_frames ?t \<longleftrightarrow> f = unat frame \<or> f \<in> used_frames s" for f
    using ix of_nat_byte_eq [of f "unat frame"] same_frame_iff [of f "unat frame"]
    by (auto simp: used_frames_def bit_or_iff bit_frame_mask)
  then show ?thesis
    using ix by (auto simp: bit_set_def Let_def)
qed

lemma bit_clear_spec:
  assumes "frame < PMM_MAX_FRAMES"
  shows "\<exists>t. bit_clear frame s = Some t \<and> used_frames t = used_frames s - {unat frame} \<and>
    frame_limit t = frame_limit s \<and> free_frames t = free_frames s \<and> total_frames t = total_frames s"
proof -
  note ix = frame_index [OF assms]
  let ?t = "s\<lparr>frame_bitmap := (frame_bitmap s)(frame div 8 := frame_bitmap s (frame div 8) AND NOT (frame_mask frame))\<rparr>"
  have "f \<in> used_frames ?t \<longleftrightarrow> f \<noteq> unat frame \<and> f \<in> used_frames s" for f
    using ix of_nat_byte_eq [of f "unat frame"] same_frame_iff [of f "unat frame"]
    by (auto simp: used_frames_def bit_and_iff bit_not_iff bit_frame_mask)
  then show ?thesis
    using ix by (auto simp: bit_clear_def Let_def)
qed


section \<open>The bitmap as a set of frames\<close>

text \<open>
  What the allocator needs from its bitmap: tests, sets and clears of one frame act on a set of
  frame numbers below a capacity.  The lemmas count the frames outside the set.
\<close>

locale frame_bits =
  fixes tst :: "u64 \<Rightarrow> 's \<Rightarrow> bool option"
    and mark :: "u64 \<Rightarrow> 's \<Rightarrow> 's option"
    and unmark :: "u64 \<Rightarrow> 's \<Rightarrow> 's option"
    and used :: "'s \<Rightarrow> nat set"
    and cap :: nat
  assumes used_below: "used s \<subseteq> {..<cap}"
    and tst_law: "unat f < cap \<Longrightarrow> tst f s = Some (unat f \<in> used s)"
    and mark_law: "unat f < cap \<Longrightarrow> \<exists>t. mark f s = Some t \<and> used t = insert (unat f) (used s)"
    and unmark_law: "unat f < cap \<Longrightarrow> \<exists>t. unmark f s = Some t \<and> used t = used s - {unat f}"
begin

lemma finite_used: "finite (used s)"
  using used_below finite_subset by blast

lemma count_mark:
  assumes "unat f < cap" and "unat f \<notin> used s" and "mark f s = Some t"
  shows "card ({..<cap} - used s) = Suc (card ({..<cap} - used t))"
proof -
  have "used t = insert (unat f) (used s)" using mark_law [OF assms(1), of s] assms(3) by auto
  then have "{..<cap} - used s = insert (unat f) ({..<cap} - used t)" using assms(1,2) by auto
  moreover have "unat f \<notin> {..<cap} - used t" using \<open>used t = insert (unat f) (used s)\<close> by simp
  ultimately show ?thesis by simp
qed

lemma count_unmark:
  assumes "unat f < cap" and "unat f \<in> used s" and "unmark f s = Some t"
  shows "card ({..<cap} - used t) = Suc (card ({..<cap} - used s))"
proof -
  have u: "used t = used s - {unat f}" using unmark_law [OF assms(1), of s] assms(3) by auto
  then have "{..<cap} - used t = insert (unat f) ({..<cap} - used s)" using assms(1) by auto
  then show ?thesis using assms(2) by simp
qed

lemma test_after_mark:
  "unat f < cap \<Longrightarrow> unat g < cap \<Longrightarrow> mark f s = Some t \<Longrightarrow>
   tst g t = Some (g = f \<or> unat g \<in> used s)"
  using mark_law [of f s] tst_law [of g t] by (auto simp: word_eq_iff_unsigned [where 'a = nat])

lemma test_after_unmark:
  "unat f < cap \<Longrightarrow> unat g < cap \<Longrightarrow> unmark f s = Some t \<Longrightarrow>
   tst g t = Some (g \<noteq> f \<and> unat g \<in> used s)"
  using unmark_law [of f s] tst_law [of g t] by (auto simp: word_eq_iff_unsigned [where 'a = nat])

end

lemma frame_lt_max: "unat f < 0x40000 \<Longrightarrow> f < PMM_MAX_FRAMES"
  by (simp add: word_less_nat_alt)

interpretation bitmap: frame_bits bit_test bit_set bit_clear used_frames "0x40000"
proof unfold_locales
  show "used_frames s \<subseteq> {..<0x40000}" for s by (auto simp: used_frames_def)
  show "bit_test f s = Some (unat f \<in> used_frames s)" if "unat f < 0x40000" for f s
    by (rule bit_test_spec [OF frame_lt_max [OF that]])
  show "\<exists>t. bit_set f s = Some t \<and> used_frames t = insert (unat f) (used_frames s)"
    if "unat f < 0x40000" for f s
    using bit_set_spec [OF frame_lt_max [OF that]] by blast
  show "\<exists>t. bit_clear f s = Some t \<and> used_frames t = used_frames s - {unat f}"
    if "unat f < 0x40000" for f s
    using bit_clear_spec [OF frame_lt_max [OF that]] by blast
qed

section \<open>Invariant\<close>

text \<open>The limit is the capacity of the bitmap and the counter counts the clear bits.\<close>

definition pmm_wf :: "pmm \<Rightarrow> bool" where
  "pmm_wf s \<longleftrightarrow> frame_limit s = PMM_MAX_FRAMES \<and> unat (free_frames s) = card (free_set s)"

lemma pmm_wf_limit: "pmm_wf s \<Longrightarrow> frame_limit s = PMM_MAX_FRAMES"
  by (simp add: pmm_wf_def)

lemma unat_dec: "unat (x :: u64) = Suc n \<Longrightarrow> unat (x - 1) = n"
  by (metis diff_Suc_1 unat_minus_one nat.distinct(1) unat_0)

lemma reserve_frame_spec:
  assumes "pmm_wf s" and "f < PMM_MAX_FRAMES" and "unat f \<notin> used_frames s"
  shows "\<exists>t. bit_set f s = Some t \<and> pmm_wf (t\<lparr>free_frames := free_frames t - 1\<rparr>) \<and>
    used_frames t = insert (unat f) (used_frames s) \<and> total_frames t = total_frames s"
proof -
  obtain t where t: "bit_set f s = Some t" "used_frames t = insert (unat f) (used_frames s)"
      "frame_limit t = frame_limit s" "free_frames t = free_frames s" "total_frames t = total_frames s"
    using bit_set_spec [OF assms(2)] by blast
  have "card (free_set s) = Suc (card (free_set t))"
    using bitmap.count_mark [of f s t] frame_index(2) [OF assms(2)] assms(3) t(1)
    by (simp add: free_set_def)
  then have "unat (free_frames t - 1) = card (free_set t)"
    using assms(1) t(4) by (simp add: pmm_wf_def unat_dec)
  with t assms(1) show ?thesis by (auto simp: pmm_wf_def)
qed

lemma release_frame_spec:
  assumes "pmm_wf s" and "f < PMM_MAX_FRAMES" and "unat f \<in> used_frames s"
  shows "\<exists>t. bit_clear f s = Some t \<and> pmm_wf (t\<lparr>free_frames := free_frames t + 1\<rparr>) \<and>
    used_frames t = used_frames s - {unat f} \<and> total_frames t = total_frames s"
proof -
  obtain t where t: "bit_clear f s = Some t" "used_frames t = used_frames s - {unat f}"
      "frame_limit t = frame_limit s" "free_frames t = free_frames s" "total_frames t = total_frames s"
    using bit_clear_spec [OF assms(2)] by blast
  have c: "card (free_set t) = Suc (card (free_set s))"
    using bitmap.count_unmark [of f s t] frame_index(2) [OF assms(2)] assms(3) t(1)
    by (simp add: free_set_def)
  have "unat (free_frames t) + 1 < 2 ^ 64"
    using assms(1) t(4) card_free_set_le [of s] by (simp add: pmm_wf_def)
  then have "unat (free_frames t + 1) = card (free_set t)"
    using c assms(1) t(4) by (simp add: pmm_wf_def unat_plus_if')
  with t assms(1) show ?thesis by (auto simp: pmm_wf_def)
qed

section \<open>Ranges\<close>

lemma unat_page_align_down: "unat (page_align_down v) = unat v div 4096 * 4096"
proof -
  have m: "PMM_PAGE_SIZE - 1 = mask 12" by (simp add: mask_numeral)
  show ?thesis unfolding page_align_down_def m unat_and_not_mask by simp
qed

lemma unat_page_align_up: "unat (page_align_up v) = unat (v + 4095) div 4096 * 4096"
proof -
  have m: "PMM_PAGE_SIZE - 1 = mask 12" by (simp add: mask_numeral)
  show ?thesis unfolding page_align_up_def m unat_and_not_mask by (simp add: add.commute)
qed

text \<open>
  The frames an address range touches (rounded outwards, as \<open>reserve_range\<close> rounds) and the
  frames it fully covers (rounded inwards, as \<open>free_range\<close> rounds).
\<close>

definition frames_touched :: "u64 \<Rightarrow> u64 \<Rightarrow> nat set" where
  "frames_touched b l =
     {f. f < 0x40000 \<and> unat b div 4096 \<le> f \<and> f < unat (b + l + 4095) div 4096}"

definition frames_covered :: "u64 \<Rightarrow> u64 \<Rightarrow> nat set" where
  "frames_covered b l =
     {f. f < 0x40000 \<and> unat (b + 4095) div 4096 \<le> f \<and> f < unat (b + l) div 4096}"

lemma page_addr:
  assumes "a \<le> 0x40000"
  shows "unat (of_nat (4096 * a) :: u64) = 4096 * a"
  using assms by (intro unat_of_nat64) simp

lemma reserve_loop_spec:
  assumes "a \<le> 0x40000" and "pmm_wf s" and "b \<le> 0x40000"
  shows "\<exists>t. reserve_loop (of_nat (4096 * a)) (of_nat (4096 * b)) s = Some t \<and> pmm_wf t \<and>
    used_frames t = used_frames s \<union> {a..<b} \<and> total_frames t = total_frames s"
  using assms
proof (induction "b - a" arbitrary: a s)
  case 0
  then have "\<not> (of_nat (4096 * a) :: u64) < of_nat (4096 * b)"
    unfolding word_less_nat_alt page_addr [OF \<open>a \<le> _\<close>] page_addr [OF \<open>b \<le> _\<close>] by simp
  with 0 show ?case by (subst reserve_loop.simps) auto
next
  case (Suc n)
  then have ab: "a < b" by simp
  let ?f = "of_nat (4096 * a) div PMM_PAGE_SIZE :: u64"
  have lt: "(of_nat (4096 * a) :: u64) < of_nat (4096 * b)"
    unfolding word_less_nat_alt page_addr [OF \<open>a \<le> _\<close>] page_addr [OF \<open>b \<le> _\<close>] using ab by simp
  have uf: "unat ?f = a" unfolding unat_div page_addr [OF \<open>a \<le> _\<close>] by simp
  have fm: "?f < PMM_MAX_FRAMES" using ab Suc.prems uf by (simp add: word_less_nat_alt)
  have nx: "of_nat (4096 * a) + PMM_PAGE_SIZE = of_nat (4096 * Suc a)" by simp
  obtain s' where s': "(if a \<in> used_frames s then Some s
        else do { s1 \<leftarrow> bit_set ?f s; Some (s1\<lparr>free_frames := free_frames s1 - 1\<rparr>) }) = Some s'"
      and w: "pmm_wf s'" and u: "used_frames s' = insert a (used_frames s)"
      and tf: "total_frames s' = total_frames s"
    using reserve_frame_spec [OF Suc.prems(2) fm] uf Suc.prems(2)
    by (cases "a \<in> used_frames s") (auto simp: insert_absorb)
  have "\<exists>t. reserve_loop (of_nat (4096 * Suc a)) (of_nat (4096 * b)) s' = Some t \<and> pmm_wf t \<and>
      used_frames t = used_frames s' \<union> {Suc a..<b} \<and> total_frames t = total_frames s'"
    using Suc ab w by (intro Suc.hyps(1)) auto
  moreover have "reserve_loop (of_nat (4096 * a)) (of_nat (4096 * b)) s =
      reserve_loop (of_nat (4096 * Suc a)) (of_nat (4096 * b)) s'"
    using lt s' by (subst reserve_loop.simps) (simp only: nx Let_def if_True bit_test_spec [OF fm] uf bind.bind_lunit)
  moreover have "insert a (used_frames s) \<union> {Suc a..<b} = used_frames s \<union> {a..<b}"
    using ab by auto
  ultimately show ?case using u tf by (simp del: of_nat_mult of_nat_Suc)
qed


lemma free_loop_spec:
  assumes "a \<le> 0x40000" and "pmm_wf s" and "b \<le> 0x40000"
  shows "\<exists>t. free_loop (of_nat (4096 * a)) (of_nat (4096 * b)) s = Some t \<and> pmm_wf t \<and>
    used_frames t = used_frames s - {a..<b} \<and> total_frames t = total_frames s"
  using assms
proof (induction "b - a" arbitrary: a s)
  case 0
  then have "\<not> (of_nat (4096 * a) :: u64) < of_nat (4096 * b)"
    unfolding word_less_nat_alt page_addr [OF \<open>a \<le> _\<close>] page_addr [OF \<open>b \<le> _\<close>] by simp
  with 0 show ?case by (subst free_loop.simps) auto
next
  case (Suc n)
  then have ab: "a < b" by simp
  let ?f = "of_nat (4096 * a) div PMM_PAGE_SIZE :: u64"
  have lt: "(of_nat (4096 * a) :: u64) < of_nat (4096 * b)"
    unfolding word_less_nat_alt page_addr [OF \<open>a \<le> _\<close>] page_addr [OF \<open>b \<le> _\<close>] using ab by simp
  have uf: "unat ?f = a" unfolding unat_div page_addr [OF \<open>a \<le> _\<close>] by simp
  have fm: "?f < PMM_MAX_FRAMES" using ab Suc.prems uf by (simp add: word_less_nat_alt)
  have nx: "of_nat (4096 * a) + PMM_PAGE_SIZE = of_nat (4096 * Suc a)" by simp
  obtain s' where s': "(if a \<in> used_frames s
        then do { s1 \<leftarrow> bit_clear ?f s; Some (s1\<lparr>free_frames := free_frames s1 + 1\<rparr>) }
        else Some s) = Some s'"
      and w: "pmm_wf s'" and u: "used_frames s' = used_frames s - {a}"
      and tf: "total_frames s' = total_frames s"
    using release_frame_spec [OF Suc.prems(2) fm] uf Suc.prems(2)
    by (cases "a \<in> used_frames s") auto
  have "\<exists>t. free_loop (of_nat (4096 * Suc a)) (of_nat (4096 * b)) s' = Some t \<and> pmm_wf t \<and>
      used_frames t = used_frames s' - {Suc a..<b} \<and> total_frames t = total_frames s'"
    using Suc ab w by (intro Suc.hyps(1)) auto
  moreover have "free_loop (of_nat (4096 * a)) (of_nat (4096 * b)) s =
      free_loop (of_nat (4096 * Suc a)) (of_nat (4096 * b)) s'"
    using lt s' by (subst free_loop.simps) (simp only: nx Let_def if_True bit_test_spec [OF fm] uf bind.bind_lunit)
  moreover have "used_frames s - {a} - {Suc a..<b} = used_frames s - {a..<b}"
    using ab by auto
  ultimately show ?case using u tf by (simp del: of_nat_mult of_nat_Suc)
qed

lemma aligned_as_page:
  assumes "unat (x :: u64) = n * 4096"
  shows "x = of_nat (4096 * n)"
proof -
  have "of_nat (n * 4096) = x" by (simp flip: assms)
  then show ?thesis by (simp add: mult.commute)
qed

text \<open>The end of a loop, cut at the managed memory, as a page number.\<close>

lemma capped_end:
  assumes "unat (e :: u64) = n * 4096"
  shows "(if e > PMM_MAX_MEMORY then PMM_MAX_MEMORY else e) = of_nat (4096 * min n 0x40000)"
proof (cases "e > PMM_MAX_MEMORY")
  case True
  then have "n > 0x40000" using assms by (simp add: word_less_nat_alt)
  with True show ?thesis by simp
next
  case False
  then have "n \<le> 0x40000" using assms by (simp add: word_less_nat_alt)
  with False show ?thesis using aligned_as_page [OF assms] by (simp add: min_absorb1)
qed

lemma reserve_range_spec:
  assumes "pmm_wf s"
  shows "\<exists>t. reserve_range b l s = Some t \<and> pmm_wf t \<and>
    used_frames t = used_frames s \<union> frames_touched b l \<and> total_frames t = total_frames s"
proof (cases "page_align_down b \<ge> PMM_MAX_MEMORY")
  case True
  then have "frames_touched b l = {}"
    by (auto simp: frames_touched_def word_le_nat_alt unat_page_align_down)
  with True assms show ?thesis by (simp add: reserve_range_def Let_def)
next
  case False
  let ?A = "unat b div 4096" and ?B = "min (unat (b + l + 4095) div 4096) 0x40000"
  have A: "page_align_down b = of_nat (4096 * ?A)"
    by (rule aligned_as_page) (simp add: unat_page_align_down)
  have B: "(if page_align_up (b + l) > PMM_MAX_MEMORY then PMM_MAX_MEMORY else page_align_up (b + l))
      = of_nat (4096 * ?B)"
    by (rule capped_end) (simp add: unat_page_align_up)
  have "?A \<le> 0x40000" using False by (simp add: word_le_nat_alt unat_page_align_down)
  then obtain t where t: "reserve_loop (of_nat (4096 * ?A)) (of_nat (4096 * ?B)) s = Some t"
      "pmm_wf t" "used_frames t = used_frames s \<union> {?A..<?B}" "total_frames t = total_frames s"
    using reserve_loop_spec [of ?A s ?B] assms by auto
  moreover have "{?A..<?B} = frames_touched b l" by (auto simp: frames_touched_def)
  moreover have "reserve_range b l s = reserve_loop (of_nat (4096 * ?A)) (of_nat (4096 * ?B)) s"
    using False by (simp only: reserve_range_def Let_def B A if_False)
  ultimately show ?thesis by simp
qed

lemma free_range_spec:
  assumes "pmm_wf s"
  shows "\<exists>t. free_range b l s = Some t \<and> pmm_wf t \<and>
    used_frames t = used_frames s - frames_covered b l \<and> total_frames t = total_frames s"
proof (cases "page_align_up b \<ge> page_align_down (b + l) \<or> page_align_up b \<ge> PMM_MAX_MEMORY")
  case True
  then have "frames_covered b l = {}"
    by (auto simp: frames_covered_def word_le_nat_alt unat_page_align_down unat_page_align_up)
  with True assms show ?thesis by (auto simp: free_range_def Let_def)
next
  case False
  let ?A = "unat (b + 4095) div 4096" and ?B = "min (unat (b + l) div 4096) 0x40000"
  have A: "page_align_up b = of_nat (4096 * ?A)"
    by (rule aligned_as_page) (simp add: unat_page_align_up)
  have B: "(if page_align_down (b + l) > PMM_MAX_MEMORY then PMM_MAX_MEMORY else page_align_down (b + l))
      = of_nat (4096 * ?B)"
    by (rule capped_end) (simp add: unat_page_align_down)
  have "?A \<le> 0x40000" using False by (simp add: word_le_nat_alt unat_page_align_up)
  then obtain t where t: "free_loop (of_nat (4096 * ?A)) (of_nat (4096 * ?B)) s = Some t"
      "pmm_wf t" "used_frames t = used_frames s - {?A..<?B}" "total_frames t = total_frames s"
    using free_loop_spec [of ?A s ?B] assms by auto
  moreover have "{?A..<?B} = frames_covered b l" by (auto simp: frames_covered_def)
  moreover have "free_range b l s = free_loop (of_nat (4096 * ?A)) (of_nat (4096 * ?B)) s"
    using False by (simp only: free_range_def Let_def B A if_False)
  ultimately show ?thesis by simp
qed


section \<open>Initialisation\<close>

definition usable_frames :: "memory_map_entry list \<Rightarrow> nat set" where
  "usable_frames es = (\<Union>e \<in> {e \<in> set es. mtype e = 1}. frames_covered (base e) (len e))"

lemma usable_frames_simps [simp]:
  "usable_frames [] = {}"
  "usable_frames (e # es) =
     (if mtype e = 1 then frames_covered (base e) (len e) \<union> usable_frames es else usable_frames es)"
  by (auto simp: usable_frames_def)

lemma free_usable_spec:
  assumes "pmm_wf s" and "unat n \<le> length entries"
  shows "\<exists>t. free_usable entries n i s = Some t \<and> pmm_wf t \<and> total_frames t = total_frames s \<and>
    used_frames t = used_frames s - usable_frames (drop (unat i) (take (unat n) entries))"
  using assms
proof (induction entries n i s rule: free_usable.induct)
  case (1 entries n i s)
  show ?case
  proof (cases "i < n")
    case True
    then have lt: "unat i < unat n" "unat i < length entries"
      using "1.prems" by (simp_all add: word_less_nat_alt)
    let ?e = "entries ! unat i"
    have dr: "drop (unat i) (take (unat n) entries) = ?e # drop (unat (i + 1)) (take (unat n) entries)"
      using lt by (simp add: unat_Suc32 [OF True] Cons_nth_drop_Suc [symmetric])
    obtain s' where s': "(if mtype ?e = 1 then free_range (base ?e) (len ?e) s else Some s) = Some s'"
        "pmm_wf s'" "total_frames s' = total_frames s"
        "used_frames s' = used_frames s - (if mtype ?e = 1 then frames_covered (base ?e) (len ?e) else {})"
      using free_range_spec [OF "1.prems"(1), of "base ?e" "len ?e"] "1.prems"(1) by (cases "mtype ?e = 1") auto
    have unf: "free_usable entries n i s = free_usable entries n (i + 1) s'"
      using True lt s'(1) by (subst free_usable.simps) simp
    have "\<exists>t. free_usable entries n (i + 1) s' = Some t \<and> pmm_wf t \<and> total_frames t = total_frames s' \<and>
        used_frames t = used_frames s' - usable_frames (drop (unat (i + 1)) (take (unat n) entries))"
      using s'(1) lt s'(2) "1.prems"(2) by (intro "1.IH" [OF True]) auto
    then show ?thesis
      unfolding unf dr using s'(3,4) by auto
  next
    case False
    then have "drop (unat i) (take (unat n) entries) = []" by (simp add: word_less_nat_alt)
    with False "1.prems" show ?thesis by (subst free_usable.simps) simp
  qed
qed

definition pmm_reserved_frames :: "u64 \<times> boot_info \<Rightarrow> nat set" where
  "pmm_reserved_frames bip =
     frames_touched 0 0x100000 \<union>
     frames_touched (kernel_phys_start (snd bip)) (kernel_phys_end (snd bip) - kernel_phys_start (snd bip)) \<union>
     frames_touched (fst bip) sizeof_boot_info \<union>
     frames_touched (memory_map_addr (snd bip))
       (sizeof_memory_map_entry * ucast (memory_map_entries (snd bip))) \<union>
     frames_touched 0x1000 0x4000"

lemma used_frames_all_ones:
  "frame_bitmap s = kmemset m 0 0xFF BITMAP_BYTES \<Longrightarrow> used_frames s = {..<0x40000}"
proof -
  assume b: "frame_bitmap s = kmemset m 0 0xFF BITMAP_BYTES"
  have "bit (frame_bitmap s (of_nat (f div 8))) (f mod 8)" if "f < 0x40000" for f
  proof -
    have "unat (of_nat (f div 8) :: u64) = f div 8" using that by (intro unat_of_nat64) simp
    then have "(of_nat (f div 8) :: u64) < BITMAP_BYTES" using that by (simp add: word_less_nat_alt)
    then have "frame_bitmap s (of_nat (f div 8)) = 0xFF" using b by (simp add: kmemset_fill)
    moreover have "bit (0xFF :: u8) n" if "n < 8" for n
    proof -
      have "(0xFF :: u8) = mask 8" by (simp add: mask_numeral)
      then show ?thesis using that by (simp only: bit_mask_iff) simp
    qed
    ultimately show ?thesis by simp
  qed
  then show ?thesis by (auto simp: used_frames_def)
qed

lemma pmm_init_spec:
  assumes "frame_limit s = PMM_MAX_FRAMES" and "unat (memory_map_entries (snd bip)) \<le> length entries"
  shows "\<exists>t. pmm_init bip entries s = Some t \<and> pmm_wf t \<and> total_frames t = PMM_MAX_FRAMES \<and>
    used_frames t = {..<0x40000} - usable_frames (take (unat (memory_map_entries (snd bip))) entries)
      \<union> pmm_reserved_frames bip"
proof -
  obtain p bi where bip: "bip = (p, bi)" by (cases bip)
  let ?s0 = "s\<lparr>frame_bitmap := kmemset (frame_bitmap s) 0 0xFF BITMAP_BYTES,
                 total_frames := frame_limit s, free_frames := 0\<rparr>"
  have u0: "used_frames ?s0 = {..<0x40000}" by (rule used_frames_all_ones) simp
  then have w0: "pmm_wf ?s0" using assms(1) by (simp add: pmm_wf_def free_set_def)
  obtain s1 where s1: "free_usable entries (memory_map_entries bi) 0 ?s0 = Some s1" "pmm_wf s1"
      "total_frames s1 = PMM_MAX_FRAMES"
      "used_frames s1 = {..<0x40000} - usable_frames (take (unat (memory_map_entries bi)) entries)"
    using free_usable_spec [OF w0, of "memory_map_entries bi" entries 0] assms u0 by (auto simp: bip)
  obtain s2 where s2: "reserve_range 0 0x100000 s1 = Some s2" "pmm_wf s2" "total_frames s2 = PMM_MAX_FRAMES"
      "used_frames s2 = used_frames s1 \<union> frames_touched 0 0x100000"
    using reserve_range_spec [OF s1(2)] s1(3) by metis
  obtain s3 where s3: "reserve_range (kernel_phys_start bi) (kernel_phys_end bi - kernel_phys_start bi) s2 = Some s3"
      "pmm_wf s3" "total_frames s3 = PMM_MAX_FRAMES"
      "used_frames s3 = used_frames s2 \<union> frames_touched (kernel_phys_start bi) (kernel_phys_end bi - kernel_phys_start bi)"
    using reserve_range_spec [OF s2(2)] s2(3) by metis
  obtain s4 where s4: "reserve_range p sizeof_boot_info s3 = Some s4" "pmm_wf s4" "total_frames s4 = PMM_MAX_FRAMES"
      "used_frames s4 = used_frames s3 \<union> frames_touched p sizeof_boot_info"
    using reserve_range_spec [OF s3(2)] s3(3) by metis
  let ?l = "sizeof_memory_map_entry * ucast (memory_map_entries bi)"
  obtain s5 where s5: "reserve_range (memory_map_addr bi) ?l s4 = Some s5" "pmm_wf s5" "total_frames s5 = PMM_MAX_FRAMES"
      "used_frames s5 = used_frames s4 \<union> frames_touched (memory_map_addr bi) ?l"
    using reserve_range_spec [OF s4(2)] s4(3) by metis
  obtain t where t: "reserve_range 0x1000 0x4000 s5 = Some t" "pmm_wf t" "total_frames t = PMM_MAX_FRAMES"
      "used_frames t = used_frames s5 \<union> frames_touched 0x1000 0x4000"
    using reserve_range_spec [OF s5(2)] s5(3) by metis
  have "pmm_init bip entries s = Some t"
    by (simp add: pmm_init_def bip Let_def s1(1) s2(1) s3(1) s4(1) s5(1) t(1))
  then show ?thesis
    using t s5(4) s4(4) s3(4) s2(4) s1(4) by (auto simp: pmm_reserved_frames_def bip)
qed

text \<open>A page-granular range contains the frame of each of its addresses.\<close>

lemma touched_address:
  assumes "unat b + unat l + 4095 < 2 ^ 64" and "unat b \<le> a" and "a < unat b + unat l" and "a < 0x40000000"
  shows "a div 4096 \<in> frames_touched b l"
proof -
  have "unat (b + l + 4095) = unat b + unat l + 4095"
    using assms(1) by (simp add: unat_plus_if')
  moreover have "unat b div 4096 \<le> a div 4096" using assms(2) by (rule div_le_mono)
  moreover have "a div 4096 < (unat b + unat l + 4095) div 4096" 
    using div_le_mono [of "a + 4096" "unat b + unat l + 4095" 4096] assms(3) by simp
  moreover have "a div 4096 < 0x40000" using assms(4) by simp
  ultimately show ?thesis by (simp add: frames_touched_def)
qed

lemma low_memory_reserved: "f < 256 \<Longrightarrow> f \<in> pmm_reserved_frames bip"
  by (simp add: pmm_reserved_frames_def frames_touched_def)


section \<open>Allocation\<close>

text \<open>A run of free frames, and the lowest one: what a first-fit allocator returns.\<close>

definition run_free :: "pmm \<Rightarrow> nat \<Rightarrow> nat \<Rightarrow> bool" where
  "run_free s c f \<longleftrightarrow> f + c \<le> 0x40000 \<and> {f..<f + c} \<inter> used_frames s = {}"

definition first_fit :: "pmm \<Rightarrow> nat \<Rightarrow> nat \<Rightarrow> bool" where
  "first_fit s c f \<longleftrightarrow> run_free s c f \<and> (\<forall>g. run_free s c g \<longrightarrow> f \<le> g)"

lemma first_fit_exists: "\<exists>f. run_free s c f \<Longrightarrow> \<exists>f. first_fit s c f"
  unfolding first_fit_def using exists_least_iff [of "run_free s c"] by (meson not_less)

lemma set_run_spec:
  assumes "unat rs + unat c \<le> 0x40000"
  shows "\<exists>t. set_run rs c i s = Some t \<and> used_frames t = used_frames s \<union> {unat rs + unat i..<unat rs + unat c} \<and>
    frame_limit t = frame_limit s \<and> free_frames t = free_frames s \<and> total_frames t = total_frames s"
  using assms
proof (induction rs c i s rule: set_run.induct)
  case (1 rs c i s)
  show ?case
  proof (cases "i < c")
    case True
    then have ic: "unat i < unat c" by (simp add: word_less_nat_alt)
    have u: "unat (rs + i) = unat rs + unat i" using "1.prems" ic by (intro unat_add64) simp
    then have "rs + i < PMM_MAX_FRAMES" using "1.prems" ic by (simp add: word_less_nat_alt)
    then obtain s' where s': "bit_set (rs + i) s = Some s'"
        "used_frames s' = insert (unat rs + unat i) (used_frames s)"
        "frame_limit s' = frame_limit s" "free_frames s' = free_frames s" "total_frames s' = total_frames s"
      using bit_set_spec [of "rs + i" s] u by auto
    obtain t where t: "set_run rs c (i + 1) s' = Some t"
        "used_frames t = used_frames s' \<union> {unat rs + unat (i + 1)..<unat rs + unat c}"
        "frame_limit t = frame_limit s'" "free_frames t = free_frames s'" "total_frames t = total_frames s'"
      using "1.IH" [OF True s'(1) "1.prems"] by blast
    have "set_run rs c i s = Some t" using True s'(1) t(1) by (subst set_run.simps) simp
    moreover have "used_frames t = used_frames s \<union> {unat rs + unat i..<unat rs + unat c}"
      using t(2) s'(2) insert_interval [of "unat rs + unat i" "unat rs + unat c" "used_frames s"] ic
      by (simp add: unat_Suc64 [OF True])
    ultimately show ?thesis using t s' by simp
  next
    case False
    then show ?thesis by (subst set_run.simps) (auto simp: word_less_nat_alt)
  qed
qed

lemma card_free_after:
  assumes "used_frames t = used_frames s \<union> {f..<f + c}" and "run_free s c f"
  shows "card (free_set s) = card (free_set t) + c"
proof -
  have "free_set s = free_set t \<union> {f..<f + c}" "free_set t \<inter> {f..<f + c} = {}"
    using assms by (auto simp: free_set_def run_free_def)
  then have "card (free_set s) = card (free_set t) + card {f..<f + c}"
    by (simp add: card_Un_disjoint)
  then show ?thesis by simp
qed

lemma unat_diff64: "unat (x :: u64) = m + unat y \<Longrightarrow> unat (x - y) = m"
  by (simp add: unat_sub word_le_nat_alt)

lemma take_run_spec:
  assumes "pmm_wf s" and "run_free s (unat c) (unat rs)"
  shows "\<exists>t. set_run rs c 0 s = Some t \<and> pmm_wf (t\<lparr>free_frames := free_frames t - c\<rparr>) \<and>
    used_frames t = used_frames s \<union> {unat rs..<unat rs + unat c} \<and> total_frames t = total_frames s"
proof -
  have "unat rs + unat c \<le> 0x40000" using assms(2) by (simp add: run_free_def)
  then obtain t where t: "set_run rs c 0 s = Some t"
      "used_frames t = used_frames s \<union> {unat rs..<unat rs + unat c}"
      "frame_limit t = frame_limit s" "free_frames t = free_frames s" "total_frames t = total_frames s"
    using set_run_spec [of rs c 0 s] by auto
  have "card (free_set s) = card (free_set t) + unat c" using card_free_after [OF t(2) assms(2)] .
  then have "unat (free_frames t - c) = card (free_set t)"
    using assms(1) t(4) by (intro unat_diff64) (simp add: pmm_wf_def)
  then show ?thesis using t assms(1) by (auto simp: pmm_wf_def)
qed

definition alloc_result :: "pmm \<Rightarrow> nat \<Rightarrow> u64 \<Rightarrow> pmm \<Rightarrow> bool" where
  "alloc_result s c p t \<longleftrightarrow>
     (\<exists>f. first_fit s c f \<and> p = of_nat (4096 * f) \<and> pmm_wf t \<and>
        used_frames t = used_frames s \<union> {f..<f + c} \<and> total_frames t = total_frames s) \<or>
     ((\<nexists>f. run_free s c f) \<and> p = 0 \<and> t = s)"

text \<open>A used frame: no free run starts before the next frame.\<close>

lemma run_free_after_used:
  assumes "u \<in> used_frames s" and "\<forall>f. run_free s n f \<longrightarrow> a \<le> f" and "a \<le> u" and "u < a + n" and "run_free s n f"
  shows "Suc u \<le> f"
proof (rule ccontr)
  assume "\<not> Suc u \<le> f"
  then have "f \<le> u" by simp
  moreover have "u < f + n" using assms(2,4,5) by fastforce
  ultimately show False using assms(1,5) by (auto simp: run_free_def)
qed

text \<open>The run is complete: it is the first one, and it is taken.\<close>

lemma alloc_scan_complete:
  assumes "pmm_wf s" and "frame < frame_limit s" and "bit_test frame s = Some False" and "rl + 1 = count"
    and "rs' = (if rl = 0 then frame else rs)" and "run_free s (unat count) (unat rs')"
    and "\<forall>f. run_free s (unat count) f \<longrightarrow> unat rs' \<le> f"
  shows "\<exists>p t. alloc_scan count frame rs rl s = Some (p, t) \<and> alloc_result s (unat count) p t"
proof -
  have ff: "first_fit s (unat count) (unat rs')" using assms(6,7) by (simp add: first_fit_def)
  obtain t where t: "set_run rs' count 0 s = Some t" "pmm_wf (t\<lparr>free_frames := free_frames t - count\<rparr>)"
      "used_frames t = used_frames s \<union> {unat rs'..<unat rs' + unat count}" "total_frames t = total_frames s"
    using take_run_spec [OF assms(1,6)] by blast
  have "alloc_scan count frame rs rl s = Some (rs' * PMM_PAGE_SIZE, t\<lparr>free_frames := free_frames t - count\<rparr>)"
    using assms(2-5) t(1) by (subst alloc_scan.simps) (simp add: Let_def)
  moreover have "rs' * PMM_PAGE_SIZE = of_nat (4096 * unat rs')" by simp
  ultimately show ?thesis using ff t by (auto simp: alloc_result_def)
qed

lemma alloc_scan_spec:
  assumes "pmm_wf s" and "rl < count" and "unat frame \<le> 0x40000" and "unat rl \<le> unat frame"
    and "rl \<noteq> 0 \<longrightarrow> unat rs = unat frame - unat rl"
    and "{unat frame - unat rl..<unat frame} \<inter> used_frames s = {}"
    and "\<forall>f. run_free s (unat count) f \<longrightarrow> unat frame - unat rl \<le> f"
  shows "\<exists>p t. alloc_scan count frame rs rl s = Some (p, t) \<and> alloc_result s (unat count) p t"
  using assms
proof (induction count frame rs rl s rule: alloc_scan.induct)
  case (1 count frame rs rl s)
  have lim: "frame_limit s = PMM_MAX_FRAMES" using "1.prems"(1) by (rule pmm_wf_limit)
  have rlc: "unat rl < unat count" using "1.prems"(2) by (simp add: word_less_nat_alt)
  show ?case
  proof (cases "frame < frame_limit s")
    case False
    then have "unat frame = 0x40000" using "1.prems"(3) lim by (simp add: word_less_nat_alt)
    then have "\<nexists>f. run_free s (unat count) f"
      using "1.prems"(7) rlc "1.prems"(4) by (fastforce simp: run_free_def)
    then show ?thesis using False by (subst alloc_scan.simps) (auto simp: alloc_result_def)
  next
    case True
    then have fm: "frame < PMM_MAX_FRAMES" and fl: "unat frame < 0x40000"
      using lim by (simp_all add: word_less_nat_alt)
    have uS: "unat (frame + 1) = Suc (unat frame)" using True by (rule unat_Suc64)
    have uR: "unat (rl + 1) = Suc (unat rl)" using "1.prems"(2) by (rule unat_Suc64)
    have bt: "bit_test frame s = Some (unat frame \<in> used_frames s)" by (rule bit_test_spec [OF fm])
    define rs' where "rs' = (if rl = 0 then frame else rs)"
    have rsv: "unat rs' = unat frame - unat rl" using "1.prems"(5) by (simp add: rs'_def)
    consider (used) "unat frame \<in> used_frames s"
      | (complete) "unat frame \<notin> used_frames s" "rl + 1 = count"
      | (more) "unat frame \<notin> used_frames s" "rl + 1 \<noteq> count" by blast
    then show ?thesis
    proof cases
      case used
      have "\<forall>f. run_free s (unat count) f \<longrightarrow> unat (frame + 1) \<le> f"
        using run_free_after_used [OF used "1.prems"(7)] "1.prems"(4) rlc uS by simp
      then have "\<exists>p t. alloc_scan count (frame + 1) rs 0 s = Some (p, t) \<and> alloc_result s (unat count) p t"
        using used bt "1.prems" rlc fl uS by (intro "1.IH"(2) [OF True bt]) (auto simp: word_less_nat_alt)
      then show ?thesis using True used bt by (subst alloc_scan.simps) simp
    next
      case complete
      have uc: "unat count = Suc (unat rl)" using uR complete(2) by simp
      have "{unat frame - unat rl..<Suc (unat frame)} \<inter> used_frames s = {}"
        using "1.prems"(6) complete(1) by (auto simp: less_Suc_eq)
      moreover have "unat rs' + unat count = Suc (unat frame)" using rsv uc "1.prems"(4) by simp
      ultimately have "run_free s (unat count) (unat rs')" unfolding run_free_def using rsv fl by simp
      then show ?thesis
        using alloc_scan_complete [OF "1.prems"(1) True _ complete(2) rs'_def] bt complete(1) "1.prems"(7) rsv by simp
    next
      case more
      have rc: "rl + 1 < count"
        using more(2) rlc uR by (auto simp: word_less_nat_alt word_eq_iff_unsigned [where 'a = nat])
      have "{unat frame - unat rl..<Suc (unat frame)} \<inter> used_frames s = {}"
        using "1.prems"(6) more(1) by (auto simp: less_Suc_eq)
      then have "\<exists>p t. alloc_scan count (frame + 1) rs' (rl + 1) s = Some (p, t) \<and> alloc_result s (unat count) p t"
        unfolding rs'_def using more rc "1.prems"(1,4,7) rsv uS uR fl
        by (intro "1.IH"(1) [OF True bt]) (simp_all add: rs'_def)
      then show ?thesis using True bt more by (subst alloc_scan.simps) (simp add: Let_def rs'_def)
    qed
  qed
qed

lemma pmm_alloc_frames_spec:
  assumes "pmm_wf s"
  shows "\<exists>p t. pmm_alloc_frames count s = Some (p, t) \<and>
    (if count = 0 then p = 0 \<and> t = s else alloc_result s (unat count) p t)"
proof (cases "count = 0 \<or> count > frame_limit s")
  case True
  have "\<nexists>f. run_free s (unat count) f" if "count \<noteq> 0"
    using True that pmm_wf_limit [OF assms] by (auto simp: run_free_def word_less_nat_alt)
  then show ?thesis using True by (auto simp: pmm_alloc_frames_def alloc_result_def)
next
  case False
  then have "0 < count" by (simp add: word_gt_0)
  then have "\<exists>p t. alloc_scan count 0 0 0 s = Some (p, t) \<and> alloc_result s (unat count) p t"
    using assms by (intro alloc_scan_spec) auto
  then show ?thesis using False by (simp add: pmm_alloc_frames_def)
qed


lemma alloc_result_reserve_frame0:
  "alloc_result s c p t \<Longrightarrow> 0 \<in> used_frames s \<Longrightarrow> 0 < c \<Longrightarrow> p = 0 \<longleftrightarrow> (\<nexists>f. run_free s c f)"
  "alloc_result s c p t \<Longrightarrow> 0 \<in> used_frames s \<Longrightarrow> 0 \<in> used_frames t"
proof -
  assume a: "alloc_result s c p t" and z: "0 \<in> used_frames s"
  show "0 \<in> used_frames t" using a z by (auto simp: alloc_result_def)
  assume c: "0 < c"
  have "of_nat (4096 * f) \<noteq> (0 :: u64)" if "run_free s c f" for f
  proof
    assume "of_nat (4096 * f) = (0 :: u64)"
    moreover have "f \<le> 0x40000" using that by (simp add: run_free_def)
    ultimately have "f = 0" using page_addr [of f] by simp
    then show False using that z c by (auto simp: run_free_def)
  qed
  then show "p = 0 \<longleftrightarrow> (\<nexists>f. run_free s c f)"
    using a by (auto simp: alloc_result_def first_fit_def)
qed

section \<open>Freeing frames\<close>

text \<open>The frames \<open>pmm_free_frames\<close> gives back: the run of used frames at the start of the request.\<close>

definition release_run :: "pmm \<Rightarrow> nat \<Rightarrow> nat \<Rightarrow> nat set" where
  "release_run s f e = {g. f \<le> g \<and> g < e \<and> {f..g} \<subseteq> used_frames s}"

lemma release_run_unused: "f \<notin> used_frames s \<Longrightarrow> release_run s f e = {}"
  by (auto simp: release_run_def)

lemma release_run_all:
  assumes "{f..<e} \<subseteq> used_frames s"
  shows "release_run s f e = {f..<e}"
proof -
  have "{f..g} \<subseteq> used_frames s" if "g < e" for g
  proof -
    have "{f..g} \<subseteq> {f..<e}" using that by auto
    with assms show ?thesis by (rule subset_trans [rotated])
  qed
  then have "g \<in> release_run s f e \<longleftrightarrow> g \<in> {f..<e}" for g
    unfolding release_run_def by (metis (no_types, lifting) atLeastLessThan_iff mem_Collect_eq)
  then show ?thesis by blast
qed

lemma release_run_used:
  assumes "f \<in> used_frames s" and "f < e" and "used_frames s' = used_frames s - {f}"
  shows "release_run s f e = insert f (release_run s' (Suc f) e)"
proof -
  have "{f..g} \<subseteq> used_frames s \<longleftrightarrow> {Suc f..g} \<subseteq> used_frames s'" if "f < g" for g
  proof -
    have "{f..g} = insert f {Suc f..g}" using that by auto
    then show ?thesis using assms by auto
  qed
  then have "g \<in> release_run s f e \<longleftrightarrow> g \<in> insert f (release_run s' (Suc f) e)" for g
    using assms(1,2) by (cases "f < g") (auto simp: release_run_def)
  then show ?thesis by blast
qed

lemma free_run_spec:
  assumes "pmm_wf s" and "unat frame + unat i \<le> 0x40000"
  shows "\<exists>t. free_run frame c i s = Some t \<and> pmm_wf t \<and> total_frames t = total_frames s \<and>
    used_frames t = used_frames s - release_run s (unat frame + unat i) (unat frame + unat c)"
  using assms
proof (induction frame c i s rule: free_run.induct)
  case (1 frame c i s)
  have lim: "frame_limit s = PMM_MAX_FRAMES" using "1.prems"(1) by (rule pmm_wf_limit)
  have u: "unat (frame + i) = unat frame + unat i" using "1.prems"(2) by (intro unat_add64) simp
  show ?case
  proof (cases "i < c")
    case False
    then have "release_run s (unat frame + unat i) (unat frame + unat c) = {}"
      by (auto simp: release_run_def word_less_nat_alt)
    then show ?thesis using False "1.prems" by (subst free_run.simps) simp
  next
    case True
    show ?thesis
    proof (cases "frame + i < PMM_MAX_FRAMES \<and> unat frame + unat i \<in> used_frames s")
      case stop: False
      then have "unat frame + unat i \<notin> used_frames s"
        using u used_frames_lt by (fastforce simp: word_less_nat_alt)
      then have "release_run s (unat frame + unat i) (unat frame + unat c) = {}"
        by (rule release_run_unused)
      moreover have "free_run frame c i s = Some s"
        using stop True lim bit_test_spec [of "frame + i" s] u by (subst free_run.simps) (auto simp: Let_def)
      ultimately show ?thesis using "1.prems" by simp
    next
      case go: True
      then have fm: "frame + i < PMM_MAX_FRAMES" and us: "unat frame + unat i \<in> used_frames s" by simp_all
      have bt: "bit_test (frame + i) s = Some True" using bit_test_spec [OF fm] u us by simp
      obtain s1 where s1: "bit_clear (frame + i) s = Some s1" "pmm_wf (s1\<lparr>free_frames := free_frames s1 + 1\<rparr>)"
          "used_frames s1 = used_frames s - {unat frame + unat i}" "total_frames s1 = total_frames s"
        using release_frame_spec [OF "1.prems"(1) fm] u us by auto
      let ?s1 = "s1\<lparr>free_frames := free_frames s1 + 1\<rparr>"
      have ic: "unat i < unat c" using True by (simp add: word_less_nat_alt)
      have lt: "unat frame + unat i < 0x40000" using us by (rule used_frames_lt)
      obtain t where t: "free_run frame c (i + 1) ?s1 = Some t" "pmm_wf t" "total_frames t = total_frames s"
          "used_frames t = used_frames ?s1 - release_run ?s1 (Suc (unat frame + unat i)) (unat frame + unat c)"
        using "1.IH" [OF True refl _ bt _ s1(1)] s1(2,4) lt fm lim by (auto simp: unat_Suc64 [OF True] not_le)
      have "release_run s (unat frame + unat i) (unat frame + unat c) =
          insert (unat frame + unat i) (release_run ?s1 (Suc (unat frame + unat i)) (unat frame + unat c))"
        by (rule release_run_used [OF us]) (use ic s1(3) in simp_all)
      moreover have "free_run frame c i s = Some t"
        using True fm lim bt s1(1) t(1) by (subst free_run.simps) (simp add: Let_def)
      ultimately show ?thesis using t(2-4) s1(3) by auto
    qed
  qed
qed

lemma pmm_free_frames_spec:
  assumes "pmm_wf s"
  shows "\<exists>t. pmm_free_frames p c s = Some t \<and> pmm_wf t \<and> total_frames t = total_frames s \<and>
    used_frames t = used_frames s -
      (if p = 0 then {} else release_run s (unat p div 4096) (unat p div 4096 + unat c))"
proof -
  have d: "unat (p div PMM_PAGE_SIZE) = unat p div 4096" by (simp add: unat_div)
  consider (null) "p = 0" | (zero) "p \<noteq> 0" "c = 0" | (beyond) "p \<noteq> 0" "c \<noteq> 0" "p div PMM_PAGE_SIZE \<ge> PMM_MAX_FRAMES"
    | (run) "p \<noteq> 0" "c \<noteq> 0" "p div PMM_PAGE_SIZE < PMM_MAX_FRAMES"
    by (meson not_less)
  then show ?thesis
  proof cases
    case beyond
    then have "unat p div 4096 \<notin> used_frames s" using d used_frames_lt by (fastforce simp: word_le_nat_alt)
    then show ?thesis
      using beyond assms pmm_wf_limit [OF assms] by (simp add: pmm_free_frames_def Let_def release_run_unused)
  next
    case run
    then have "unat p div 4096 < 0x40000" using d by (simp add: word_less_nat_alt)
    then have "\<exists>t. free_run (p div PMM_PAGE_SIZE) c 0 s = Some t \<and> pmm_wf t \<and> total_frames t = total_frames s \<and>
        used_frames t = used_frames s - release_run s (unat p div 4096) (unat p div 4096 + unat c)"
      using free_run_spec [OF assms, of "p div PMM_PAGE_SIZE" 0 c] d by simp
    then show ?thesis using run pmm_wf_limit [OF assms] by (auto simp: pmm_free_frames_def Let_def dest: leD)
  qed (use assms in \<open>auto simp: pmm_free_frames_def release_run_def\<close>)
qed

lemma pmm_free_of_alloc:
  assumes "pmm_wf s" and "pmm_alloc_frames c s = Some (p, t)" and "p \<noteq> 0"
  shows "\<exists>s'. pmm_free_frames p c t = Some s' \<and> used_frames s' = used_frames s \<and> free_frames s' = free_frames s"
proof -
  have "c \<noteq> 0" and "alloc_result s (unat c) p t"
    using pmm_alloc_frames_spec [OF assms(1), of c] assms(2,3) by (auto split: if_splits)
  then obtain f where f: "run_free s (unat c) f" "p = of_nat (4096 * f)" "pmm_wf t"
      "used_frames t = used_frames s \<union> {f..<f + unat c}"
    using assms(3) by (auto simp: alloc_result_def first_fit_def)
  have "f \<le> 0x40000" using f(1) by (simp add: run_free_def)
  then have "unat p = 4096 * f" unfolding f(2) by (rule page_addr)
  then have "unat p div 4096 = f" by simp
  moreover have "release_run t f (f + unat c) = {f..<f + unat c}"
    by (rule release_run_all) (simp add: f(4))
  ultimately obtain s' where s': "pmm_free_frames p c t = Some s'" "pmm_wf s'"
      "used_frames s' = used_frames t - {f..<f + unat c}"
    using pmm_free_frames_spec [OF f(3), of p c] assms(3) by auto
  have "used_frames s' = used_frames s" using s'(3) f(1,4) by (auto simp: run_free_def)
  then show ?thesis
    using s'(1,2) assms(1) by (auto simp: pmm_wf_def free_set_def word_eq_iff_unsigned [where 'a = nat])
qed

section \<open>The allocator as a source of frames\<close>

text \<open>
  The clients' contract holds while frame 0 is in use, which \<open>pmm_init\<close> establishes: only then a
  null pointer cannot be the address of an allocated frame.
\<close>

definition pmm_ok :: "pmm \<Rightarrow> bool" where
  "pmm_ok s \<longleftrightarrow> pmm_wf s \<and> 0 \<in> used_frames s"

interpretation frames: frame_source pmm_alloc_frames used_frames pmm_ok
proof unfold_locales
  fix c p
  assume ok: "pmm_ok p"
  then have wf: "pmm_wf p" and z: "0 \<in> used_frames p" by (simp_all add: pmm_ok_def)
  show "\<exists>r q. pmm_alloc_frames c p = Some (r, q)"
    using pmm_alloc_frames_spec [OF wf, of c] by blast
  fix r q
  assume a: "pmm_alloc_frames c p = Some (r, q)"
  have res: "if c = 0 then r = 0 \<and> q = p else alloc_result p (unat c) r q"
    using pmm_alloc_frames_spec [OF wf, of c] a by auto
  show "pmm_ok q"
    using res ok by (cases "c = 0") (auto simp: pmm_ok_def alloc_result_def)
  show "r \<noteq> 0 \<Longrightarrow> c \<noteq> 0 \<and> unat r mod 4096 = 0 \<and> unat r + 4096 * unat c \<le> 0x40000000 \<and>
      frame_run r c \<inter> used_frames p = {} \<and> used_frames q = used_frames p \<union> frame_run r c"
  proof -
    assume r: "r \<noteq> 0"
    then have c: "c \<noteq> 0" and "alloc_result p (unat c) r q" using res by (auto split: if_splits)
    then obtain f where f: "run_free p (unat c) f" "r = of_nat (4096 * f)"
        "used_frames q = used_frames p \<union> {f..<f + unat c}"
      using r by (auto simp: alloc_result_def first_fit_def)
    have le: "f + unat c \<le> 0x40000" using f(1) by (simp add: run_free_def)
    then have "f \<le> 0x40000" by simp
    then have ur: "unat r = 4096 * f" unfolding f(2) by (rule page_addr)
    then have "unat r div 4096 = f" by simp
    then show ?thesis
      using c f(1,3) ur le by (simp add: frame_run_def run_free_def)
  qed
next
  fix c p q
  assume ok: "pmm_ok p" and a: "pmm_alloc_frames c p = Some (0, q)"
  then have z: "0 \<in> used_frames p" and res: "if c = 0 then q = p else alloc_result p (unat c) 0 q"
    using pmm_alloc_frames_spec [of p c] by (auto simp: pmm_ok_def)
  show "q = p"
  proof (cases "c = 0")
    case False
    with res have r: "alloc_result p (unat c) 0 q" and "0 < unat c" by (simp_all add: unat_gt_0)
    then have "\<nexists>f. run_free p (unat c) f"
      using alloc_result_reserve_frame0(1) [OF r z] by simp
    then show ?thesis using r unfolding alloc_result_def first_fit_def by blast
  qed (use res in simp)
qed

section \<open>Runs of clients\<close>

text \<open>
  Clients of the allocator: they ask for frames and give back runs they hold.  \<open>held\<close> lists the address
  and the count of every run that was handed out and not given back.
\<close>

fun pmm_do :: "client_op \<Rightarrow> pmm \<times> (u64 \<times> u64) list \<Rightarrow> (pmm \<times> (u64 \<times> u64) list) option" where
  "pmm_do (Request c) (s, held) =
     do { (r, t) \<leftarrow> pmm_alloc_frames c s; Some (t, if r = 0 then held else (r, c) # held) }"
| "pmm_do (Release k) (s, held) =
     (if k < length held then do { t \<leftarrow> pmm_free_frames (fst (held ! k)) (snd (held ! k)) s; Some (t, remove_nth k held) }
      else Some (s, held))"

fun pmm_run :: "client_op list \<Rightarrow> pmm \<times> (u64 \<times> u64) list \<Rightarrow> (pmm \<times> (u64 \<times> u64) list) option" where
  "pmm_run [] x = Some x"
| "pmm_run (op # ops) x = do { y \<leftarrow> pmm_do op x; pmm_run ops y }"

definition held_frames :: "u64 \<times> u64 \<Rightarrow> nat set" where
  "held_frames x = frame_run (fst x) (snd x)"

definition pmm_shared :: "nat set \<Rightarrow> pmm \<times> (u64 \<times> u64) list \<Rightarrow> bool" where
  "pmm_shared K x \<longleftrightarrow> (case x of (s, held) \<Rightarrow>
     pmm_wf s \<and> used_frames s = K \<union> (\<Union>y \<in> set held. held_frames y) \<and> apart held_frames held \<and>
     (\<forall>y \<in> set held. fst y \<noteq> 0 \<and> held_frames y \<inter> K = {}))"

lemma pmm_do_request:
  assumes "pmm_shared K (s, held)" and "0 \<in> K"
  shows "\<exists>y. pmm_do (Request c) (s, held) = Some y \<and> pmm_shared K y"
proof -
  have u: "used_frames s = K \<union> (\<Union>y \<in> set held. held_frames y)" and ok: "pmm_ok s"
    using assms by (auto simp: pmm_shared_def pmm_ok_def)
  obtain r t where a: "pmm_alloc_frames c s = Some (r, t)" using frames.alloc_returns [OF ok] by blast
  show ?thesis
  proof (cases "r = 0")
    case True
    then have "t = s" using frames.alloc_null [OF ok] a by blast
    then show ?thesis using assms(1) a True by simp
  next
    case False
    have r: "frame_run r c \<inter> used_frames s = {}" "used_frames t = used_frames s \<union> frame_run r c"
      using frames.alloc_run [OF ok a False] by simp_all
    have "pmm_wf t" using frames.alloc_ok [OF ok a] by (simp add: pmm_ok_def)
    moreover have "frame_run r c \<inter> K = {}" "\<forall>y \<in> set held. frame_run r c \<inter> held_frames y = {}" using r(1) u by blast+
    ultimately have "pmm_shared K (t, (r, c) # held)"
      using assms(1) r(2) u False by (auto simp: pmm_shared_def held_frames_def)
    then show ?thesis using a False by simp
  qed
qed

lemma pmm_do_release:
  assumes "pmm_shared K (s, held)"
  shows "\<exists>y. pmm_do (Release k) (s, held) = Some y \<and> pmm_shared K y"
proof (cases "k < length held")
  case True
  let ?x = "held ! k" and ?rest = "remove_nth k held"
  have inv: "pmm_wf s" "used_frames s = K \<union> (\<Union>y \<in> set held. held_frames y)" "apart held_frames held"
      "\<forall>y \<in> set held. fst y \<noteq> 0 \<and> held_frames y \<inter> K = {}" using assms by (simp_all add: pmm_shared_def)
  have x: "?x \<in> set held" using True by simp
  obtain ys zs where split: "held = ys @ ?x # zs" "?rest = ys @ zs" using remove_nth_split [OF True] by blast
  have sets: "set held = insert ?x (set ?rest)" unfolding split(2) by (subst split(1)) auto
  obtain t where t: "pmm_free_frames (fst ?x) (snd ?x) s = Some t" "pmm_wf t"
      "used_frames t = used_frames s - release_run s (unat (fst ?x) div 4096) (unat (fst ?x) div 4096 + unat (snd ?x))"
    using pmm_free_frames_spec [OF inv(1), of "fst ?x" "snd ?x"] inv(4) x by auto
  have "held_frames ?x \<subseteq> used_frames s" using inv(2) x by blast
  then have "used_frames t = used_frames s - held_frames ?x"
    using t(3) release_run_all by (simp add: held_frames_def frame_run_def)
  moreover have "used_frames s = K \<union> (held_frames ?x \<union> (\<Union>y \<in> set ?rest. held_frames y))"
    unfolding inv(2) by (subst sets) simp
  moreover have "held_frames ?x \<inter> K = {}" "held_frames ?x \<inter> (\<Union>y \<in> set ?rest. held_frames y) = {}"
    using inv(4) x apart_remove_nth(2) [OF inv(3) True] by auto
  ultimately have "used_frames t = K \<union> (\<Union>y \<in> set ?rest. held_frames y)" by auto
  moreover have "\<forall>y \<in> set ?rest. fst y \<noteq> 0 \<and> held_frames y \<inter> K = {}"
    using inv(4) set_remove_nth_subset [of k held] by blast
  ultimately have "pmm_shared K (t, ?rest)"
    using t(2) apart_remove_nth(1) [OF inv(3) True] by (simp add: pmm_shared_def)
  then show ?thesis using t(1) True by simp
qed (use assms in simp)

lemma pmm_run_shared:
  assumes "pmm_shared K x" and "0 \<in> K"
  shows "\<exists>y. pmm_run ops x = Some y \<and> pmm_shared K y"
  using assms(1)
proof (induction ops arbitrary: x)
  case (Cons op ops)
  obtain s held where x: "x = (s, held)" by (cases x)
  have "\<exists>y. pmm_do op x = Some y \<and> pmm_shared K y"
    using pmm_do_request [OF _ assms(2)] pmm_do_release Cons.prems unfolding x by (cases op) auto
  then show ?case using Cons.IH by fastforce
qed simp

section \<open>Properties\<close>

text \<open>A small machine for the examples: 64 usable frames above 1 MiB, the kernel in the first eight.\<close>

definition example_boot :: "u64 \<times> boot_info" where
  "example_boot = (0x9000, \<lparr>magic = BOOT_INFO_MAGIC, version = BOOT_INFO_VERSION, memory_map_entries = 1,
     reserved0 = 0, memory_map_addr = 0x9100, kernel_phys_start = 0x100000, kernel_phys_end = 0x108000,
     kernel_virt_start = 0xFFFFFFFF80100000, pml4_addr = 0x1000\<rparr>)"

definition example_map :: "memory_map_entry list" where
  "example_map = [\<lparr>base = 0x100000, len = 0x40000, mtype = 1, acpi = 0\<rparr>]"

lemma example_reserved: "pmm_reserved_frames example_boot = {..<264}"
proof -
  have t: "frames_touched 0 0x100000 = {..<256}" "frames_touched 0x100000 0x8000 = {256..<264}"
    "frames_touched 0x9000 56 = {9..<10}" "frames_touched 0x9100 24 = {9..<10}"
    "frames_touched 0x1000 0x4000 = {1..<5}"
    by (rule set_eqI, simp add: frames_touched_def, linarith)+
  have "pmm_reserved_frames example_boot = {..<256} \<union> {256..<264} \<union> {9..<10} \<union> {9..<10} \<union> {1..<5}"
    by (simp add: pmm_reserved_frames_def example_boot_def t sizeof_boot_info_def sizeof_memory_map_entry_def)
  also have "\<dots> = {..<264}" by (rule set_eqI, simp only: Un_iff lessThan_iff atLeastLessThan_iff, linarith)
  finally show ?thesis .
qed

lemma example_entries: "unat (memory_map_entries (snd example_boot)) = length example_map"
  by (simp add: example_boot_def example_map_def)

lemma example_usable: "usable_frames example_map = {256..<320}"
proof -
  have "frames_covered 0x100000 0x40000 = {256..<320}"
    by (rule set_eqI) (simp add: frames_covered_def, linarith)
  then show ?thesis by (simp add: example_map_def)
qed

lemma example_init:
  obtains s where "pmm_init example_boot example_map pmm_static = Some s" "pmm_ok s"
    "used_frames s = {..<0x40000} - {264..<320}"
proof -
  obtain s where s: "pmm_init example_boot example_map pmm_static = Some s" "pmm_wf s"
      "used_frames s = {..<0x40000} - {256..<320} \<union> {..<264}"
    using pmm_init_spec [of pmm_static example_boot example_map] example_entries
    by (auto simp: pmm_static_def example_reserved example_usable)
  have "{..<0x40000} - {256..<320} \<union> {..<264} = {..<0x40000} - {264..<320::nat}"
    by (rule set_eqI, simp only: Un_iff Diff_iff lessThan_iff atLeastLessThan_iff, linarith)
  then have "used_frames s = {..<0x40000} - {264..<320}" using s(3) by simp
  with s(1,2) show ?thesis by (intro that) (simp_all add: pmm_ok_def)
qed

text \<open>C23: \<open>pmm_init\<close> leaves in use exactly the frames that are reserved or not wholly inside a usable
  entry of the memory map, for maps with any number of entries, overlapping or wrapping ones
  included, and its counter of free frames is exact.\<close>

theorem pmm_init_correct:
  assumes "frame_limit s = PMM_MAX_FRAMES" and "unat (memory_map_entries (snd bip)) \<le> length entries"
  shows "\<exists>t. pmm_init bip entries s = Some t \<and> pmm_ok t \<and>
    used_frames t = {..<0x40000} - usable_frames (take (unat (memory_map_entries (snd bip))) entries)
      \<union> pmm_reserved_frames bip \<and>
    unat (free_frames t) = 0x40000 - card (used_frames t)"
proof -
  obtain t where t: "pmm_init bip entries s = Some t" "pmm_wf t"
      "used_frames t = {..<0x40000} - usable_frames (take (unat (memory_map_entries (snd bip))) entries)
      \<union> pmm_reserved_frames bip"
    using pmm_init_spec [OF assms] by blast
  have "used_frames t \<subseteq> {..<0x40000}" by (rule bitmap.used_below)
  then have "card (free_set t) = 0x40000 - card (used_frames t)"
    by (simp add: free_set_def card_Diff_subset bitmap.finite_used)
  with t show ?thesis using low_memory_reserved [of 0 bip] by (auto simp: pmm_ok_def pmm_wf_def)
qed

theorem pmm_init_correct_witness:
  "\<exists>t. pmm_init example_boot example_map pmm_static = Some t \<and> 5 \<in> used_frames t \<and> 300 \<notin> used_frames t"
proof -
  have "frame_limit pmm_static = PMM_MAX_FRAMES" by (simp add: pmm_static_def)
  from pmm_init_correct [OF this eq_refl [OF example_entries]] show ?thesis
    by (auto simp: example_entries example_reserved example_usable)
qed

text \<open>C24: after \<open>pmm_init\<close>, whatever clients ask for and in whatever order they give back what they hold,
  every call returns, no frame of the kernel image is ever handed out, none is in use twice, and the
  frames in use are always exactly those that were in use at the start and those that are held.  (A
  client that gives back frames it does not hold is not covered: the code does not check.)\<close>

theorem pmm_kernel_protected:
  assumes "pmm_init bip entries s = Some t" and "frame_limit s = PMM_MAX_FRAMES"
    and "unat (memory_map_entries (snd bip)) \<le> length entries"
    and "kernel_phys_start (snd bip) \<le> kernel_phys_end (snd bip)" and "unat (kernel_phys_end (snd bip)) + 4095 < 2 ^ 64"
    and "unat (kernel_phys_start (snd bip)) \<le> a" and "a < unat (kernel_phys_end (snd bip))" and "a < 0x40000000"
  shows "\<exists>u held. pmm_run ops (t, []) = Some (u, held) \<and> a div 4096 \<in> used_frames u \<and>
    (\<forall>x \<in> set held. a div 4096 \<notin> held_frames x) \<and> apart held_frames held \<and>
    used_frames u = used_frames t \<union> (\<Union>x \<in> set held. held_frames x) \<and> (\<forall>x \<in> set held. held_frames x \<inter> used_frames t = {})"
proof -
  let ?b = "kernel_phys_start (snd bip)" and ?l = "kernel_phys_end (snd bip) - kernel_phys_start (snd bip)"
  obtain t' where "pmm_init bip entries s = Some t'" "pmm_wf t'" and
      us: "used_frames t' = {..<0x40000} - usable_frames (take (unat (memory_map_entries (snd bip))) entries)
      \<union> pmm_reserved_frames bip"
    using pmm_init_spec [OF assms(2,3)] by blast
  then have t: "t' = t" "pmm_shared (used_frames t) (t, [])" using assms(1) by (auto simp: pmm_shared_def)
  have "unat ?l = unat (kernel_phys_end (snd bip)) - unat ?b" using assms(4) by (simp add: unat_sub)
  then have "a div 4096 \<in> frames_touched ?b ?l"
    using assms(4-8) by (intro touched_address) (simp_all add: word_le_nat_alt)
  then have k: "a div 4096 \<in> used_frames t" using us t(1) by (simp add: pmm_reserved_frames_def)
  have "0 \<in> used_frames t" using us t(1) low_memory_reserved [of 0 bip] by simp
  from pmm_run_shared [OF t(2) this, of ops]
  obtain u held where "pmm_run ops (t, []) = Some (u, held)" "pmm_shared (used_frames t) (u, held)" by (metis prod.exhaust)
  then show ?thesis using k unfolding pmm_shared_def by (intro exI [of _ u] exI [of _ held]) auto
qed

theorem pmm_kernel_protected_witness:
  "\<exists>t u held. pmm_init example_boot example_map pmm_static = Some t \<and>
     pmm_run [Request 3, Request 2, Release 1, Request 1] (t, []) = Some (u, held) \<and> apart held_frames held \<and>
     0x107FFF div 4096 \<in> used_frames u \<and> (\<forall>x \<in> set held. 0x107FFF div 4096 \<notin> held_frames x)"
proof -
  obtain t where t: "pmm_init example_boot example_map pmm_static = Some t" by (rule example_init)
  then show ?thesis
    using pmm_kernel_protected [OF t, of "0x107FFF" "[Request 3, Request 2, Release 1, Request 1]"]
    by (simp add: pmm_static_def example_boot_def example_map_def) blast
qed

text \<open>C1: \<open>pmm_alloc_frames\<close> always returns; it finds the lowest run of \<open>count\<close> free frames if
  there is one, marks exactly that run, keeps the invariant, and changes nothing otherwise.\<close>

theorem pmm_alloc_frames_correct:
  assumes "pmm_wf s"
  shows "\<exists>p t. pmm_alloc_frames count s = Some (p, t) \<and>
    (if count = 0 then p = 0 \<and> t = s else alloc_result s (unat count) p t)"
  by (rule pmm_alloc_frames_spec [OF assms])

theorem pmm_alloc_frames_correct_witness:
  "\<exists>s p t. pmm_init example_boot example_map pmm_static = Some s \<and> pmm_alloc_frames 57 s = Some (p, t) \<and>
     alloc_result s 57 p t"
proof -
  obtain s where "pmm_init example_boot example_map pmm_static = Some s" "pmm_ok s" by (rule example_init)
  then show ?thesis using pmm_alloc_frames_correct [of s 57] by (auto simp: pmm_ok_def)
qed

text \<open>C25: \<open>pmm_free_frames\<close> always returns and keeps the counter exact, for any pointer and any
  count: it frees the used frames at the start of the request up to the first free frame, so that
  a double free changes nothing and no frame is counted twice.\<close>

theorem pmm_free_frames_correct:
  assumes "pmm_wf s"
  shows "\<exists>t. pmm_free_frames p c s = Some t \<and> pmm_wf t \<and> total_frames t = total_frames s \<and>
    used_frames t = used_frames s -
      (if p = 0 then {} else release_run s (unat p div 4096) (unat p div 4096 + unat c))"
  by (rule pmm_free_frames_spec [OF assms])

theorem pmm_free_frames_correct_witness:
  "\<exists>s t. pmm_init example_boot example_map pmm_static = Some s \<and> pmm_free_frames 0x108000 4 s = Some t \<and>
     used_frames t = used_frames s"
proof -
  obtain s where s: "pmm_init example_boot example_map pmm_static = Some s" "pmm_ok s"
      "used_frames s = {..<0x40000} - {264..<320}"
    by (rule example_init)
  have "release_run s 264 268 = {}" by (rule release_run_unused) (simp add: s(3))
  then show ?thesis using pmm_free_frames_correct [of s "0x108000" 4] s by (auto simp: pmm_ok_def)
qed

text \<open>C26: freeing what was allocated restores the set of used frames and the counter.\<close>

theorem pmm_alloc_free:
  assumes "pmm_wf s" and "pmm_alloc_frames c s = Some (p, t)" and "p \<noteq> 0"
  shows "\<exists>s'. pmm_free_frames p c t = Some s' \<and> used_frames s' = used_frames s \<and> free_frames s' = free_frames s"
  by (rule pmm_free_of_alloc [OF assms])

theorem pmm_alloc_free_witness:
  "\<exists>s p t s'. pmm_init example_boot example_map pmm_static = Some s \<and> pmm_alloc_frames 5 s = Some (p, t) \<and>
     p \<noteq> 0 \<and> pmm_free_frames p 5 t = Some s' \<and> used_frames s' = used_frames s"
proof -
  obtain s where s: "pmm_init example_boot example_map pmm_static = Some s" "pmm_ok s"
      "used_frames s = {..<0x40000} - {264..<320}"
    by (rule example_init)
  have "run_free s 5 264" by (auto simp: run_free_def s(3))
  moreover obtain p t where a: "pmm_alloc_frames 5 s = Some (p, t)" "alloc_result s 5 p t"
    using pmm_alloc_frames_spec [of s 5] s(2) by (auto simp: pmm_ok_def)
  ultimately have "p \<noteq> 0"
    using alloc_result_reserve_frame0(1) [OF a(2)] s(2) by (auto simp: pmm_ok_def)
  then show ?thesis using pmm_alloc_free [OF _ a(1)] s a(1) by (metis pmm_ok_def)
qed


end
