(* ===== verification/Heap.thy ===== *)
theory Heap
  imports PMM
begin

text \<open>
  \<open>src/heap.c\<close>: the kernel heap, an address-ordered singly linked list of blocks with a header
  in front of each payload.  The list lives in memory: the model keeps a store of headers by
  address, follows \<open>next\<close> pointers through it, and writes the fields the code writes.  The heap
  gets its memory from a frame allocator (\<open>pmm.h\<close>), which the operations take as an argument, as
  the C file is linked against one (the kernel's, or the stub of the unit test).

  The header store is a store of typed headers, separate from the bytes of the payloads
  (\<open>payload\<close>); the layout theorems show that payloads and headers of a well-formed heap do not
  overlap, which is what justifies the separation.
\<close>

section \<open>State\<close>

abbreviation HEAP_ALIGNMENT :: u64 where "HEAP_ALIGNMENT \<equiv> 16"
abbreviation HEAP_PAGE_SIZE :: u64 where "HEAP_PAGE_SIZE \<equiv> 4096"
abbreviation HEAP_MIN_SPLIT :: u64 where "HEAP_MIN_SPLIT \<equiv> 32"

text \<open>\<open>sizeof(heap_block_t)\<close>: two 8-byte words and a byte, padded to 8-byte alignment.\<close>

abbreviation HEADER :: u64 where "HEADER \<equiv> 24"

record heap_block =
  hb_size :: u64
  hb_next :: u64
  hb_free :: u8

record heap =
  heap_head :: u64
  total_bytes :: u64
  used_bytes :: u64
  block_at :: "u64 \<Rightarrow> heap_block"
  payload :: mem

definition set_block :: "u64 \<Rightarrow> heap_block \<Rightarrow> heap \<Rightarrow> heap" where
  "set_block a b h = h\<lparr>block_at := (block_at h)(a := b)\<rparr>"

definition align_up :: "u64 \<Rightarrow> u64" where
  "align_up value = (value + HEAP_ALIGNMENT - 1) AND NOT (HEAP_ALIGNMENT - 1)"

section \<open>The block list\<close>

text \<open>\<open>while (current != 0 && current < target)\<close>: the pair \<open>(prev, current)\<close> where it stops.\<close>

partial_function (option) append_scan :: "u64 \<Rightarrow> u64 \<Rightarrow> u64 \<Rightarrow> heap \<Rightarrow> (u64 \<times> u64) option" where
  "append_scan target prev current h =
     (if current \<noteq> 0 \<and> current < target
      then append_scan target current (hb_next (block_at h current)) h
      else Some (prev, current))"

definition heap_append_block :: "u64 \<Rightarrow> heap \<Rightarrow> heap option" where
  "heap_append_block block h =
     (if heap_head h = 0 then Some (h\<lparr>heap_head := block\<rparr>)
      else do { (prev, current) \<leftarrow> append_scan block 0 (heap_head h) h;
                let h1 = set_block block ((block_at h block)\<lparr>hb_next := current\<rparr>) h;
                Some (if prev = 0 then h1\<lparr>heap_head := block\<rparr>
                      else set_block prev ((block_at h1 prev)\<lparr>hb_next := block\<rparr>) h1) })"

partial_function (option) coalesce_loop :: "u64 \<Rightarrow> heap \<Rightarrow> heap option" where
  "coalesce_loop block h =
     (if block \<noteq> 0 \<and> hb_next (block_at h block) \<noteq> 0 then
        let b = block_at h block;
            n = block_at h (hb_next b);
            block_end = block + HEADER + align_up (hb_size b)
        in if hb_free b \<noteq> 0 \<and> hb_free n \<noteq> 0 \<and> block_end = hb_next b
           then coalesce_loop block
                  (set_block block (b\<lparr>hb_size := hb_size b + (HEADER + hb_size n), hb_next := hb_next n\<rparr>) h)
           else coalesce_loop (hb_next b) h
      else Some h)"

definition heap_coalesce :: "heap \<Rightarrow> heap option" where
  "heap_coalesce h = coalesce_loop (heap_head h) h"

definition heap_split_block :: "u64 \<Rightarrow> u64 \<Rightarrow> heap \<Rightarrow> heap" where
  "heap_split_block block size' h =
     (let aligned_size = align_up size'; b = block_at h block in
      if hb_size b < aligned_size + HEADER + HEAP_MIN_SPLIT then h
      else let nxt = block + HEADER + aligned_size;
               h1 = set_block nxt \<lparr>hb_size = hb_size b - aligned_size - HEADER,
                                   hb_next = hb_next b, hb_free = 1\<rparr> h
           in set_block block ((block_at h1 block)\<lparr>hb_size := aligned_size, hb_next := nxt\<rparr>) h1)"

section \<open>Growing the heap\<close>

definition heap_expand ::
    "(u64 \<Rightarrow> 'p \<Rightarrow> (u64 \<times> 'p) option) \<Rightarrow> u64 \<Rightarrow> heap \<Rightarrow> 'p \<Rightarrow> (u64 \<times> heap \<times> 'p) option" where
  "heap_expand alloc size' h p =
     (let bytes = align_up (size' + HEADER);
          pages = (bytes + HEAP_PAGE_SIZE - 1) div HEAP_PAGE_SIZE
      in do { (region, p') \<leftarrow> alloc pages p;
              if region = 0 then Some (0, h, p')
              else do {
                let sz = pages * HEAP_PAGE_SIZE - HEADER;
                let h1 = set_block region \<lparr>hb_size = sz, hb_next = 0, hb_free = 1\<rparr> h;
                let h2 = h1\<lparr>total_bytes := total_bytes h1 + sz\<rparr>;
                h3 \<leftarrow> heap_append_block region h2;
                h4 \<leftarrow> heap_coalesce h3;
                Some (region, h4, p') } })"

section \<open>The interface of heap.h\<close>

definition heap_init :: "heap \<Rightarrow> heap" where
  "heap_init h = h\<lparr>heap_head := 0, total_bytes := 0, used_bytes := 0\<rparr>"

text \<open>The search loop of \<open>kmalloc\<close>: the first free block that is large enough, or null.\<close>

partial_function (option) find_fit :: "u64 \<Rightarrow> u64 \<Rightarrow> heap \<Rightarrow> u64 option" where
  "find_fit size' block h =
     (if block \<noteq> 0 then
        if hb_free (block_at h block) \<noteq> 0 \<and> hb_size (block_at h block) \<ge> size' then Some block
        else find_fit size' (hb_next (block_at h block)) h
      else Some 0)"

text \<open>The common end of both paths: split, mark as used, count, return the payload.\<close>

definition take_block :: "u64 \<Rightarrow> u64 \<Rightarrow> heap \<Rightarrow> u64 \<times> heap" where
  "take_block block size' h =
     (let h1 = heap_split_block block size' h;
          h2 = set_block block ((block_at h1 block)\<lparr>hb_free := 0\<rparr>) h1
      in (block + HEADER, h2\<lparr>used_bytes := used_bytes h2 + hb_size (block_at h2 block)\<rparr>))"

definition kmalloc ::
    "(u64 \<Rightarrow> 'p \<Rightarrow> (u64 \<times> 'p) option) \<Rightarrow> u64 \<Rightarrow> heap \<Rightarrow> 'p \<Rightarrow> (u64 \<times> heap \<times> 'p) option" where
  "kmalloc alloc size' h p =
     (if size' = 0 then Some (0, h, p)
      else do {
        let sz = align_up size';
        block \<leftarrow> find_fit sz (heap_head h) h;
        if block \<noteq> 0 then (let (r, h') = take_block block sz h in Some (r, h', p))
        else do {
          (block', h1, p1) \<leftarrow> heap_expand alloc sz h p;
          if block' = 0 then Some (0, h1, p1)
          else (let (r, h') = take_block block' sz h1 in Some (r, h', p1)) } })"

definition kcalloc ::
    "(u64 \<Rightarrow> 'p \<Rightarrow> (u64 \<times> 'p) option) \<Rightarrow> u64 \<Rightarrow> u64 \<Rightarrow> heap \<Rightarrow> 'p \<Rightarrow> (u64 \<times> heap \<times> 'p) option" where
  "kcalloc alloc count size' h p =
     (if count = 0 \<or> size' = 0 then Some (0, h, p)
      else do {
        let total = count * size';
        (ptr, h', p') \<leftarrow> kmalloc alloc total h p;
        Some (ptr, if ptr \<noteq> 0 then h'\<lparr>payload := kmemset (payload h') ptr 0 total\<rparr> else h', p') })"

definition kfree :: "u64 \<Rightarrow> heap \<Rightarrow> heap option" where
  "kfree ptr h =
     (if ptr = 0 then Some h
      else let block = ptr - HEADER in
        if hb_free (block_at h block) = 0 then
          let h1 = set_block block ((block_at h block)\<lparr>hb_free := 1\<rparr>) h in
          heap_coalesce (h1\<lparr>used_bytes := used_bytes h1 - hb_size (block_at h1 block)\<rparr>)
        else Some h)"

definition heap_total_bytes :: "heap \<Rightarrow> u64" where
  "heap_total_bytes h = total_bytes h"

definition heap_used_bytes :: "heap \<Rightarrow> u64" where
  "heap_used_bytes h = used_bytes h"

definition heap_free_bytes :: "heap \<Rightarrow> u64" where
  "heap_free_bytes h = total_bytes h - used_bytes h"

declare append_scan.simps [code] coalesce_loop.simps [code] find_fit.simps [code]

end
