(* ===== verification/HeapList.thy ===== *)
theory HeapList
  imports Heap
begin

text \<open>
  The block list of \<open>src/heap.c\<close> as a list of blocks: \<open>chain\<close> reads it off the header store,
  \<open>heap_inv\<close> is the invariant, and one lemma per C function says what the function does to the
  list of blocks (search, coalescing, splitting, freeing, inserting a region).
\<close>


section \<open>The list in memory\<close>

text \<open>
  A block as the list sees it: its address, its size and whether it is free.  \<open>chain B p bs q\<close>
  says that following \<open>next\<close> from \<open>p\<close> through the header store \<open>B\<close> visits exactly the blocks \<open>bs\<close>
  and then arrives at \<open>q\<close>.
\<close>

type_synonym blk = "u64 \<times> u64 \<times> bool"

abbreviation addr :: "blk \<Rightarrow> u64" where "addr x \<equiv> fst x"
abbreviation bsize :: "blk \<Rightarrow> u64" where "bsize x \<equiv> fst (snd x)"
abbreviation isfree :: "blk \<Rightarrow> bool" where "isfree x \<equiv> snd (snd x)"

definition holds_blk :: "(u64 \<Rightarrow> heap_block) \<Rightarrow> blk \<Rightarrow> bool" where
  "holds_blk B x \<longleftrightarrow> addr x \<noteq> 0 \<and> hb_size (B (addr x)) = bsize x \<and> (hb_free (B (addr x)) \<noteq> 0 \<longleftrightarrow> isfree x)"

fun chain :: "(u64 \<Rightarrow> heap_block) \<Rightarrow> u64 \<Rightarrow> blk list \<Rightarrow> u64 \<Rightarrow> bool" where
  "chain B p [] q \<longleftrightarrow> p = q"
| "chain B p (x # xs) q \<longleftrightarrow> p = addr x \<and> holds_blk B x \<and> chain B (hb_next (B (addr x))) xs q"

lemma chain_append [simp]:
  "chain B p (xs @ ys) q \<longleftrightarrow> (\<exists>r. chain B p xs r \<and> chain B r ys q)"
  by (induction xs arbitrary: p) auto

lemma chain_frame:
  assumes "\<And>x. x \<in> set xs \<Longrightarrow> B' (addr x) = B (addr x)"
  shows "chain B' p xs q \<longleftrightarrow> chain B p xs q"
  using assms by (induction xs arbitrary: p) (auto simp: holds_blk_def)

lemma chain_update_other:
  "a \<notin> addr ` set xs \<Longrightarrow> chain (B(a := b)) p xs q \<longleftrightarrow> chain B p xs q"
  by (rule chain_frame) auto

lemma chain_holds: "chain B p xs q \<Longrightarrow> x \<in> set xs \<Longrightarrow> holds_blk B x"
  by (induction xs arbitrary: p) auto

lemma chain_null: "chain B 0 xs 0 \<longleftrightarrow> xs = []"
  by (cases xs) (auto simp: holds_blk_def)

lemma chain_nonnull: "chain B p (x # xs) q \<Longrightarrow> p \<noteq> 0"
  by (auto simp: holds_blk_def)

section \<open>Layout\<close>

text \<open>The end of a block in memory; blocks are in address order and do not overlap.\<close>

definition bend :: "blk \<Rightarrow> nat" where
  "bend x = unat (addr x) + 24 + unat (bsize x)"

abbreviation HEAP_LIMIT :: nat where "HEAP_LIMIT \<equiv> 0x40000000"

definition blocks_ok :: "blk list \<Rightarrow> bool" where
  "blocks_ok bs \<longleftrightarrow> sorted_wrt (\<lambda>x y. bend x \<le> unat (addr y)) bs \<and>
     (\<forall>x \<in> set bs. addr x \<noteq> 0 \<and> bend x \<le> HEAP_LIMIT)"

lemma blocks_ok_simps:
  "blocks_ok []"
  "blocks_ok (x # bs) \<longleftrightarrow> addr x \<noteq> 0 \<and> bend x \<le> HEAP_LIMIT \<and>
     (\<forall>y \<in> set bs. bend x \<le> unat (addr y)) \<and> blocks_ok bs"
  by (auto simp: blocks_ok_def)

lemma blocks_ok_append:
  "blocks_ok (xs @ ys) \<longleftrightarrow> blocks_ok xs \<and> blocks_ok ys \<and>
     (\<forall>x \<in> set xs. \<forall>y \<in> set ys. bend x \<le> unat (addr y))"
  by (auto simp: blocks_ok_def sorted_wrt_append)

lemma addr_lt_bend: "unat (addr x) + 24 \<le> bend x"
  by (simp add: bend_def)

lemma blocks_ok_distinct: "blocks_ok bs \<Longrightarrow> distinct (map addr bs)"
proof (induction bs)
  case (Cons x bs)
  have "addr x \<noteq> addr y" if "y \<in> set bs" for y
  proof -
    have "bend x \<le> unat (addr y)" using Cons.prems that by (simp add: blocks_ok_simps)
    then show ?thesis using addr_lt_bend [of x] by auto
  qed
  with Cons show ?case by (auto simp: blocks_ok_simps)
qed simp

lemma blocks_ok_middle:
  assumes "blocks_ok (xs @ x # ys)"
  shows "addr x \<notin> addr ` set xs" and "addr x \<notin> addr ` set ys"
  using blocks_ok_distinct [OF assms] by auto

lemma unat_payload: "bend x \<le> HEAP_LIMIT \<Longrightarrow> unat (addr x + HEADER) = unat (addr x) + 24"
  by (subst unat_add64) (simp_all add: bend_def)

text \<open>Payloads of different blocks are disjoint, and no header lies in a payload.\<close>

definition payload_of :: "blk \<Rightarrow> nat set" where
  "payload_of x = {unat (addr x) + 24..<bend x}"

definition header_of :: "blk \<Rightarrow> nat set" where
  "header_of x = {unat (addr x)..<unat (addr x) + 24}"

lemma sorted_wrt_pairs:
  assumes "sorted_wrt R bs" and "x \<in> set bs" and "y \<in> set bs" and "x \<noteq> y"
  shows "R x y \<or> R y x"
  using assms by (induction bs) auto

lemma blocks_disjoint:
  assumes "blocks_ok bs" and "x \<in> set bs" and "y \<in> set bs" and "x \<noteq> y"
  shows "payload_of x \<inter> payload_of y = {}" and "header_of x \<inter> payload_of y = {}"
    and "header_of x \<inter> header_of y = {}"
proof -
  have "bend x \<le> unat (addr y) \<or> bend y \<le> unat (addr x)"
    using assms sorted_wrt_pairs by (fastforce simp: blocks_ok_def)
  then show "payload_of x \<inter> payload_of y = {}" "header_of x \<inter> payload_of y = {}"
      "header_of x \<inter> header_of y = {}"
    using addr_lt_bend [of x] addr_lt_bend [of y] by (auto simp: payload_of_def header_of_def)
qed

text \<open>All the sizes together fit below the limit.\<close>

lemma sizes_bounded:
  assumes "blocks_ok bs" and "\<forall>x \<in> set bs. l \<le> unat (addr x)" and "l \<le> HEAP_LIMIT"
  shows "l + sum_list (map (\<lambda>x. 24 + unat (bsize x)) bs) \<le> HEAP_LIMIT"
  using assms
proof (induction bs arbitrary: l)
  case (Cons x bs)
  have "bend x + sum_list (map (\<lambda>x. 24 + unat (bsize x)) bs) \<le> HEAP_LIMIT"
    using Cons by (intro Cons.IH) (auto simp: blocks_ok_simps)
  then show ?case using Cons.prems by (simp add: bend_def)
qed simp

section \<open>Accounting\<close>

definition used_sum :: "blk list \<Rightarrow> nat" where
  "used_sum bs = sum_list (map (\<lambda>x. unat (bsize x)) (filter (\<lambda>x. \<not> isfree x) bs))"

lemma used_sum_simps [simp]:
  "used_sum [] = 0"
  "used_sum (x # bs) = (if isfree x then 0 else unat (bsize x)) + used_sum bs"
  "used_sum (xs @ ys) = used_sum xs + used_sum ys"
  by (simp_all add: used_sum_def)

lemma used_sum_le: "used_sum bs \<le> sum_list (map (\<lambda>x. 24 + unat (bsize x)) bs)"
  by (induction bs) auto

lemma used_sum_limit: "blocks_ok bs \<Longrightarrow> used_sum bs \<le> HEAP_LIMIT"
  using used_sum_le [of bs] sizes_bounded [of bs 0] by simp

text \<open>The heap invariant: the list in memory, its layout, and the counter of used bytes.\<close>

definition heap_inv :: "heap \<Rightarrow> blk list \<Rightarrow> bool" where
  "heap_inv h bs \<longleftrightarrow> chain (block_at h) (heap_head h) bs 0 \<and> blocks_ok bs \<and>
     unat (used_bytes h) = used_sum bs"

lemma heap_inv_init: "heap_inv (heap_init h) []"
  by (simp add: heap_inv_def heap_init_def blocks_ok_simps)

section \<open>Searching\<close>

text \<open>The block first fit picks.\<close>

definition fits :: "u64 \<Rightarrow> blk \<Rightarrow> bool" where
  "fits sz x \<longleftrightarrow> isfree x \<and> sz \<le> bsize x"

lemma find_fit_spec:
  assumes "chain (block_at h) p bs 0"
  shows "find_fit sz p h = Some (case find (fits sz) bs of None \<Rightarrow> 0 | Some x \<Rightarrow> addr x)"
  using assms
proof (induction bs arbitrary: p)
  case Nil
  then show ?case by (subst find_fit.simps) simp
next
  case (Cons x bs)
  then show ?case by (subst find_fit.simps) (auto simp: holds_blk_def fits_def [of sz x])
qed


section \<open>Coalescing\<close>

text \<open>What the pass over the list does, on the list of blocks.\<close>

definition mergeable :: "blk \<Rightarrow> blk \<Rightarrow> bool" where
  "mergeable x y \<longleftrightarrow> isfree x \<and> isfree y \<and> addr x + HEADER + align_up (bsize x) = addr y"

definition merge :: "blk \<Rightarrow> blk \<Rightarrow> blk" where
  "merge x y = (addr x, bsize x + (HEADER + bsize y), isfree x)"

function coal :: "blk list \<Rightarrow> blk list" where
  "coal [] = []"
| "coal [x] = [x]"
| "coal (x # y # zs) = (if mergeable x y then coal (merge x y # zs) else x # coal (y # zs))"
  by pat_completeness auto
termination
  by (relation "measure length") auto

lemma merge_simps [simp]:
  "addr (merge x y) = addr x"
  "bsize (merge x y) = bsize x + (HEADER + bsize y)"
  "isfree (merge x y) = isfree x"
  by (simp_all add: merge_def)

definition same_rest :: "heap \<Rightarrow> heap \<Rightarrow> bool" where
  "same_rest h h' \<longleftrightarrow> heap_head h' = heap_head h \<and> total_bytes h' = total_bytes h \<and>
     used_bytes h' = used_bytes h \<and> payload h' = payload h"

lemma same_rest_refl [simp]: "same_rest h h"
  by (simp add: same_rest_def)

lemma same_rest_trans: "same_rest h h' \<Longrightarrow> same_rest h' h'' \<Longrightarrow> same_rest h h''"
  by (simp add: same_rest_def)

lemma set_block_simps [simp]:
  "heap_head (set_block a b h) = heap_head h"
  "total_bytes (set_block a b h) = total_bytes h"
  "used_bytes (set_block a b h) = used_bytes h"
  "payload (set_block a b h) = payload h"
  "block_at (set_block a b h) = (block_at h)(a := b)"
  by (simp_all add: set_block_def)

lemma same_rest_set_block [simp]: "same_rest h (set_block a b h)"
  by (simp add: same_rest_def)

lemma coal_first: "bs \<noteq> [] \<Longrightarrow> coal bs \<noteq> [] \<and> addr (hd (coal bs)) = addr (hd bs)"
  by (induction bs rule: coal.induct) auto

lemma coal_addrs: "addr ` set (coal bs) \<subseteq> addr ` set bs"
  by (induction bs rule: coal.induct) auto

lemma coal_first_mem: "addr x \<in> addr ` set (coal (x # bs))"
  using coal_first [of "x # bs"] by (metis image_eqI list.sel(1) list.set_sel(1) list.simps(3))

text \<open>The headers of blocks that are merged away stay in memory as they were.\<close>

lemma coalesce_loop_spec:
  assumes "chain (block_at h) p bs 0" and "distinct (map addr bs)"
  shows "\<exists>h'. coalesce_loop p h = Some h' \<and> chain (block_at h') p (coal bs) 0 \<and>
    (\<forall>a. a \<notin> addr ` set (coal bs) \<longrightarrow> block_at h' a = block_at h a) \<and> same_rest h h'"
  using assms
proof (induction bs arbitrary: h p rule: coal.induct)
  case 1
  then show ?case by (subst coalesce_loop.simps) simp
next
  case (2 x)
  then show ?case by (subst coalesce_loop.simps) simp
next
  case (3 x y zs)
  let ?B = "block_at h"
  have p: "p = addr x" and hx: "holds_blk ?B x" and nx: "hb_next (?B (addr x)) = addr y"
    and hy: "holds_blk ?B y" and cz: "chain ?B (hb_next (?B (addr y))) zs 0"
    and ne: "addr x \<noteq> addr y" "addr x \<notin> addr ` set zs" "addr y \<notin> addr ` set zs"
    using "3.prems" by auto
  have fx: "p \<noteq> 0" "hb_size (?B p) = bsize x" "hb_free (?B p) \<noteq> 0 \<longleftrightarrow> isfree x"
    and fy: "addr y \<noteq> 0" "hb_size (?B (addr y)) = bsize y" "hb_free (?B (addr y)) \<noteq> 0 \<longleftrightarrow> isfree y"
    using hx hy p by (auto simp: holds_blk_def)
  show ?case
  proof (cases "mergeable x y")
    case True
    let ?b = "(?B p)\<lparr>hb_size := hb_size (?B p) + (HEADER + hb_size (?B (addr y))), hb_next := hb_next (?B (addr y))\<rparr>"
    let ?h = "set_block p ?b h"
    have unf: "coalesce_loop p h = coalesce_loop p ?h"
      using True fx fy nx p by (subst coalesce_loop.simps) (simp add: mergeable_def Let_def)
    have c: "chain (block_at ?h) p (merge x y # zs) 0"
      using fx fy ne cz p chain_update_other [of p zs ?B ?b] by (auto simp: holds_blk_def)
    have d: "distinct (map addr (merge x y # zs))" using "3.prems"(2) by simp
    from "3.IH"(1) [OF True c d] obtain h' where h': "coalesce_loop p ?h = Some h'"
        "chain (block_at h') p (coal (merge x y # zs)) 0"
        "\<forall>a. a \<notin> addr ` set (coal (merge x y # zs)) \<longrightarrow> block_at h' a = block_at ?h a" "same_rest ?h h'"
      by blast
    have "addr x \<in> addr ` set (coal (merge x y # zs))" using coal_first_mem [of "merge x y" zs] by simp
    then have "\<forall>a. a \<notin> addr ` set (coal (x # y # zs)) \<longrightarrow> block_at h' a = ?B a"
      using h'(3) p True by auto
    then show ?thesis
      using h' True unf same_rest_trans [of h ?h h'] by auto
  next
    case False
    have unf: "coalesce_loop p h = coalesce_loop (addr y) h"
      using False fx fy nx p by (subst coalesce_loop.simps) (auto simp: mergeable_def Let_def)
    have c: "chain ?B (addr y) (y # zs) 0" using hy cz by simp
    have d: "distinct (map addr (y # zs))" using "3.prems"(2) by simp
    from "3.IH"(2) [OF False c d] obtain h' where h': "coalesce_loop (addr y) h = Some h'"
        "chain (block_at h') (addr y) (coal (y # zs)) 0"
        "\<forall>a. a \<notin> addr ` set (coal (y # zs)) \<longrightarrow> block_at h' a = ?B a" "same_rest h h'"
      by blast
    have "addr x \<notin> addr ` set (coal (y # zs))" using coal_addrs [of "y # zs"] ne by auto
    then have "block_at h' (addr x) = ?B (addr x)" using h'(3) by blast
    then have "chain (block_at h') p (x # coal (y # zs)) 0"
      using h'(2) hx nx p by (simp add: holds_blk_def)
    then show ?thesis using h' False unf by auto
  qed
qed

text \<open>Merging keeps the layout: the merged block ends where its second part ended, or before.\<close>

lemma align_up_bounds:
  "unat x + 15 < 2 ^ 64 \<Longrightarrow> unat (align_up x) = (unat x + 15) div 16 * 16"
proof -
  assume "unat x + 15 < 2 ^ 64"
  then have "unat (x + 15) = unat x + 15" by (simp add: unat_plus_if')
  moreover have "HEAP_ALIGNMENT - 1 = mask 4" by (simp add: mask_numeral)
  then have "unat (align_up x) = unat (x + 15) div 16 * 16"
    unfolding align_up_def by (simp only: unat_and_not_mask) (simp add: add.commute)
  ultimately show ?thesis by simp
qed

lemma align_up_ge: "unat x + 15 < 2 ^ 64 \<Longrightarrow> unat x \<le> unat (align_up x)"
  by (simp add: align_up_bounds)

lemma merge_layout:
  assumes "mergeable x y" and "bend x \<le> unat (addr y)" and "bend y \<le> HEAP_LIMIT"
  shows "bend (merge x y) \<le> bend y" and "unat (bsize (merge x y)) = unat (bsize x) + 24 + unat (bsize y)"
proof -
  have lt: "unat (bsize x) + 24 + unat (bsize y) < 2 ^ 64"
    using assms(2,3) by (simp add: bend_def)
  then have "unat (HEADER + bsize y) = 24 + unat (bsize y)" by (subst unat_add64) simp_all
  then show s: "unat (bsize (merge x y)) = unat (bsize x) + 24 + unat (bsize y)"
    using lt by (simp only: merge_simps) (subst unat_add64, simp_all)
  show "bend (merge x y) \<le> bend y"
    using assms(2) s by (simp add: bend_def)
qed

lemma coal_ok:
  assumes "blocks_ok bs"
  shows "blocks_ok (coal bs) \<and> used_sum (coal bs) = used_sum bs"
  using assms
proof (induction bs rule: coal.induct)
  case (3 x y zs)
  show ?case
  proof (cases "mergeable x y")
    case True
    have "bend x \<le> unat (addr y)" "bend y \<le> HEAP_LIMIT" using "3.prems" by (auto simp: blocks_ok_simps)
    then have "bend (merge x y) \<le> bend y" using True by (intro merge_layout(1))
    then have "blocks_ok (merge x y # zs)" using "3.prems" by (auto simp: blocks_ok_simps)
    moreover have "used_sum (merge x y # zs) = used_sum (x # y # zs)"
      using True by (simp add: mergeable_def)
    ultimately show ?thesis using "3.IH"(1) [OF True] True by simp
  next
    case False
    have ok: "blocks_ok (coal (y # zs))" and us: "used_sum (coal (y # zs)) = used_sum (y # zs)"
      using "3.IH"(2) [OF False] "3.prems" by (auto simp: blocks_ok_simps)
    have "bend x \<le> unat (addr z)" if "z \<in> set (coal (y # zs))" for z
    proof -
      have "addr z \<in> addr ` set (y # zs)" using coal_addrs [of "y # zs"] that by blast
      then show ?thesis using "3.prems" by (auto simp: blocks_ok_simps)
    qed
    then show ?thesis using False ok us "3.prems" by (auto simp: blocks_ok_simps)
  qed
qed (auto simp: blocks_ok_simps)

text \<open>A block of the merged list is free exactly if the block at its address was.\<close>

lemma coal_isfree: "z \<in> set (coal bs) \<Longrightarrow> \<exists>x \<in> set bs. addr x = addr z \<and> isfree x = isfree z"
proof (induction bs rule: coal.induct)
  case (3 x y zs)
  show ?case
  proof (cases "mergeable x y")
    case True
    then have "z \<in> set (coal (merge x y # zs))" using "3.prems" by simp
    then obtain u where "u \<in> set (merge x y # zs)" "addr u = addr z" "isfree u = isfree z"
      using "3.IH"(1) [OF True] by blast
    then show ?thesis by (cases "u = merge x y") auto
  next
    case False
    then show ?thesis using "3.IH"(2) "3.prems" by auto
  qed
qed auto

text \<open>Blocks in use are never merged away.\<close>

lemma coal_used: "x \<in> set bs \<Longrightarrow> \<not> isfree x \<Longrightarrow> x \<in> set (coal bs)"
  by (induction bs rule: coal.induct) (auto simp: mergeable_def)

lemma coal_used_rev: "x \<in> set (coal bs) \<Longrightarrow> \<not> isfree x \<Longrightarrow> x \<in> set bs"
  by (induction bs rule: coal.induct) (auto simp: mergeable_def split: if_splits)

lemma heap_coalesce_spec:
  assumes "chain (block_at h) (heap_head h) bs 0" and "blocks_ok bs" and "unat (used_bytes h) = used_sum bs"
  shows "\<exists>h'. heap_coalesce h = Some h' \<and> heap_inv h' (coal bs) \<and> same_rest h h' \<and>
    (\<forall>a. a \<notin> addr ` set (coal bs) \<longrightarrow> block_at h' a = block_at h a)"
proof -
  obtain h' where "coalesce_loop (heap_head h) h = Some h'" "chain (block_at h') (heap_head h) (coal bs) 0"
      "same_rest h h'" "\<forall>a. a \<notin> addr ` set (coal bs) \<longrightarrow> block_at h' a = block_at h a"
    using coalesce_loop_spec [OF assms(1) blocks_ok_distinct [OF assms(2)]] by blast
  then show ?thesis
    using coal_ok [OF assms(2)] assms(3) by (auto simp: heap_coalesce_def heap_inv_def same_rest_def)
qed


section \<open>Taking a block\<close>

text \<open>The blocks a free block becomes when a request of \<open>sz\<close> bytes is served from it.\<close>

definition splits :: "u64 \<Rightarrow> blk \<Rightarrow> bool" where
  "splits sz x \<longleftrightarrow> \<not> bsize x < align_up sz + HEADER + HEAP_MIN_SPLIT"

definition taken :: "u64 \<Rightarrow> blk \<Rightarrow> blk list" where
  "taken sz x =
     (if splits sz x
      then [(addr x, align_up sz, False), (addr x + HEADER + align_up sz, bsize x - align_up sz - HEADER, True)]
      else [(addr x, bsize x, False)])"

lemma addr_hd_taken: "addr (hd (taken sz x)) = addr x" and taken_nonempty: "taken sz x \<noteq> []"
  by (simp_all add: taken_def)

lemma split_arith:
  assumes "splits sz x" and "align_up sz \<le> bsize x" and "bend x \<le> HEAP_LIMIT"
  shows "unat (addr x + HEADER + align_up sz) = unat (addr x) + 24 + unat (align_up sz)"
    and "unat (bsize x - align_up sz - HEADER) = unat (bsize x) - unat (align_up sz) - 24"
    and "unat (align_up sz) + 56 \<le> unat (bsize x)"
proof -
  have a: "unat (align_up sz) \<le> unat (bsize x)" using assms(2) by (simp add: word_le_nat_alt)
  have b: "unat (addr x) + 24 + unat (bsize x) \<le> HEAP_LIMIT" using assms(3) by (simp add: bend_def)
  have "unat (align_up sz + HEADER + HEAP_MIN_SPLIT) = unat (align_up sz) + 56"
    using a b by (subst add.assoc, subst unat_add64) simp_all
  then show le: "unat (align_up sz) + 56 \<le> unat (bsize x)"
    using assms(1) by (simp add: splits_def word_less_nat_alt)
  have "unat (addr x + HEADER) = unat (addr x) + 24" using b by (subst unat_add64) simp_all
  then show "unat (addr x + HEADER + align_up sz) = unat (addr x) + 24 + unat (align_up sz)"
    using a b by (subst unat_add64) simp_all
  have "unat (bsize x - align_up sz) = unat (bsize x) - unat (align_up sz)"
    using assms(2) by (simp add: unat_sub)
  then show "unat (bsize x - align_up sz - HEADER) = unat (bsize x) - unat (align_up sz) - 24"
    using le by (subst unat_sub) (simp_all add: word_le_nat_alt)
qed

lemma taken_layout:
  assumes "align_up sz \<le> bsize x" and "bend x \<le> HEAP_LIMIT" and "addr x \<noteq> 0"
  shows "blocks_ok (taken sz x)" and "\<forall>y \<in> set (taken sz x). unat (addr x) \<le> unat (addr y) \<and> bend y \<le> bend x"
proof -
  have "blocks_ok (taken sz x) \<and>
      (\<forall>y \<in> set (taken sz x). unat (addr x) \<le> unat (addr y) \<and> bend y \<le> bend x)"
  proof (cases "splits sz x")
    case True
    note ar = split_arith [OF True assms(1,2)]
    have "addr x + HEADER + align_up sz \<noteq> 0" using ar(1) by (metis add_eq_0_iff_both_eq_0 unat_0 zero_neq_numeral)
    then show ?thesis
      using True ar assms(2,3) by (simp add: taken_def blocks_ok_simps bend_def)
  next
    case False
    then show ?thesis using assms(2,3) by (simp add: taken_def blocks_ok_simps bend_def)
  qed
  then show "blocks_ok (taken sz x)"
    "\<forall>y \<in> set (taken sz x). unat (addr x) \<le> unat (addr y) \<and> bend y \<le> bend x" by simp_all
qed

text \<open>Replacing a block by blocks within its extent keeps the layout of the list.\<close>

lemma blocks_ok_replace:
  assumes "blocks_ok (xs @ x # ys)" and "blocks_ok zs"
    and "\<forall>z \<in> set zs. unat (addr x) \<le> unat (addr z) \<and> bend z \<le> bend x"
  shows "blocks_ok (xs @ zs @ ys)"
  using assms by (fastforce simp: blocks_ok_append blocks_ok_simps)

lemma take_block_spec:
  assumes "heap_inv h (xs @ x # ys)" and "isfree x" and "align_up sz \<le> bsize x"
  shows "\<exists>h'. take_block (addr x) sz h = (addr x + HEADER, h') \<and> heap_inv h' (xs @ taken sz x @ ys) \<and>
    total_bytes h' = total_bytes h \<and> payload h' = payload h \<and> heap_head h' = heap_head h"
proof -
  let ?B = "block_at h" and ?a = "addr x"
  have ok: "blocks_ok (xs @ x # ys)" using assms(1) by (simp add: heap_inv_def)
  then have lay: "bend x \<le> HEAP_LIMIT" "?a \<noteq> 0" by (auto simp: blocks_ok_append blocks_ok_simps)
  have nin: "?a \<notin> addr ` set xs" "?a \<notin> addr ` set ys" by (rule blocks_ok_middle [OF ok])+
  have c: "chain ?B (heap_head h) xs ?a" "holds_blk ?B x" "chain ?B (hb_next (?B ?a)) ys 0"
    using assms(1) by (auto simp: heap_inv_def)
  have sz: "hb_size (?B ?a) = bsize x" using c(2) by (simp add: holds_blk_def)
  have ok': "blocks_ok (xs @ taken sz x @ ys)"
    using blocks_ok_replace [OF ok] taken_layout [OF assms(3) lay] by blast
  obtain h' where h': "take_block ?a sz h = (?a + HEADER, h')" by (simp add: take_block_def Let_def)
  have rest: "total_bytes h' = total_bytes h" "payload h' = payload h" "heap_head h' = heap_head h"
    "used_bytes h' = used_bytes h + hb_size (block_at h' ?a)"
    using h' by (auto simp: take_block_def heap_split_block_def Let_def split: if_splits)
  have "chain (block_at h') (heap_head h) (xs @ taken sz x @ ys) 0 \<and> hb_size (block_at h' ?a) = bsize (hd (taken sz x))"
  proof (cases "splits sz x")
    case True
    let ?n = "?a + HEADER + align_up sz"
    have un: "unat ?n = unat ?a + 24 + unat (align_up sz)" by (rule split_arith [OF True assms(3) lay(1)])
    have "blocks_ok ((xs @ [(?a, align_up sz, False)]) @ (?n, bsize x - align_up sz - HEADER, True) # ys)"
      using ok' True by (simp add: taken_def)
    from blocks_ok_middle [OF this]
    have nn: "?n \<notin> addr ` set xs" "?n \<notin> addr ` set ys" "?n \<noteq> ?a" by auto
    have n0: "?n \<noteq> 0"
    proof
      assume "?n = 0"
      then have "unat ?n = 0" by (simp only: unat_0)
      with un show False by simp
    qed
    have B': "block_at h' = ?B(?n := \<lparr>hb_size = bsize x - align_up sz - HEADER, hb_next = hb_next (?B ?a), hb_free = 1\<rparr>,
        ?a := \<lparr>hb_size = align_up sz, hb_next = ?n, hb_free = 0\<rparr>)"
      using h' True sz nn(3)
      by (auto simp: take_block_def heap_split_block_def splits_def Let_def fun_eq_iff)
    have "chain (block_at h') (heap_head h) xs ?a"
      unfolding B' using nin nn c(1) by (simp add: chain_update_other)
    moreover have "chain (block_at h') (hb_next (?B ?a)) ys 0"
      unfolding B' using nin nn c(3) by (simp add: chain_update_other)
    ultimately show ?thesis
      using True nn n0 lay(2) by (auto simp: taken_def holds_blk_def B')
  next
    case False
    have B': "block_at h' = ?B(?a := (?B ?a)\<lparr>hb_free := 0\<rparr>)"
      using h' False sz by (auto simp: take_block_def heap_split_block_def splits_def Let_def)
    have "chain (block_at h') (heap_head h) xs ?a" "chain (block_at h') (hb_next (?B ?a)) ys 0"
      unfolding B' using nin c by (simp_all add: chain_update_other)
    then show ?thesis
      using False lay(2) sz by (auto simp: taken_def holds_blk_def B')
  qed
  moreover have "unat (used_bytes h') = used_sum (xs @ taken sz x @ ys)"
  proof -
    have s: "used_sum (xs @ taken sz x @ ys) = unat (used_bytes h) + unat (bsize (hd (taken sz x)))"
      using assms(1,2) by (auto simp: heap_inv_def taken_def)
    then have "unat (used_bytes h) + unat (bsize (hd (taken sz x))) < 2 ^ 64"
      using used_sum_limit [OF ok'] by simp
    then show ?thesis using s rest(4) calculation by (simp add: unat_add64)
  qed
  ultimately show ?thesis
    using h' ok' rest by (auto simp: heap_inv_def)
qed


section \<open>Allocation from the list, and freeing\<close>

lemma unat_align_up: "unat (align_up x) = unat (x + 15) div 16 * 16"
proof -
  have m: "HEAP_ALIGNMENT - 1 = mask 4" by (simp add: mask_numeral)
  show ?thesis
    unfolding align_up_def m unat_and_not_mask by (simp add: add.commute)
qed

lemma align_up_idem: "align_up (align_up x) = align_up x"
proof -
  have "unat (align_up x) + 15 < 2 ^ 64"
  proof -
    have "unat (x + 15) div 16 < 2 ^ 60"
      using unat_lt64 [of "x + 15"] by (simp add: div_less_iff_less_mult del: unat_lt64')
    then show ?thesis unfolding unat_align_up by simp
  qed
  then have "unat (align_up (align_up x)) = (unat (align_up x) + 15) div 16 * 16"
    by (rule align_up_bounds)
  also have "\<dots> = unat (align_up x)" unfolding unat_align_up [of x] by simp
  finally show ?thesis by (simp add: word_eq_iff_unsigned [where 'a = nat])
qed

lemma find_first_split:
  assumes "find P bs = Some x"
  shows "\<exists>xs ys. bs = xs @ x # ys \<and> P x \<and> (\<forall>y \<in> set xs. \<not> P y)"
  using assms
proof (induction bs)
  case (Cons b bs)
  show ?case
  proof (cases "P b")
    case True
    then show ?thesis using Cons.prems by (intro exI [of _ "[]"] exI [of _ bs]) auto
  next
    case False
    then obtain xs ys where "bs = xs @ x # ys \<and> P x \<and> (\<forall>y \<in> set xs. \<not> P y)" using Cons by auto
    then show ?thesis using False by (intro exI [of _ "b # xs"] exI [of _ ys]) auto
  qed
qed simp

text \<open>Which blocks the list holds after a request served from block \<open>x\<close>.\<close>

lemma kmalloc_hit_spec:
  assumes "heap_inv h bs" and "sz \<noteq> 0" and "find (fits (align_up sz)) bs = Some x"
  shows "\<exists>h' xs ys. bs = xs @ x # ys \<and> (\<forall>y \<in> set xs. \<not> fits (align_up sz) y) \<and> fits (align_up sz) x \<and>
    kmalloc alloc sz h p = Some (addr x + HEADER, h', p) \<and>
    heap_inv h' (xs @ taken (align_up sz) x @ ys) \<and> total_bytes h' = total_bytes h \<and> payload h' = payload h"
proof -
  obtain xs ys where bs: "bs = xs @ x # ys" "fits (align_up sz) x" "\<forall>y \<in> set xs. \<not> fits (align_up sz) y"
    using find_first_split [OF assms(3)] by blast
  have ff: "find_fit (align_up sz) (heap_head h) h = Some (addr x)"
    using find_fit_spec [of h "heap_head h" bs "align_up sz"] assms(1,3) by (simp add: heap_inv_def)
  have "addr x \<noteq> 0" using assms(1) by (auto simp: heap_inv_def bs(1) blocks_ok_append blocks_ok_simps)
  moreover obtain h' where h': "take_block (addr x) (align_up sz) h = (addr x + HEADER, h')"
      "heap_inv h' (xs @ taken (align_up sz) x @ ys)" "total_bytes h' = total_bytes h" "payload h' = payload h"
    using take_block_spec [of h xs x ys "align_up sz"] assms(1) bs(1,2)
    by (auto simp: fits_def align_up_idem)
  ultimately have "kmalloc alloc sz h p = Some (addr x + HEADER, h', p)"
    using assms(2) ff by (simp add: kmalloc_def Let_def)
  with bs h' show ?thesis by blast
qed

lemma kfree_spec:
  assumes "heap_inv h (xs @ x # ys)" and "\<not> isfree x"
  shows "\<exists>h'. kfree (addr x + HEADER) h = Some h' \<and>
    heap_inv h' (coal (xs @ (addr x, bsize x, True) # ys)) \<and> total_bytes h' = total_bytes h \<and>
    hb_free (block_at h' (addr x)) \<noteq> 0"
proof -
  let ?B = "block_at h" and ?a = "addr x"
  have ok: "blocks_ok (xs @ x # ys)" using assms(1) by (simp add: heap_inv_def)
  have lay: "bend x \<le> HEAP_LIMIT" "?a \<noteq> 0" using ok by (auto simp: blocks_ok_append blocks_ok_simps)
  have nin: "?a \<notin> addr ` set xs" "?a \<notin> addr ` set ys" by (rule blocks_ok_middle [OF ok])+
  have c: "chain ?B (heap_head h) xs ?a" "holds_blk ?B x" "chain ?B (hb_next (?B ?a)) ys 0"
    using assms(1) by (auto simp: heap_inv_def)
  have f: "hb_size (?B ?a) = bsize x" "hb_free (?B ?a) = 0" using c(2) assms(2) by (auto simp: holds_blk_def)
  let ?h1 = "set_block ?a ((?B ?a)\<lparr>hb_free := 1\<rparr>) h"
  let ?h2 = "?h1\<lparr>used_bytes := used_bytes ?h1 - hb_size (block_at ?h1 ?a)\<rparr>"
  let ?bs = "xs @ (?a, bsize x, True) # ys"
  have nz: "?a + HEADER \<noteq> 0"
    using unat_payload [OF lay(1)] by (metis add_is_0 unat_0 zero_neq_numeral)
  have kf: "kfree (?a + HEADER) h = heap_coalesce ?h2"
    unfolding kfree_def using nz f(2) by (simp add: Let_def)
  have ch: "chain (block_at ?h2) (heap_head ?h2) ?bs 0"
    using c nin lay(2) f(1) by (auto simp: chain_update_other holds_blk_def)
  have okb: "blocks_ok ?bs" using ok by (auto simp: blocks_ok_append blocks_ok_simps bend_def)
  have "used_sum (xs @ x # ys) = used_sum ?bs + unat (bsize x)" using assms(2) by simp
  then have "unat (used_bytes h - bsize x) = used_sum ?bs"
    using assms(1) by (intro unat_diff64) (simp add: heap_inv_def)
  then have us: "unat (used_bytes ?h2) = used_sum ?bs" using f(1) by simp
  obtain h' where h': "heap_coalesce ?h2 = Some h'" "heap_inv h' (coal ?bs)" "same_rest ?h2 h'"
      "\<forall>a. a \<notin> addr ` set (coal ?bs) \<longrightarrow> block_at h' a = block_at ?h2 a"
    using heap_coalesce_spec [OF ch okb us] by blast
  have "hb_free (block_at h' ?a) \<noteq> 0"
  proof (cases "?a \<in> addr ` set (coal ?bs)")
    case True
    then obtain z where z: "z \<in> set (coal ?bs)" "addr z = ?a" by auto
    obtain u where u: "u \<in> set ?bs" "addr u = addr z" "isfree u = isfree z" using coal_isfree [OF z(1)] by blast
    then have "u = (?a, bsize x, True)" using nin z(2) by (metis Un_iff imageI set_ConsD set_append)
    then have "isfree z" using u(3) by simp
    moreover have "holds_blk (block_at h') z" using chain_holds [OF _ z(1)] h'(2) unfolding heap_inv_def by blast
    ultimately show ?thesis using z(2) by (simp add: holds_blk_def)
  next
    case False
    then show ?thesis using h'(4) by simp
  qed
  then show ?thesis using kf h'(1-3) by (auto simp: same_rest_def)
qed

text \<open>Freeing a block that is already free, or null, does nothing.\<close>

lemma kfree_free:
  assumes "heap_inv h bs" and "x \<in> set bs" and "isfree x"
  shows "kfree (addr x + HEADER) h = Some h"
proof -
  obtain xs ys where bs: "bs = xs @ x # ys" using assms(2) by (metis split_list)
  then have "holds_blk (block_at h) x" using assms(1) by (auto simp: heap_inv_def)
  then show ?thesis using assms(3) by (simp add: kfree_def holds_blk_def)
qed

lemma kfree_null [simp]: "kfree 0 h = Some h"
  by (simp add: kfree_def)

lemma kmalloc_zero [simp]: "kmalloc alloc 0 h p = Some (0, h, p)"
  by (simp add: kmalloc_def)


section \<open>Inserting a region\<close>

lemma unat_add_le: "unat (a + b :: u64) \<le> unat a + unat b"
  by (simp add: unat_plus_if')

lemma append_scan_spec:
  assumes "chain (block_at h) p (xs @ ys) 0" and "\<forall>x \<in> set xs. addr x < target"
    and "ys \<noteq> [] \<longrightarrow> target \<le> addr (hd ys)"
  shows "\<exists>q. append_scan target prev p h = Some (if xs = [] then prev else addr (last xs), q) \<and>
    chain (block_at h) p xs q \<and> chain (block_at h) q ys 0"
  using assms
proof (induction xs arbitrary: p prev)
  case Nil
  then have "\<not> (p \<noteq> 0 \<and> p < target)" by (cases ys) auto
  with Nil show ?case by (subst append_scan.simps) auto
next
  case (Cons x xs)
  have go: "append_scan target prev p h = append_scan target p (hb_next (block_at h (addr x))) h"
    using Cons.prems by (subst append_scan.simps) (auto simp: holds_blk_def)
  have "\<exists>q. append_scan target p (hb_next (block_at h (addr x))) h
       = Some (if xs = [] then p else addr (last xs), q) \<and>
      chain (block_at h) (hb_next (block_at h (addr x))) xs q \<and> chain (block_at h) q ys 0"
    by (rule Cons.IH) (use Cons.prems in auto)
  with go Cons.prems show ?case by auto
qed

text \<open>
  Appending a block whose header is already written puts it at its place by address.  On the empty
  list the code only sets the head, so the header must have a null \<open>next\<close>, as \<open>heap_expand\<close> writes it.
\<close>

lemma heap_append_block_spec:
  assumes "chain (block_at h) (heap_head h) (xs @ ys) 0" and "blocks_ok (xs @ n # ys)"
    and "holds_blk (block_at h) n" and "hb_next (block_at h (addr n)) = 0"
  shows "\<exists>h'. heap_append_block (addr n) h = Some h' \<and> chain (block_at h') (heap_head h') (xs @ n # ys) 0 \<and>
    total_bytes h' = total_bytes h \<and> used_bytes h' = used_bytes h \<and> payload h' = payload h"
proof (cases "xs @ ys = []")
  case True
  then show ?thesis using assms by (auto simp: heap_append_block_def)
next
  case False
  let ?B = "block_at h" and ?n = "addr n"
  have hd0: "heap_head h \<noteq> 0" using assms(1) False by (metis chain_null)
  have nin: "?n \<notin> addr ` set xs" "?n \<notin> addr ` set ys" by (rule blocks_ok_middle [OF assms(2)])+
  have below: "\<forall>x \<in> set xs. addr x < ?n"
  proof
    fix x
    assume "x \<in> set xs"
    then have "bend x \<le> unat ?n" using assms(2) by (auto simp: blocks_ok_append)
    then show "addr x < ?n" using addr_lt_bend [of x] by (simp add: word_less_nat_alt)
  qed
  have above: "ys \<noteq> [] \<longrightarrow> ?n \<le> addr (hd ys)"
    using assms(2) addr_lt_bend [of n] by (cases ys) (auto simp: blocks_ok_append blocks_ok_simps word_le_nat_alt)
  obtain q where q: "append_scan ?n 0 (heap_head h) h = Some (if xs = [] then 0 else addr (last xs), q)"
      "chain ?B (heap_head h) xs q" "chain ?B q ys 0"
    using append_scan_spec [OF assms(1) below above] by blast
  let ?h1 = "set_block ?n ((?B ?n)\<lparr>hb_next := q\<rparr>) h"
  have n1: "chain (block_at ?h1) ?n (n # ys) 0"
    using assms(3) q(3) nin by (auto simp: holds_blk_def chain_update_other)
  show ?thesis
  proof (cases xs rule: rev_cases)
    case Nil
    then show ?thesis using hd0 q(1) n1 by (auto simp: heap_append_block_def)
  next
    case (snoc ws w)
    have w0: "addr w \<noteq> 0" and wn: "addr w \<noteq> ?n"
      using assms(2) nin snoc by (auto simp: blocks_ok_append blocks_ok_simps)
    have wws: "addr w \<notin> addr ` set ws" and wys: "addr w \<notin> addr ` set ys"
      using blocks_ok_distinct [OF assms(2)] snoc by auto
    have cw: "chain ?B (heap_head h) ws (addr w)" "holds_blk ?B w" using q(2) snoc by auto
    let ?h2 = "set_block (addr w) ((block_at ?h1 (addr w))\<lparr>hb_next := ?n\<rparr>) ?h1"
    have r: "heap_append_block ?n h = Some ?h2"
      using hd0 q(1) snoc w0 by (simp add: heap_append_block_def)
    have "chain (block_at ?h2) (heap_head h) ws (addr w)"
      using cw(1) nin snoc wws by (simp add: chain_update_other)
    moreover have "holds_blk (block_at ?h2) w" using cw(2) wn by (simp add: holds_blk_def)
    moreover have "chain (block_at ?h2) ?n (n # ys) 0"
    proof -
      have "addr w \<notin> addr ` set (n # ys)" using wn wys by auto
      from chain_update_other [OF this] n1 show ?thesis unfolding set_block_simps(5) [of "addr w"] by blast
    qed
    ultimately have "chain (block_at ?h2) (heap_head h) (xs @ n # ys) 0"
      using snoc by (auto simp: holds_blk_def)
    then show ?thesis using r by auto
  qed
qed

lemma coal_grows:
  assumes "blocks_ok bs" and "z \<in> set (coal bs)"
  shows "\<exists>x \<in> set bs. addr x = addr z \<and> isfree x = isfree z \<and> unat (bsize x) \<le> unat (bsize z)"
  using assms
proof (induction bs rule: coal.induct)
  case (3 x y zs)
  show ?case
  proof (cases "mergeable x y")
    case True
    have l: "bend x \<le> unat (addr y)" "bend y \<le> HEAP_LIMIT" using "3.prems" by (auto simp: blocks_ok_simps)
    note m = merge_layout [OF True l]
    have "blocks_ok (merge x y # zs)" using "3.prems" m(1) by (auto simp: blocks_ok_simps)
    moreover have "z \<in> set (coal (merge x y # zs))" using "3.prems"(2) True by simp
    ultimately obtain u where "u \<in> set (merge x y # zs)" "addr u = addr z" "isfree u = isfree z"
        "unat (bsize u) \<le> unat (bsize z)"
      using "3.IH"(1) [OF True] by blast
    then show ?thesis using m(2) by (cases "u = merge x y") auto
  next
    case False
    then show ?thesis using "3.IH"(2) [OF False] "3.prems" by (auto simp: blocks_ok_simps)
  qed
qed auto

section \<open>Frames a block lies in\<close>

definition frames_of :: "blk \<Rightarrow> nat set" where
  "frames_of x = {f. unat (addr x) div 4096 \<le> f \<and> f * 4096 < bend x}"

definition blocks_in :: "blk list \<Rightarrow> nat set \<Rightarrow> bool" where
  "blocks_in bs F \<longleftrightarrow> (\<forall>x \<in> set bs. frames_of x \<subseteq> F)"

lemma blocks_in_simps [simp]:
  "blocks_in [] F"
  "blocks_in (x # bs) F \<longleftrightarrow> frames_of x \<subseteq> F \<and> blocks_in bs F"
  "blocks_in (xs @ ys) F \<longleftrightarrow> blocks_in xs F \<and> blocks_in ys F"
  by (auto simp: blocks_in_def)

lemma blocks_in_mono: "blocks_in bs F \<Longrightarrow> F \<subseteq> G \<Longrightarrow> blocks_in bs G"
  by (auto simp: blocks_in_def)

lemma frames_of_subset:
  "unat (addr x) \<le> unat (addr z) \<Longrightarrow> bend z \<le> bend x \<Longrightarrow> frames_of z \<subseteq> frames_of x"
  by (auto simp: frames_of_def intro: order_trans [OF div_le_mono])

lemma frames_of_taken:
  assumes "align_up sz \<le> bsize x" and "bend x \<le> HEAP_LIMIT" and "addr x \<noteq> 0" and "frames_of x \<subseteq> F"
  shows "blocks_in (taken sz x) F"
  unfolding blocks_in_def
proof
  fix y
  assume "y \<in> set (taken sz x)"
  then have "frames_of y \<subseteq> frames_of x"
    using taken_layout(2) [OF assms(1-3)] by (intro frames_of_subset) auto
  then show "frames_of y \<subseteq> F" using assms(4) by (rule order_trans)
qed

text \<open>A merge adds at most the alignment gap, so it reaches no new frame.\<close>

lemma frames_of_merge:
  assumes "mergeable x y" and "bend x \<le> unat (addr y)" and "bend y \<le> HEAP_LIMIT"
  shows "frames_of (merge x y) \<subseteq> frames_of x \<union> frames_of y"
proof
  fix f
  assume f: "f \<in> frames_of (merge x y)"
  note m = merge_layout [OF assms]
  have sx: "unat (bsize x) \<le> HEAP_LIMIT" using assms(2,3) by (simp add: bend_def)
  have au: "unat (align_up (bsize x)) \<le> unat (bsize x) + 15"
    using sx by (subst align_up_bounds) simp_all
  have "unat (addr x + HEADER + align_up (bsize x)) \<le> unat (addr x) + 24 + unat (align_up (bsize x))"
    using unat_add_le [of "addr x + HEADER" "align_up (bsize x)"] unat_add_le [of "addr x" HEADER] by simp
  then have gap: "unat (addr y) \<le> bend x + 15"
    using assms(1) au by (simp add: mergeable_def bend_def)
  show "f \<in> frames_of x \<union> frames_of y"
  proof (cases "f * 4096 < bend x")
    case True
    then show ?thesis using f by (simp add: frames_of_def)
  next
    case False
    have "unat (addr y) div 4096 \<le> f" using False gap by linarith
    then show ?thesis using f m(1) by (simp add: frames_of_def)
  qed
qed

lemma blocks_in_coal:
  assumes "blocks_ok bs" and "blocks_in bs F"
  shows "blocks_in (coal bs) F"
  using assms
proof (induction bs rule: coal.induct)
  case (3 x y zs)
  show ?case
  proof (cases "mergeable x y")
    case True
    have l: "bend x \<le> unat (addr y)" "bend y \<le> HEAP_LIMIT" using "3.prems" by (auto simp: blocks_ok_simps)
    have "blocks_ok (merge x y # zs)"
      using "3.prems" merge_layout(1) [OF True l] by (auto simp: blocks_ok_simps)
    moreover have "blocks_in (merge x y # zs) F"
      using "3.prems" frames_of_merge [OF True l] by auto
    ultimately show ?thesis using "3.IH"(1) [OF True] True by simp
  next
    case False
    then show ?thesis using "3.IH"(2) [OF False] "3.prems" by (auto simp: blocks_ok_simps)
  qed
qed auto


end
