(* ===== verification/HeapAlloc.thy ===== *)
theory HeapAlloc
  imports HeapList Clients
begin

text \<open>
  The heap on top of a frame source (\<open>FrameSource\<close>): growth, the contracts of \<open>kmalloc\<close>,
  \<open>kcalloc\<close> and \<open>kfree\<close>, and runs of clients that allocate and free in any order.
\<close>


section \<open>Growing the heap\<close>

text \<open>The frames a request needs, the block a region starts as, and where it goes in the list.\<close>

definition heap_pages :: "u64 \<Rightarrow> u64" where
  "heap_pages sz = (align_up (sz + HEADER) + HEAP_PAGE_SIZE - 1) div HEAP_PAGE_SIZE"

definition region_blk :: "u64 \<Rightarrow> u64 \<Rightarrow> blk" where
  "region_blk r c = (r, c * HEAP_PAGE_SIZE - HEADER, True)"

definition insert_blk :: "blk \<Rightarrow> blk list \<Rightarrow> blk list" where
  "insert_blk n bs = takeWhile (\<lambda>x. addr x < addr n) bs @ n # dropWhile (\<lambda>x. addr x < addr n) bs"

lemma dropWhile_above:
  assumes "blocks_ok bs" and "y \<in> set (dropWhile (\<lambda>x. addr x < r) bs)"
  shows "r \<le> addr y"
  using assms
proof (induction bs)
  case (Cons x bs)
  show ?case
  proof (cases "addr x < r")
    case True
    then show ?thesis using Cons by (auto simp: blocks_ok_simps)
  next
    case False
    have "addr x \<le> addr y"
    proof (cases "y = x")
      case True
      then show ?thesis by simp
    next
      case other: False
      then have "y \<in> set bs" using Cons.prems(2) False by simp
      then have "bend x \<le> unat (addr y)" using Cons.prems(1) by (simp add: blocks_ok_simps)
      then show ?thesis using addr_lt_bend [of x] by (simp add: word_le_nat_alt)
    qed
    then show ?thesis using False by (simp add: not_less)
  qed
qed simp

lemma bend_region:
  assumes "c \<noteq> 0" and "unat r + 4096 * unat c \<le> HEAP_LIMIT"
  shows "bend (region_blk r c) = unat r + 4096 * unat c"
    and "unat (bsize (region_blk r c)) = 4096 * unat c - 24"
proof -
  have c: "0 < unat c" "unat c \<le> 0x40000" using assms by (auto simp: unat_gt_0)
  have "unat (c * HEAP_PAGE_SIZE) = unat c * 4096" using c by (subst unat_mult_lem [THEN iffD1]) simp_all
  then have "unat (c * HEAP_PAGE_SIZE - HEADER) = 4096 * unat c - 24"
    using c by (subst unat_sub) (simp_all add: word_le_nat_alt)
  then show "bend (region_blk r c) = unat r + 4096 * unat c"
    and "unat (bsize (region_blk r c)) = 4096 * unat c - 24"
    using c by (simp_all add: bend_def region_blk_def)
qed

text \<open>A run of frames nobody owns lies between the blocks of the heap.\<close>

lemma region_between:
  assumes "blocks_ok bs" and "blocks_in bs F" and "r \<noteq> 0" and "c \<noteq> 0" and "unat r mod 4096 = 0"
    and "unat r + 4096 * unat c \<le> HEAP_LIMIT" and "frame_run r c \<inter> F = {}"
  shows "blocks_ok (insert_blk (region_blk r c) bs)"
proof -
  let ?n = "region_blk r c"
  note be = bend_region [OF assms(4,6)]
  obtain k where k: "unat r = 4096 * k" using assms(5) by (auto simp: mod_eq_0_iff_dvd dvd_def)
  have fr: "frame_run r c = {k..<k + unat c}" by (simp add: frame_run_def k)
  have a: "addr ?n = r" by (simp add: region_blk_def)
  have own: "f \<in> F" if "x \<in> set bs" "unat (addr x) div 4096 \<le> f" "f * 4096 < bend x" for x f
    using assms(2) that by (auto simp: blocks_in_def frames_of_def)
  have below: "bend x \<le> unat r" if x: "x \<in> set bs" and lt: "addr x < r" for x
  proof (rule ccontr)
    assume n: "\<not> bend x \<le> unat r"
    have "unat (addr x) div 4096 \<le> k" using lt k by (simp add: word_less_nat_alt div_le_mono less_imp_le)
    then have "k \<in> F" using own [OF x, of k] n k by simp
    moreover have "k \<in> frame_run r c" using assms(4) by (simp add: fr unat_gt_0)
    ultimately show False using assms(7) by blast
  qed
  have above: "unat r + 4096 * unat c \<le> unat (addr y)" if y: "y \<in> set bs" and ge: "r \<le> addr y" for y
  proof (rule ccontr)
    assume n: "\<not> unat r + 4096 * unat c \<le> unat (addr y)"
    let ?f = "unat (addr y) div 4096"
    have "?f * 4096 \<le> unat (addr y)" by simp
    then have "?f * 4096 < bend y" using addr_lt_bend [of y] by linarith
    then have "?f \<in> F" by (rule own [OF y order_refl])
    moreover have "?f \<in> frame_run r c" using n ge k by (auto simp: fr word_le_nat_alt)
    ultimately show False using assms(7) by blast
  qed
  let ?xs = "takeWhile (\<lambda>x. addr x < r) bs" and ?ys = "dropWhile (\<lambda>x. addr x < r) bs"
  have split: "blocks_ok ?xs" "blocks_ok ?ys" "\<forall>x \<in> set ?xs. \<forall>y \<in> set ?ys. bend x \<le> unat (addr y)"
    using assms(1) blocks_ok_append [of ?xs ?ys] by simp_all
  have xs: "bend x \<le> unat r" if "x \<in> set ?xs" for x
    using below set_takeWhileD [OF that] by blast
  have ys: "bend ?n \<le> unat (addr y)" if "y \<in> set ?ys" for y
    using above dropWhile_above [OF assms(1) that] set_dropWhileD [OF that] be(1) by simp
  have "blocks_ok (?xs @ ?n # ?ys)"
    using split xs ys be(1) assms(3,6) a by (simp add: blocks_ok_append blocks_ok_simps)
  then show ?thesis by (simp add: insert_blk_def a)
qed

lemma used_sum_insert: "isfree n \<Longrightarrow> used_sum (insert_blk n bs) = used_sum bs"
proof -
  assume "isfree n"
  then have "used_sum (insert_blk n bs) = used_sum (takeWhile (\<lambda>x. addr x < addr n) bs @ dropWhile (\<lambda>x. addr x < addr n) bs)"
    by (simp add: insert_blk_def del: takeWhile_dropWhile_id)
  then show ?thesis by simp
qed

lemma region_frames:
  assumes "c \<noteq> 0" and "unat r mod 4096 = 0" and "unat r + 4096 * unat c \<le> HEAP_LIMIT"
  shows "frames_of (region_blk r c) \<subseteq> frame_run r c"
proof
  fix f
  assume "f \<in> frames_of (region_blk r c)"
  then have "unat r div 4096 \<le> f" "f * 4096 < unat r + 4096 * unat c"
    using bend_region(1) [OF assms(1,3)] by (simp_all add: frames_of_def region_blk_def)
  moreover obtain k where "unat r = 4096 * k" using assms(2) by (auto simp: mod_eq_0_iff_dvd dvd_def)
  ultimately show "f \<in> frame_run r c" by (simp add: frame_run_def)
qed

text \<open>The heap and the frames it owns.\<close>

definition heap_sys :: "heap \<Rightarrow> blk list \<Rightarrow> nat set \<Rightarrow> bool" where
  "heap_sys h bs F \<longleftrightarrow> heap_inv h bs \<and> blocks_in bs F"

lemma heap_pages_enough:
  assumes "unat sz + 5000 < 2 ^ 64"
  shows "unat sz + 24 \<le> 4096 * unat (heap_pages sz)"
proof -
  have "unat (sz + HEADER) = unat sz + 24" using assms by (intro unat_add64 [THEN trans]) simp_all
  moreover then have "unat (align_up (sz + HEADER)) = (unat sz + 24 + 15) div 16 * 16"
    using assms by (subst align_up_bounds) simp_all
  moreover have "(unat sz + 24 + 15) div 16 * 16 + 4095 < 2 ^ 64" using assms by simp
  ultimately have "unat (align_up (sz + HEADER) + HEAP_PAGE_SIZE - 1) = (unat sz + 24 + 15) div 16 * 16 + 4095"
    by (simp add: unat_plus_if')
  then have "unat (heap_pages sz) = ((unat sz + 24 + 15) div 16 * 16 + 4095) div 4096"
    by (simp add: heap_pages_def unat_div)
  then show ?thesis by linarith
qed


section \<open>The heap over a frame source\<close>

lemma insert_blk_split:
  "\<exists>xs ys. bs = xs @ ys \<and> insert_blk n bs = xs @ n # ys"
  by (intro exI [of _ "takeWhile (\<lambda>x. addr x < addr n) bs"] exI [of _ "dropWhile (\<lambda>x. addr x < addr n) bs"])
     (simp add: insert_blk_def)

lemma set_insert_blk [simp]: "set (insert_blk n bs) = insert n (set bs)"
proof -
  obtain xs ys where "bs = xs @ ys" "insert_blk n bs = xs @ n # ys" using insert_blk_split by blast
  then show ?thesis by auto
qed

lemma blocks_in_insert: "blocks_in (insert_blk n bs) F \<longleftrightarrow> frames_of n \<subseteq> F \<and> blocks_in bs F"
  by (auto simp: blocks_in_def)

text \<open>Linking a fresh region into the list and coalescing, the tail of \<open>heap_expand\<close>.\<close>

lemma link_region_spec:
  fixes t :: u64
  assumes "heap_inv h bs" and "blocks_ok (insert_blk n bs)" and "isfree n"
    and h2_def: "h2 = (set_block (addr n) \<lparr>hb_size = bsize n, hb_next = 0, hb_free = 1\<rparr> h)\<lparr>total_bytes := t\<rparr>"
  shows "\<exists>h3 h4. heap_append_block (addr n) h2 = Some h3 \<and> heap_coalesce h3 = Some h4 \<and>
    heap_inv h4 (coal (insert_blk n bs)) \<and> total_bytes h4 = t \<and> payload h4 = payload h \<and>
    (addr n \<notin> addr ` set (coal (insert_blk n bs)) \<longrightarrow> hb_size (block_at h4 (addr n)) = bsize n)"
proof -
  obtain xs ys where sp: "bs = xs @ ys" "insert_blk n bs = xs @ n # ys" using insert_blk_split by blast
  have ok: "blocks_ok (xs @ n # ys)" using assms(2) sp by simp
  have n0: "addr n \<noteq> 0" using ok by (auto simp: blocks_ok_append blocks_ok_simps)
  have nin: "addr n \<notin> addr ` set bs" using blocks_ok_middle [OF ok] sp by auto
  have c: "chain (block_at h2) (heap_head h2) (xs @ ys) 0"
    using assms(1) nin unfolding h2_def sp(1) [symmetric] by (simp add: chain_update_other heap_inv_def)
  have hn: "holds_blk (block_at h2) n" "hb_next (block_at h2 (addr n)) = 0"
    using assms(3) n0 by (simp_all add: h2_def holds_blk_def)
  obtain h3 where h3: "heap_append_block (addr n) h2 = Some h3"
      "chain (block_at h3) (heap_head h3) (xs @ n # ys) 0" "total_bytes h3 = total_bytes h2"
      "used_bytes h3 = used_bytes h2" "payload h3 = payload h2"
    using heap_append_block_spec [OF c ok hn] by blast
  have "unat (used_bytes h3) = used_sum (xs @ n # ys)"
    using assms(1,3) h3(4) sp(1) by (simp add: heap_inv_def h2_def)
  then obtain h4 where h4: "heap_coalesce h3 = Some h4" "heap_inv h4 (coal (xs @ n # ys))" "same_rest h3 h4"
      "\<forall>a. a \<notin> addr ` set (coal (xs @ n # ys)) \<longrightarrow> block_at h4 a = block_at h3 a"
    using heap_coalesce_spec [OF h3(2) ok] by blast
  have "holds_blk (block_at h3) n" by (rule chain_holds [OF h3(2)]) simp
  then have "addr n \<notin> addr ` set (coal (xs @ n # ys)) \<longrightarrow> hb_size (block_at h4 (addr n)) = bsize n"
    using h4(4) by (simp add: holds_blk_def)
  then show ?thesis using h3(1,3-5) h4(1-3) unfolding sp(2) by (intro exI [of _ h3] exI [of _ h4]) (simp add: same_rest_def h2_def)
qed

context frame_source
begin

text \<open>\<open>heap_expand\<close>: null when the source has no run, else the region is free heap memory.\<close>

lemma expand_null:
  assumes "ok p" and "alloc (heap_pages sz) p = Some (0, q)"
  shows "heap_expand alloc sz h p = Some (0, h, p)"
  using assms alloc_null [OF assms] by (simp add: heap_expand_def heap_pages_def Let_def)

lemma expand_spec:
  assumes "ok p" and "heap_sys h bs (owned p)" and "alloc (heap_pages sz) p = Some (r, q)" and "r \<noteq> 0"
  defines "n \<equiv> region_blk r (heap_pages sz)"
  shows "\<exists>h'. heap_expand alloc sz h p = Some (r, h', q) \<and> heap_sys h' (coal (insert_blk n bs)) (owned q) \<and>
    blocks_ok (insert_blk n bs) \<and> total_bytes h' = total_bytes h + bsize n \<and> payload h' = payload h \<and>
    (r \<notin> addr ` set (coal (insert_blk n bs)) \<longrightarrow> hb_size (block_at h' r) = bsize n)"
proof -
  note run = alloc_run [OF assms(1,3,4)]
  have inv: "heap_inv h bs" and bin: "blocks_in bs (owned p)" using assms(2) by (simp_all add: heap_sys_def)
  have ok: "blocks_ok (insert_blk n bs)"
    unfolding n_def
    by (rule region_between [OF _ bin assms(4)]) (use inv run in \<open>simp_all add: heap_inv_def\<close>)
  have n: "addr n = r" "isfree n" "bsize n = heap_pages sz * HEAP_PAGE_SIZE - HEADER"
    by (simp_all add: n_def region_blk_def)
  obtain h3 h4 where h4:
    "heap_append_block (addr n) ((set_block (addr n) \<lparr>hb_size = bsize n, hb_next = 0, hb_free = 1\<rparr> h)
       \<lparr>total_bytes := total_bytes h + bsize n\<rparr>) = Some h3"
    "heap_coalesce h3 = Some h4" "heap_inv h4 (coal (insert_blk n bs))"
    "total_bytes h4 = total_bytes h + bsize n" "payload h4 = payload h"
    "addr n \<notin> addr ` set (coal (insert_blk n bs)) \<longrightarrow> hb_size (block_at h4 (addr n)) = bsize n"
    using link_region_spec [OF inv ok n(2) refl] by metis
  have ex: "heap_expand alloc sz h p = Some (r, h4, q)"
    using assms(3,4) h4(1,2) n by (simp add: heap_expand_def heap_pages_def Let_def)
  have "frames_of n \<subseteq> owned q" using region_frames [of "heap_pages sz" r] run by (auto simp: n_def)
  then have "blocks_in (insert_blk n bs) (owned q)"
    using blocks_in_mono [OF bin] run by (auto simp: blocks_in_insert)
  then have "blocks_in (coal (insert_blk n bs)) (owned q)" by (rule blocks_in_coal [OF ok])
  then show ?thesis using ex ok h4 n(1) by (simp add: heap_sys_def)
qed

end


section \<open>Allocation\<close>

text \<open>The blocks in use, which is what a client of the heap holds.\<close>

definition live :: "blk list \<Rightarrow> blk set" where
  "live bs = {x \<in> set bs. \<not> isfree x}"

lemma live_simps [simp]:
  "live [] = {}"
  "live (x # bs) = (if isfree x then live bs else insert x (live bs))"
  "live (xs @ ys) = live xs \<union> live ys"
  by (auto simp: live_def)

lemma live_coal [simp]: "live (coal bs) = live bs"
  using coal_used [of _ bs] coal_used_rev [of _ bs] unfolding live_def by blast

lemma live_insert_blk: "isfree n \<Longrightarrow> live (insert_blk n bs) = live bs"
  by (auto simp: live_def)

text \<open>A request is representable when rounding and adding a header and a page do not wrap.\<close>

definition sane_request :: "u64 \<Rightarrow> bool" where
  "sane_request sz \<longleftrightarrow> unat sz + 6000 < 2 ^ 64"

lemma sane_request_code [code]: "sane_request sz \<longleftrightarrow> sz < 0xFFFFFFFFFFFFE890"
  by (simp add: sane_request_def word_less_nat_alt)

lemma sane_request_align:
  assumes "sane_request sz"
  shows "unat sz \<le> unat (align_up sz)" and "unat (align_up sz) + 24 \<le> 4096 * unat (heap_pages (align_up sz))"
proof -
  have b: "unat (align_up sz) = (unat sz + 15) div 16 * 16"
    using assms by (intro align_up_bounds) (simp add: sane_request_def)
  show "unat sz \<le> unat (align_up sz)" unfolding b by linarith
  show "unat (align_up sz) + 24 \<le> 4096 * unat (heap_pages (align_up sz))"
    by (rule heap_pages_enough) (use assms b in \<open>simp add: sane_request_def\<close>)
qed

text \<open>
  When no block fits, the heap grows, and \<open>heap_expand\<close> returns the address of the new region although
  \<open>heap_coalesce\<close> may have merged the region into the block before it.  \<open>growth_clean\<close> says that
  this does not happen: the region still starts a block of the list.
\<close>

definition growth_clean :: "(u64 \<Rightarrow> 'p \<Rightarrow> (u64 \<times> 'p) option) \<Rightarrow> u64 \<Rightarrow> blk list \<Rightarrow> 'p \<Rightarrow> bool" where
  "growth_clean alloc sz bs p =
     (list_ex (fits (align_up sz)) bs \<or>
      (let c = heap_pages (align_up sz) in
       case alloc c p of
         None \<Rightarrow> True
       | Some (r, q) \<Rightarrow> r = 0 \<or> list_ex (\<lambda>x. addr x = r) (coal (insert_blk (region_blk r c) bs))))"

text \<open>The outcome a client relies on.\<close>

definition allocated :: "blk list \<Rightarrow> u64 \<Rightarrow> u64 \<Rightarrow> blk list \<Rightarrow> bool" where
  "allocated bs sz r bs' \<longleftrightarrow>
     (\<exists>x. x \<notin> live bs \<and> live bs' = insert x (live bs) \<and> r = addr x + HEADER \<and> sz \<le> bsize x)"

lemma allocated_taken:
  assumes "blocks_ok (xs @ x # ys)" and "isfree x" and "align_up sz \<le> bsize x" and "unat sz \<le> unat (align_up sz)"
  shows "allocated (xs @ x # ys) sz (addr x + HEADER) (xs @ taken (align_up sz) x @ ys)"
proof -
  let ?y = "hd (taken (align_up sz) x)"
  have y: "addr ?y = addr x" "\<not> isfree ?y" "sz \<le> bsize ?y"
    using assms(3,4) by (auto simp: taken_def align_up_idem word_le_nat_alt)
  have "live (taken (align_up sz) x) = {?y}" by (simp add: taken_def)
  moreover have "?y \<notin> live (xs @ x # ys)"
  proof
    assume l: "?y \<in> live (xs @ x # ys)"
    then have "?y \<in> set xs \<or> ?y \<in> set ys" using assms(2) y(2) by (auto simp: live_def)
    then have "addr x \<in> addr ` set xs \<or> addr x \<in> addr ` set ys" using y(1) by (metis imageI)
    then show False using blocks_ok_middle [OF assms(1)] by blast
  qed
  ultimately show ?thesis
    unfolding allocated_def by (intro exI [of _ ?y]) (use assms(2) y in simp)
qed

lemma take_block_sys:
  assumes "heap_sys h (xs @ x # ys) F" and "isfree x" and "align_up sz \<le> bsize x"
    and "unat sz \<le> unat (align_up sz)"
  shows "\<exists>h'. take_block (addr x) (align_up sz) h = (addr x + HEADER, h') \<and>
    heap_sys h' (xs @ taken (align_up sz) x @ ys) F \<and>
    allocated (xs @ x # ys) sz (addr x + HEADER) (xs @ taken (align_up sz) x @ ys) \<and> payload h' = payload h \<and>
    total_bytes h' = total_bytes h"
proof -
  have inv: "heap_inv h (xs @ x # ys)" and bin: "blocks_in (xs @ x # ys) F"
    using assms(1) by (simp_all add: heap_sys_def)
  have ok: "blocks_ok (xs @ x # ys)" using inv by (simp add: heap_inv_def)
  have le: "align_up (align_up sz) \<le> bsize x" using assms(3) by (simp add: align_up_idem)
  have "blocks_in (taken (align_up sz) x) F"
    by (rule frames_of_taken [OF le]) (use ok bin in \<open>auto simp: blocks_ok_append blocks_ok_simps\<close>)
  then show ?thesis
    using take_block_spec [OF inv assms(2) le] allocated_taken [OF ok assms(2-4)] bin by (auto simp: heap_sys_def)
qed

text \<open>A block that is not on the list of the heap: the list \<open>bs'\<close> is linked as it should be, the blocks of
  \<open>used\<close> are in use, and none of its blocks starts at the header of \<open>r\<close>.\<close>

definition off_list :: "blk list \<Rightarrow> blk set \<Rightarrow> u64 \<Rightarrow> heap \<Rightarrow> bool" where
  "off_list bs' used r h' \<longleftrightarrow> chain (block_at h') (heap_head h') bs' 0 \<and> blocks_ok bs' \<and> live bs' = used \<and>
     r - HEADER \<notin> addr ` set bs'"

text \<open>Taking a block that lies beside the blocks of a list leaves the list alone.\<close>

lemma take_block_aside:
  assumes "chain (block_at h) (heap_head h) bs 0"
    and "\<forall>y \<in> set bs. unat (addr y) < unat r \<or> unat r + 24 + unat (hb_size (block_at h r)) \<le> unat (addr y)"
    and "unat r + 24 + unat (hb_size (block_at h r)) \<le> HEAP_LIMIT" and "align_up sz \<le> hb_size (block_at h r)"
  shows "\<exists>h'. take_block r sz h = (r + HEADER, h') \<and> chain (block_at h') (heap_head h') bs 0 \<and> payload h' = payload h"
proof -
  let ?x = "(r, hb_size (block_at h r), True)" and ?n = "r + HEADER + align_up sz"
  obtain h' where h': "take_block r sz h = (r + HEADER, h')" by (simp add: take_block_def Let_def)
  have "block_at h' a = block_at h a" if "a \<noteq> r" "splits sz ?x \<longrightarrow> a \<noteq> ?n" for a
    using h' that by (auto simp: take_block_def heap_split_block_def splits_def Let_def split: if_splits)
  moreover have "addr y \<noteq> r \<and> (splits sz ?x \<longrightarrow> addr y \<noteq> ?n)" if y: "y \<in> set bs" for y
  proof (intro conjI impI)
    show "addr y \<noteq> r" using assms(2) y by fastforce
    assume sp: "splits sz ?x"
    have "unat ?n = unat r + 24 + unat (align_up sz)" "unat (align_up sz) + 56 \<le> unat (hb_size (block_at h r))"
      using split_arith [OF sp] assms(3,4) by (simp_all add: bend_def)
    then show "addr y \<noteq> ?n" using assms(2) y by fastforce
  qed
  ultimately have "chain (block_at h') p bs 0 = chain (block_at h) p bs 0" for p by (intro chain_frame) blast
  moreover have "heap_head h' = heap_head h" "payload h' = payload h"
    using h' by (auto simp: take_block_def heap_split_block_def Let_def split: if_splits)
  ultimately show ?thesis using assms(1) h' by simp
qed

lemma heap_sys_nonnull:
  assumes "heap_sys h bs F" and "x \<in> set bs"
  shows "addr x \<noteq> 0" and "addr x + HEADER \<noteq> 0"
proof -
  have b: "bend x \<le> HEAP_LIMIT" "addr x \<noteq> 0"
    using assms by (auto simp: heap_sys_def heap_inv_def blocks_ok_def)
  then show "addr x \<noteq> 0" by simp
  show "addr x + HEADER \<noteq> 0"
    using unat_payload [OF b(1)] by (metis add_is_0 unat_0 zero_neq_numeral)
qed

context frame_source
begin

lemma kmalloc_fit:
  assumes "ok p" and "heap_sys h bs (owned p)" and "sz \<noteq> 0" and "sane_request sz"
    and "find (fits (align_up sz)) bs = Some x"
  shows "\<exists>h' bs'. kmalloc alloc sz h p = Some (addr x + HEADER, h', p) \<and> heap_sys h' bs' (owned p) \<and>
    allocated bs sz (addr x + HEADER) bs' \<and> payload h' = payload h"
proof -
  obtain xs ys where bs: "bs = xs @ x # ys" "fits (align_up sz) x"
    using find_first_split [OF assms(5)] by blast
  have "find_fit (align_up sz) (heap_head h) h = Some (addr x)"
    using find_fit_spec [of h "heap_head h" bs "align_up sz"] assms(2,5) by (simp add: heap_sys_def heap_inv_def)
  moreover obtain h' where "take_block (addr x) (align_up sz) h = (addr x + HEADER, h')"
      "heap_sys h' (xs @ taken (align_up sz) x @ ys) (owned p)"
      "allocated bs sz (addr x + HEADER) (xs @ taken (align_up sz) x @ ys)" "payload h' = payload h"
    using take_block_sys [of h xs x ys "owned p" sz] assms(2) bs sane_request_align(1) [OF assms(4)]
    by (auto simp: fits_def)
  moreover have "addr x \<noteq> 0" using heap_sys_nonnull(1) [OF assms(2)] bs(1) by simp
  ultimately show ?thesis using assms(3) by (auto simp: kmalloc_def Let_def)
qed

lemma kmalloc_no_memory:
  assumes "ok p" and "heap_sys h bs (owned p)" and "sz \<noteq> 0"
    and "find (fits (align_up sz)) bs = None" and "alloc (heap_pages (align_up sz)) p = Some (0, q)"
  shows "kmalloc alloc sz h p = Some (0, h, p)"
proof -
  have "find_fit (align_up sz) (heap_head h) h = Some 0"
    using find_fit_spec [of h "heap_head h" bs "align_up sz"] assms(2,4) by (simp add: heap_sys_def heap_inv_def)
  then show ?thesis
    using assms(3) expand_null [OF assms(1,5)] by (simp add: kmalloc_def Let_def)
qed

lemma kmalloc_grow:
  assumes "ok p" and "heap_sys h bs (owned p)" and "sz \<noteq> 0" and "sane_request sz"
    and "find (fits (align_up sz)) bs = None" and "alloc (heap_pages (align_up sz)) p = Some (r, q)" and "r \<noteq> 0"
    and "growth_clean alloc sz bs p"
  shows "\<exists>h' bs'. kmalloc alloc sz h p = Some (r + HEADER, h', q) \<and> heap_sys h' bs' (owned q) \<and>
    allocated bs sz (r + HEADER) bs' \<and> payload h' = payload h"
proof -
  let ?n = "region_blk r (heap_pages (align_up sz))"
  let ?bs = "insert_blk ?n bs"
  obtain h1 where ex: "heap_expand alloc (align_up sz) h p = Some (r, h1, q)"
      and sys: "heap_sys h1 (coal ?bs) (owned q)" and ok: "blocks_ok ?bs" and pl: "payload h1 = payload h"
    using expand_spec [OF assms(1,2,6,7)] by blast
  have n: "addr ?n = r" "isfree ?n" by (simp_all add: region_blk_def)
  obtain z where z: "z \<in> set (coal ?bs)" "addr z = r"
    using assms(5-8) by (auto simp: growth_clean_def Let_def list_ex_iff find_None_iff)
  obtain x where x: "x \<in> set ?bs" "addr x = addr z" "isfree x = isfree z" "unat (bsize x) \<le> unat (bsize z)"
    using coal_grows [OF ok z(1)] by blast
  have "x = ?n"
    using blocks_ok_distinct [OF ok] x(1,2) z(2) n(1) unfolding distinct_map inj_on_def by auto
  have run: "heap_pages (align_up sz) \<noteq> 0" "unat r + 4096 * unat (heap_pages (align_up sz)) \<le> HEAP_LIMIT"
    using alloc_run [OF assms(1,6,7)] by auto
  have "unat (bsize ?n) = 4096 * unat (heap_pages (align_up sz)) - 24" by (rule bend_region(2) [OF run])
  then have zf: "isfree z" "align_up sz \<le> bsize z"
    using x \<open>x = ?n\<close> n(2) sane_request_align(2) [OF assms(4)] by (simp_all add: word_le_nat_alt)
  obtain xs ys where sp: "coal ?bs = xs @ z # ys" using z(1) by (metis split_list)
  obtain h' where h': "take_block (addr z) (align_up sz) h1 = (addr z + HEADER, h')"
      "heap_sys h' (xs @ taken (align_up sz) z @ ys) (owned q)"
      "allocated (coal ?bs) sz (addr z + HEADER) (xs @ taken (align_up sz) z @ ys)" "payload h' = payload h1"
    using take_block_sys [of h1 xs z ys "owned q" sz] sys sp zf sane_request_align(1) [OF assms(4)] by auto
  have "find_fit (align_up sz) (heap_head h) h = Some 0"
    using find_fit_spec [of h "heap_head h" bs "align_up sz"] assms(2,5) by (simp add: heap_sys_def heap_inv_def)
  then have "kmalloc alloc sz h p = Some (r + HEADER, h', q)"
    using assms(3,7) ex h'(1) z(2) by (simp add: kmalloc_def Let_def)
  moreover have "allocated bs sz (r + HEADER) (xs @ taken (align_up sz) z @ ys)"
    using h'(3) z(2) live_insert_blk [OF n(2)] by (simp add: allocated_def)
  ultimately show ?thesis using h' pl by metis
qed

text \<open>
  Otherwise the block handed out is not on the list: the list still links exactly the blocks it should,
  the same blocks are in use as before, and none of them starts where the new one does.
\<close>

lemma kmalloc_absorbed:
  assumes "ok p" and "heap_sys h bs (owned p)" and "sz \<noteq> 0" and "sane_request sz"
    and "find (fits (align_up sz)) bs = None" and "alloc (heap_pages (align_up sz)) p = Some (r, q)" and "r \<noteq> 0"
    and "\<not> growth_clean alloc sz bs p"
  shows "\<exists>h'. kmalloc alloc sz h p = Some (r + HEADER, h', q) \<and> payload h' = payload h \<and>
    off_list (coal (insert_blk (region_blk r (heap_pages (align_up sz))) bs)) (live bs) (r + HEADER) h'"
proof -
  let ?n = "region_blk r (heap_pages (align_up sz))"
  let ?bs = "insert_blk ?n bs"
  have n: "addr ?n = r" "isfree ?n" by (simp_all add: region_blk_def)
  have nin: "r \<notin> addr ` set (coal ?bs)"
    using assms(6,8) by (auto simp: growth_clean_def Let_def list_ex_iff)
  obtain h1 where ex: "heap_expand alloc (align_up sz) h p = Some (r, h1, q)"
      and sys: "heap_sys h1 (coal ?bs) (owned q)" and ok: "blocks_ok ?bs" and pl: "payload h1 = payload h"
      and size: "hb_size (block_at h1 r) = bsize ?n"
    using expand_spec [OF assms(1,2,6,7)] nin by blast
  have run: "heap_pages (align_up sz) \<noteq> 0" "unat r + 4096 * unat (heap_pages (align_up sz)) \<le> HEAP_LIMIT"
    using alloc_run [OF assms(1,6,7)] by auto
  note be = bend_region [OF run]
  have le: "align_up (align_up sz) \<le> hb_size (block_at h1 r)"
    using size be(2) sane_request_align(2) [OF assms(4)] by (simp add: align_up_idem word_le_nat_alt)
  have lim: "unat r + 24 + unat (hb_size (block_at h1 r)) \<le> HEAP_LIMIT"
    using be run(2) n(1) size by (simp add: bend_def)
  have apart: "\<forall>y \<in> set (coal ?bs). unat (addr y) < unat r \<or> unat r + 24 + unat (hb_size (block_at h1 r)) \<le> unat (addr y)"
  proof
    fix y assume y: "y \<in> set (coal ?bs)"
    then have "addr y \<in> addr ` set ?bs" using coal_addrs by blast
    then obtain w where w: "w \<in> set ?bs" "addr w = addr y" by (metis imageE)
    have "w \<noteq> ?n" using y nin w(2) n(1) by auto
    then have "bend w \<le> unat (addr ?n) \<or> bend ?n \<le> unat (addr w)"
      using ok w(1) sorted_wrt_pairs [of "\<lambda>x y. bend x \<le> unat (addr y)" ?bs w ?n] by (simp add: blocks_ok_def)
    moreover have "bend ?n = unat r + 24 + unat (hb_size (block_at h1 r))" using size n(1) by (simp add: bend_def)
    ultimately show "unat (addr y) < unat r \<or> unat r + 24 + unat (hb_size (block_at h1 r)) \<le> unat (addr y)"
      using w(2) n(1) addr_lt_bend [of w] by auto
  qed
  have "chain (block_at h1) (heap_head h1) (coal ?bs) 0" "blocks_ok (coal ?bs)" using sys by (simp_all add: heap_sys_def heap_inv_def)
  then obtain h' where h': "take_block r (align_up sz) h1 = (r + HEADER, h')"
      "chain (block_at h') (heap_head h') (coal ?bs) 0" "payload h' = payload h1"
    using take_block_aside [OF _ apart lim le] by blast
  have "find_fit (align_up sz) (heap_head h) h = Some 0"
    using find_fit_spec [of h "heap_head h" bs "align_up sz"] assms(2,5) by (simp add: heap_sys_def heap_inv_def)
  then have "kmalloc alloc sz h p = Some (r + HEADER, h', q)"
    using assms(3,7) ex h'(1) by (simp add: kmalloc_def Let_def)
  then show ?thesis using h'(2,3) pl nin \<open>blocks_ok (coal ?bs)\<close> live_insert_blk [OF n(2)]
    by (simp add: off_list_def)
qed

text \<open>The contract of \<open>kmalloc\<close>, whether growth is clean or not.\<close>

lemma kmalloc_contract:
  assumes "ok p" and "heap_sys h bs (owned p)" and "sane_request sz"
  shows "\<exists>r h' q. kmalloc alloc sz h p = Some (r, h', q) \<and> ok q \<and> owned p \<subseteq> owned q \<and> payload h' = payload h \<and>
    (r = 0 \<longleftrightarrow> sz = 0 \<or> find (fits (align_up sz)) bs = None \<and> (\<exists>q. alloc (heap_pages (align_up sz)) p = Some (0, q))) \<and>
    (if r = 0 then h' = h \<and> q = p
     else if growth_clean alloc sz bs p then \<exists>bs'. heap_sys h' bs' (owned q) \<and> allocated bs sz r bs'
     else \<exists>bs'. off_list bs' (live bs) r h')"
proof (cases "sz = 0")
  case True
  then show ?thesis using assms(1) by simp
next
  case nz: False
  obtain r q where a: "alloc (heap_pages (align_up sz)) p = Some (r, q)"
    using alloc_returns [OF assms(1)] by blast
  show ?thesis
  proof (cases "find (fits (align_up sz)) bs")
    case (Some x)
    then have x: "x \<in> set bs" "fits (align_up sz) x" using find_first_split [OF Some] by auto
    then have "growth_clean alloc sz bs p" by (auto simp: growth_clean_def list_ex_iff)
    moreover have "addr x + HEADER \<noteq> 0" by (rule heap_sys_nonnull(2) [OF assms(2) x(1)])
    moreover obtain h' bs' where "kmalloc alloc sz h p = Some (addr x + HEADER, h', p)" "heap_sys h' bs' (owned p)"
        "allocated bs sz (addr x + HEADER) bs'" "payload h' = payload h"
      using kmalloc_fit [OF assms(1,2) nz assms(3) Some] by blast
    ultimately show ?thesis using assms(1) nz Some by auto
  next
    case None
    show ?thesis
    proof (cases "r = 0")
      case True
      then show ?thesis using kmalloc_no_memory [OF assms(1,2) nz None] None a assms(1) by simp
    next
      case False
      note run = alloc_run [OF assms(1) a False]
      have "unat (r + HEADER) = unat r + 24"
        using run by (subst unat_add64) (simp_all add: unat_gt_0)
      then have r: "r + HEADER \<noteq> 0" by (metis add_is_0 unat_0 zero_neq_numeral)
      obtain h' where "kmalloc alloc sz h p = Some (r + HEADER, h', q)" "payload h' = payload h"
        "if growth_clean alloc sz bs p then \<exists>bs'. heap_sys h' bs' (owned q) \<and> allocated bs sz (r + HEADER) bs'
         else \<exists>bs'. off_list bs' (live bs) (r + HEADER) h'"
        using kmalloc_grow [OF assms(1,2) nz assms(3) None a False] kmalloc_absorbed [OF assms(1,2) nz assms(3) None a False]
        by (cases "growth_clean alloc sz bs p") auto
      then show ?thesis
        using alloc_ok [OF assms(1) a] owned_mono [OF assms(1) a] nz a None False r
        by (intro exI [of _ "r + HEADER"] exI [of _ h'] exI [of _ q]) simp
    qed
  qed
qed

end

text \<open>Growth is clean in particular when no free block precedes the region.\<close>

lemma coal_keeps_head:
  "xs = [] \<or> \<not> isfree (last xs) \<Longrightarrow> addr n \<in> addr ` set (coal (xs @ n # ys))"
proof (induction xs rule: coal.induct)
  case 1
  show ?case using coal_first [of "n # ys"] by (metis append_Nil image_eqI list.sel(1) list.set_sel(1) list.simps(3))
next
  case (2 x)
  then have "\<not> mergeable x n" by (simp add: mergeable_def)
  then show ?case
    using coal_first [of "n # ys"]
    by simp (metis image_eqI list.sel(1) list.set_sel(1) list.simps(3))
next
  case (3 x y zs)
  then show ?case by (cases "mergeable x y"; cases zs) (auto simp: mergeable_def)
qed


section \<open>Freeing and zeroed allocation\<close>

lemma kfree_contract:
  assumes "heap_sys h bs F" and "x \<in> set bs" and "\<not> isfree x"
  shows "\<exists>h' bs'. kfree (addr x + HEADER) h = Some h' \<and> heap_sys h' bs' F \<and> live bs' = live bs - {x} \<and>
    kfree (addr x + HEADER) h' = Some h'"
proof -
  obtain xs ys where bs: "bs = xs @ x # ys" using assms(2) by (metis split_list)
  have inv: "heap_inv h (xs @ x # ys)" and bin: "blocks_in (xs @ x # ys) F"
    using assms(1) bs by (simp_all add: heap_sys_def)
  have ok: "blocks_ok (xs @ x # ys)" using inv by (simp add: heap_inv_def)
  let ?bs = "xs @ (addr x, bsize x, True) # ys"
  have "blocks_ok ?bs" "blocks_in ?bs F"
    using ok bin by (auto simp: blocks_ok_append blocks_ok_simps bend_def frames_of_def)
  then have "blocks_in (coal ?bs) F" by (rule blocks_in_coal)
  moreover have "live (coal ?bs) = live bs - {x}"
  proof -
    have "x \<notin> set xs" "x \<notin> set ys" using blocks_ok_middle [OF ok] by auto
    then have "x \<notin> live xs" "x \<notin> live ys" by (simp_all add: live_def)
    then show ?thesis unfolding live_coal bs using assms(3) by auto
  qed
  moreover obtain h' where "kfree (addr x + HEADER) h = Some h'" "heap_inv h' (coal ?bs)"
      "hb_free (block_at h' (addr x)) \<noteq> 0"
    using kfree_spec [OF inv assms(3)] by blast
  moreover then have "kfree (addr x + HEADER) h' = Some h'" by (simp add: kfree_def)
  ultimately show ?thesis unfolding heap_sys_def by blast
qed

text \<open>The payload of a block in use is all that \<open>kcalloc\<close> zeroes, when the product does not wrap.\<close>

context frame_source
begin

lemma kcalloc_contract:
  assumes "ok p" and "heap_sys h bs (owned p)" and "unat count * unat sz + 6000 < 2 ^ 64"
    and "growth_clean alloc (count * sz) bs p"
  shows "\<exists>r h' q. kcalloc alloc count sz h p = Some (r, h', q) \<and> ok q \<and>
    (if r = 0 then h' = h \<and> q = p
     else \<exists>bs' x. heap_sys h' bs' (owned q) \<and> x \<notin> live bs \<and> live bs' = insert x (live bs) \<and>
       r = addr x + HEADER \<and> {unat r..<unat r + unat count * unat sz} \<subseteq> payload_of x \<and>
       payload h' = kmemset (payload h) r 0 (count * sz))"
proof (cases "count = 0 \<or> sz = 0")
  case True
  then show ?thesis using assms(1) by (auto simp: kcalloc_def)
next
  case False
  have u: "unat (count * sz) = unat count * unat sz"
    using assms(3) by (subst unat_mult_lem [THEN iffD1]) simp_all
  have sane: "sane_request (count * sz)" using assms(3) u by (simp add: sane_request_def)
  obtain r h' q where k: "kmalloc alloc (count * sz) h p = Some (r, h', q)" "ok q" "payload h' = payload h"
      "if r = 0 then h' = h \<and> q = p else \<exists>bs'. heap_sys h' bs' (owned q) \<and> allocated bs (count * sz) r bs'"
    using kmalloc_contract [OF assms(1,2) sane, unfolded if_P [OF assms(4)]] by blast
  show ?thesis
  proof (cases "r = 0")
    case True
    then show ?thesis using False k by (simp add: kcalloc_def)
  next
    case nz: False
    then obtain bs' x where b: "heap_sys h' bs' (owned q)" "x \<notin> live bs" "live bs' = insert x (live bs)"
        "r = addr x + HEADER" "count * sz \<le> bsize x"
      using k(4) by (auto simp: allocated_def)
    have "x \<in> set bs'" using b(3) by (auto simp: live_def)
    then have "bend x \<le> HEAP_LIMIT" using b(1) by (auto simp: heap_sys_def heap_inv_def blocks_ok_def)
    then have "unat r = unat (addr x) + 24" using b(4) unat_payload by simp
    moreover have "unat count * unat sz \<le> unat (bsize x)" using b(5) u by (simp add: word_le_nat_alt)
    ultimately have sub: "{unat r..<unat r + unat count * unat sz} \<subseteq> payload_of x"
      by (simp add: payload_of_def bend_def)
    let ?h = "h'\<lparr>payload := kmemset (payload h') r 0 (count * sz)\<rparr>"
    have "heap_sys ?h bs' (owned q)" using b(1) by (simp add: heap_sys_def heap_inv_def)
    moreover have "kcalloc alloc count sz h p = Some (r, ?h, q)"
      using False nz k(1) by (simp add: kcalloc_def Let_def)
    moreover have "payload ?h = kmemset (payload h) r 0 (count * sz)" using k(3) by simp
    ultimately have "\<exists>bs' x. heap_sys ?h bs' (owned q) \<and> x \<notin> live bs \<and> live bs' = insert x (live bs) \<and>
       r = addr x + HEADER \<and> {unat r..<unat r + unat count * unat sz} \<subseteq> payload_of x \<and>
       payload ?h = kmemset (payload h) r 0 (count * sz)"
      using b(2-4) sub by blast
    with \<open>kcalloc alloc count sz h p = Some (r, ?h, q)\<close> nz k(2) show ?thesis by metis
  qed
qed

end


section \<open>Runs of the heap\<close>

text \<open>
  Clients allocate and free in any order.  A state is the heap, the frame source and the allocations the
  clients hold, each a pointer with the size that was asked for; they free only what they hold, by its
  place in that list.
\<close>

fun heap_do ::
    "(u64 \<Rightarrow> 'p \<Rightarrow> (u64 \<times> 'p) option) \<Rightarrow> client_op \<Rightarrow> heap \<times> 'p \<times> (u64 \<times> u64) list \<Rightarrow> (heap \<times> 'p \<times> (u64 \<times> u64) list) option" where
  "heap_do alloc (Request sz) (h, p, held) =
     do { (r, h', q) \<leftarrow> kmalloc alloc sz h p; Some (h', q, if r = 0 then held else (r, sz) # held) }"
| "heap_do alloc (Release k) (h, p, held) =
     (if k < length held then do { h' \<leftarrow> kfree (fst (held ! k)) h; Some (h', p, remove_nth k held) }
      else Some (h, p, held))"

text \<open>Whether the list of the heap has a block at an address, and whether it has every held block.\<close>

partial_function (option) on_list :: "u64 \<Rightarrow> u64 \<Rightarrow> heap \<Rightarrow> bool option" where
  "on_list a block h =
     (if block = 0 then Some False else if block = a then Some True else on_list a (hb_next (block_at h block)) h)"

declare on_list.simps [code]

lemma on_list_chain: "chain (block_at h) p bs 0 \<Longrightarrow> on_list a p h = Some (a \<in> addr ` set bs)"
proof (induction bs arbitrary: p)
  case Nil
  then show ?case by (subst on_list.simps) simp
next
  case (Cons x bs)
  then have "on_list a (hb_next (block_at h (addr x))) h = Some (a \<in> addr ` set bs)" "addr x \<noteq> 0" "p = addr x"
    by (simp_all add: holds_blk_def)
  then show ?case by (subst on_list.simps) auto
qed

definition all_listed :: "heap \<times> 'p \<times> (u64 \<times> u64) list \<Rightarrow> bool" where
  "all_listed s = (case s of (h, p, held) \<Rightarrow>
     list_all (\<lambda>(r, sz). on_list (r - HEADER) (heap_head h) h = Some True) held)"

text \<open>A run whose held blocks are on the list after every operation.\<close>

fun heap_run ::
    "(u64 \<Rightarrow> 'p \<Rightarrow> (u64 \<times> 'p) option) \<Rightarrow> client_op list \<Rightarrow> heap \<times> 'p \<times> (u64 \<times> u64) list \<Rightarrow> (heap \<times> 'p \<times> (u64 \<times> u64) list) option" where
  "heap_run alloc [] s = Some s"
| "heap_run alloc (x # xs) s = do { t \<leftarrow> heap_do alloc x s; heap_run alloc xs t }"

fun run_listed ::
    "(u64 \<Rightarrow> 'p \<Rightarrow> (u64 \<times> 'p) option) \<Rightarrow> client_op list \<Rightarrow> heap \<times> 'p \<times> (u64 \<times> u64) list \<Rightarrow> bool" where
  "run_listed alloc [] s \<longleftrightarrow> True"
| "run_listed alloc (x # xs) s \<longleftrightarrow>
     (case heap_do alloc x s of None \<Rightarrow> True | Some t \<Rightarrow> all_listed t \<and> run_listed alloc xs t)"

fun sane_op :: "client_op \<Rightarrow> bool" where
  "sane_op (Request sz) \<longleftrightarrow> sane_request sz"
| "sane_op (Release k) \<longleftrightarrow> True"

text \<open>Every held allocation is a block in use that is large enough, no two are the same block.\<close>

definition held_ok :: "(u64 \<times> u64) set \<Rightarrow> blk list \<Rightarrow> bool" where
  "held_ok held bs \<longleftrightarrow>
     (\<forall>(r, sz) \<in> held. \<exists>x \<in> live bs. r = addr x + HEADER \<and> sz \<le> bsize x) \<and>
     (\<forall>a \<in> held. \<forall>b \<in> held. fst a = fst b \<longrightarrow> a = b)"

lemma held_okD: "held_ok held bs \<Longrightarrow> c \<in> held \<Longrightarrow> \<exists>x \<in> live bs. fst c = addr x + HEADER \<and> snd c \<le> bsize x"
  unfolding held_ok_def by (cases c) (simp only: split_beta fst_conv snd_conv, fastforce)

lemma held_ok_unique: "held_ok held bs \<Longrightarrow> a \<in> held \<Longrightarrow> b \<in> held \<Longrightarrow> fst a = fst b \<Longrightarrow> a = b"
  unfolding held_ok_def by blast

definition held_bytes :: "u64 \<times> u64 \<Rightarrow> nat set" where
  "held_bytes a = {unat (fst a)..<unat (fst a) + unat (snd a)}"

lemma live_same_addr:
  assumes "blocks_ok bs" and "x \<in> live bs" and "y \<in> set bs" and "addr x = addr y"
  shows "x = y"
  using blocks_ok_distinct [OF assms(1)] assms(2-4) unfolding distinct_map inj_on_def live_def by auto

lemma held_ok_fresh:
  assumes "held_ok held bs" and "blocks_ok bs'" and "allocated bs sz r bs'" and "b \<in> held"
  shows "r \<noteq> fst b"
proof
  assume "r = fst b"
  obtain x where x: "x \<notin> live bs" "live bs' = insert x (live bs)" "r = addr x + HEADER"
    using assms(3) by (auto simp: allocated_def)
  obtain y where y: "y \<in> live bs" "fst b = addr y + HEADER" using held_okD [OF assms(1,4)] by blast
  then have "addr y = addr x" using \<open>r = fst b\<close> x(3) by simp
  moreover have "y \<in> live bs'" "x \<in> set bs'" using y x(2) by (auto simp: live_def)
  ultimately have "y = x" using live_same_addr [OF assms(2)] by blast
  then show False using y x(1) by simp
qed

lemma held_ok_new:
  assumes "held_ok held bs" and "blocks_ok bs'" and "allocated bs sz r bs'"
  shows "(r, sz) \<notin> held"
  using held_ok_fresh [OF assms, of "(r, sz)"] by auto

lemma held_ok_alloc:
  assumes "held_ok held bs" and "blocks_ok bs'" and "allocated bs sz r bs'"
  shows "held_ok (insert (r, sz) held) bs'"
proof -
  obtain x where x: "live bs' = insert x (live bs)" "r = addr x + HEADER" "sz \<le> bsize x"
    using assms(3) by (auto simp: allocated_def)
  have "r \<noteq> fst b" if "b \<in> held" for b using held_ok_fresh [OF assms that] .
  then show ?thesis using assms(1) x unfolding held_ok_def by fastforce
qed

lemma held_ok_free:
  assumes "held_ok held bs" and "blocks_ok bs" and "(r, sz) \<in> held"
    and "x \<in> live bs" and "r = addr x + HEADER" and "live bs' = live bs - {x}"
  shows "held_ok (held - {(r, sz)}) bs'"
proof -
  have "\<exists>y \<in> live bs'. a = addr y + HEADER \<and> s \<le> bsize y" if a: "(a, s) \<in> held" "(a, s) \<noteq> (r, sz)" for a s
  proof -
    obtain y where y: "y \<in> live bs" "a = addr y + HEADER" "s \<le> bsize y" using held_okD [OF assms(1) a(1)] by auto
    have "a \<noteq> r" using held_ok_unique [OF assms(1,3) a(1)] a(2) by auto
    then have "y \<noteq> x" using y(2) assms(5) by auto
    then show ?thesis using y assms(6) by blast
  qed
  then show ?thesis using assms(1) unfolding held_ok_def by blast
qed

definition heap_state_ok :: "('p \<Rightarrow> nat set) \<Rightarrow> ('p \<Rightarrow> bool) \<Rightarrow> heap \<times> 'p \<times> (u64 \<times> u64) list \<Rightarrow> bool" where
  "heap_state_ok owned ok s \<longleftrightarrow> (case s of (h, p, held) \<Rightarrow>
     ok p \<and> distinct held \<and> (\<exists>bs. heap_sys h bs (owned p) \<and> held_ok (set held) bs))"

lemma heap_sys_blocks_ok: "heap_sys h bs F \<Longrightarrow> blocks_ok bs"
  by (simp add: heap_sys_def heap_inv_def)

lemma held_disjoint:
  assumes "blocks_ok bs" and "held_ok held bs" and "a \<in> held" and "b \<in> held" and "a \<noteq> b"
  shows "held_bytes a \<inter> held_bytes b = {}"
proof -
  have sub: "\<exists>x \<in> live bs. fst c = addr x + HEADER \<and> held_bytes c \<subseteq> payload_of x" if c: "c \<in> held" for c
  proof -
    obtain x where x: "x \<in> live bs" "fst c = addr x + HEADER" "snd c \<le> bsize x"
      using held_okD [OF assms(2) c] by blast
    then have "bend x \<le> HEAP_LIMIT" using assms(1) by (auto simp: blocks_ok_def live_def)
    then have "unat (fst c) = unat (addr x) + 24" using x(2) unat_payload by simp
    moreover have "unat (snd c) \<le> unat (bsize x)" using x(3) by (simp add: word_le_nat_alt)
    ultimately have "held_bytes c \<subseteq> payload_of x"
      unfolding held_bytes_def payload_of_def bend_def by (intro ivl_subset [THEN iffD2]) simp
    then show ?thesis using x by blast
  qed
  obtain x y where x: "x \<in> live bs" "fst a = addr x + HEADER" "held_bytes a \<subseteq> payload_of x"
      and y: "y \<in> live bs" "fst b = addr y + HEADER" "held_bytes b \<subseteq> payload_of y"
    using sub [OF assms(3)] sub [OF assms(4)] by blast
  have "fst a \<noteq> fst b" using held_ok_unique [OF assms(2-4)] assms(5) by blast
  then have "x \<noteq> y" using x y by auto
  then have "payload_of x \<inter> payload_of y = {}"
    using blocks_disjoint(1) [OF assms(1)] x(1) y(1) by (simp add: live_def)
  then show ?thesis using x(3) y(3) by blast
qed

context frame_source
begin

lemma heap_do_ok:
  assumes "heap_state_ok owned ok s" and "sane_op x"
  shows "\<exists>t. heap_do alloc x s = Some t \<and> (all_listed t \<longrightarrow> heap_state_ok owned ok t)"
proof -
  obtain h p held where s: "s = (h, p, held)" by (cases s)
  then obtain bs where inv: "ok p" "distinct held" "heap_sys h bs (owned p)" "held_ok (set held) bs"
    using assms(1) by (auto simp: heap_state_ok_def)
  note ok = heap_sys_blocks_ok
  show ?thesis
  proof (cases x)
    case (Request sz)
    then have "sane_request sz" using assms(2) by simp
    then obtain r h' q where k: "kmalloc alloc sz h p = Some (r, h', q)" "ok q"
        "if r = 0 then h' = h \<and> q = p
         else if growth_clean alloc sz bs p then \<exists>bs'. heap_sys h' bs' (owned q) \<and> allocated bs sz r bs'
         else \<exists>bs'. off_list bs' (live bs) r h'"
      using kmalloc_contract [OF inv(1,3)] by blast
    let ?t = "(h', q, if r = 0 then held else (r, sz) # held)"
    have "heap_state_ok owned ok ?t" if l: "all_listed ?t" and r: "r \<noteq> 0"
    proof -
      have "on_list (r - HEADER) (heap_head h') h' = Some True" using l r by (simp add: all_listed_def)
      then have "growth_clean alloc sz bs p" using k(3) r on_list_chain by (fastforce simp: off_list_def split: if_splits)
      then obtain bs' where b: "heap_sys h' bs' (owned q)" "allocated bs sz r bs'" using k(3) r by auto
      have "held_ok (insert (r, sz) (set held)) bs'" by (rule held_ok_alloc [OF inv(4) ok [OF b(1)] b(2)])
      moreover have "(r, sz) \<notin> set held" by (rule held_ok_new [OF inv(4) ok [OF b(1)] b(2)])
      ultimately show ?thesis using k(2) inv(2) b(1) r by (auto simp: heap_state_ok_def)
    qed
    moreover have "heap_state_ok owned ok ?t" if "r = 0" using k(3) that assms(1) s by simp
    ultimately show ?thesis using Request k(1) s by (intro exI [of _ ?t]) auto
  next
    case (Release i)
    show ?thesis
    proof (cases "i < length held")
      case True
      obtain r sz where c: "held ! i = (r, sz)" by (cases "held ! i")
      then have m: "(r, sz) \<in> set held" using True by (metis nth_mem)
      obtain x where x: "x \<in> live bs" "r = addr x + HEADER" using held_okD [OF inv(4) m] by auto
      then have xs: "x \<in> set bs" "\<not> isfree x" by (simp_all add: live_def)
      obtain h' bs' where k: "kfree r h = Some h'" "heap_sys h' bs' (owned p)" "live bs' = live bs - {x}"
        using kfree_contract [OF inv(3) xs] x(2) by blast
      have "held_ok (set held - {(r, sz)}) bs'"
        by (rule held_ok_free [OF inv(4) ok [OF inv(3)] m x k(3)])
      then have "heap_state_ok owned ok (h', p, remove_nth i held)"
        using inv(1) k(2) remove_nth_distinct [OF inv(2) True] c by (auto simp: heap_state_ok_def)
      then show ?thesis using Release True k(1) s c by simp
    next
      case False
      then show ?thesis using Release s assms(1) by simp
    qed
  qed
qed

lemma heap_run_ok:
  assumes "heap_state_ok owned ok s" and "\<forall>x \<in> set ops. sane_op x" and "run_listed alloc ops s"
  shows "\<exists>t. heap_run alloc ops s = Some t \<and> heap_state_ok owned ok t"
  using assms
proof (induction ops arbitrary: s)
  case (Cons x xs)
  have "sane_op x" using Cons.prems(2) by simp
  then obtain t where t: "heap_do alloc x s = Some t" "all_listed t \<longrightarrow> heap_state_ok owned ok t"
    using heap_do_ok [OF Cons.prems(1)] by blast
  then show ?case using Cons.IH [of t] Cons.prems(2,3) by simp
qed simp

lemma heap_run_disjoint:
  assumes "ok p0" and "\<forall>x \<in> set ops. sane_op x" and "run_listed alloc ops (heap_init h0, p0, [])"
  shows "\<exists>h p held. heap_run alloc ops (heap_init h0, p0, []) = Some (h, p, held) \<and> apart held_bytes held"
proof -
  have "heap_state_ok owned ok (heap_init h0, p0, [])"
    using assms(1) by (auto simp: heap_state_ok_def heap_sys_def held_ok_def intro!: exI [of _ "[]"] heap_inv_init)
  then obtain h p held where t: "heap_run alloc ops (heap_init h0, p0, []) = Some (h, p, held)"
      "heap_state_ok owned ok (h, p, held)"
    using heap_run_ok [OF _ assms(2,3)] by (metis prod_cases3)
  then obtain bs where "distinct held" "heap_sys h bs (owned p)" "held_ok (set held) bs" by (auto simp: heap_state_ok_def)
  then have "apart held_bytes held" using held_disjoint [OF heap_sys_blocks_ok] by (intro apartI) blast+
  then show ?thesis using t(1) by blast
qed

end

section \<open>Properties\<close>

text \<open>The heap before the first call, and a machine with every frame but the first free.\<close>

definition empty_heap :: heap where
  "empty_heap = \<lparr>heap_head = 0, total_bytes = 0, used_bytes = 0,
     block_at = (\<lambda>_. \<lparr>hb_size = 0, hb_next = 0, hb_free = 0\<rparr>), payload = (\<lambda>_. 0)\<rparr>"

definition open_pmm :: pmm where
  "open_pmm = \<lparr>frame_bitmap = (\<lambda>_. 0)(0 := 1), frame_limit = PMM_MAX_FRAMES, total_frames = PMM_MAX_FRAMES,
     free_frames = 0x3FFFF\<rparr>"

lemma open_pmm_used: "used_frames open_pmm = {0}"
proof -
  have "bit (frame_bitmap open_pmm (of_nat (f div 8))) (f mod 8) \<longleftrightarrow> f = 0" if "f < 0x40000" for f
  proof -
    have "(of_nat (f div 8) :: u64) = 0 \<longleftrightarrow> f div 8 = 0"
      using that by (subst of_nat_byte_eq [of _ 0, simplified]) auto
    then show ?thesis by (auto simp: open_pmm_def bit_1_iff)
  qed
  from this [of 0] this show ?thesis by (auto simp: used_frames_def)
qed

lemma open_pmm_ok: "pmm_ok open_pmm"
proof -
  have "card (free_set open_pmm) = 0x3FFFF" by (simp add: free_set_def open_pmm_used)
  then show ?thesis by (simp add: pmm_ok_def pmm_wf_def open_pmm_used) (simp add: open_pmm_def)
qed

lemma empty_heap_init: "heap_init empty_heap = empty_heap"
  by (simp add: heap_init_def empty_heap_def)

lemma heap_inv_empty: "heap_inv empty_heap bs \<longleftrightarrow> bs = []"
  using heap_inv_init [of empty_heap] chain_null [of "block_at empty_heap" bs]
  by (auto simp: heap_inv_def empty_heap_init)

lemma pages_nonzero: "sane_request sz \<Longrightarrow> heap_pages (align_up sz) \<noteq> 0"
  using sane_request_align(2) [of sz] by auto

lemma find_fits_none: "find P bs = None \<longleftrightarrow> (\<forall>x \<in> set bs. \<not> P x)"
  by (auto simp: find_None_iff)

lemma empty_heap_sys: "heap_sys empty_heap [] F"
  by (simp add: heap_sys_def heap_inv_empty)

lemma empty_growth_clean: "growth_clean alloc sz [] p"
  by (auto simp: growth_clean_def insert_blk_def region_blk_def Let_def split: option.splits)

text \<open>C2: \<open>kmalloc\<close> returns for every request that does not wrap.  It gives null exactly for size 0
  or when neither the list nor the frame allocator has room, and then changes nothing.  Otherwise no
  payload byte changes, and if growth is clean (a block of the list fits, or the new region still starts
  a block after coalescing) the pointer is the payload of a block of at least the requested size that was
  not in use, every other block in use stays as it was, and the list, its layout, the counter of used bytes
  and the ownership of its frames are kept.  If growth is not clean, because the new region was merged into
  the free block before it, the block handed out is not on the list and no block of the list is taken.\<close>

theorem kmalloc_correct:
  assumes "pmm_ok p" and "heap_sys h bs (used_frames p)" and "sane_request sz"
  shows "\<exists>r h' q. kmalloc pmm_alloc_frames sz h p = Some (r, h', q) \<and> pmm_ok q \<and> payload h' = payload h \<and>
    (r = 0 \<longleftrightarrow> sz = 0 \<or> (\<forall>x \<in> set bs. \<not> fits (align_up sz) x) \<and>
       (\<nexists>f. run_free p (unat (heap_pages (align_up sz))) f)) \<and>
    (if r = 0 then h' = h \<and> q = p
     else if growth_clean pmm_alloc_frames sz bs p then \<exists>bs'. heap_sys h' bs' (used_frames q) \<and> allocated bs sz r bs'
     else \<exists>bs'. off_list bs' (live bs) r h')"
proof -
  let ?c = "heap_pages (align_up sz)"
  have c: "?c \<noteq> 0" "0 < unat ?c" using pages_nonzero [OF assms(3)] by (simp_all add: unat_gt_0)
  have p: "pmm_wf p" "0 \<in> used_frames p" using assms(1) by (simp_all add: pmm_ok_def)
  obtain r t where a: "pmm_alloc_frames ?c p = Some (r, t)" "alloc_result p (unat ?c) r t"
    using pmm_alloc_frames_spec [OF p(1), of ?c] c(1) by auto
  then have "(\<exists>q. pmm_alloc_frames ?c p = Some (0, q)) \<longleftrightarrow> (\<nexists>f. run_free p (unat ?c) f)"
    using alloc_result_reserve_frame0(1) [OF a(2) p(2) c(2)] by auto
  then show ?thesis using frames.kmalloc_contract [OF assms] unfolding find_fits_none by metis
qed

theorem kmalloc_correct_witness:
  "\<exists>s r h' q bs'. pmm_init example_boot example_map pmm_static = Some s \<and>
     kmalloc pmm_alloc_frames 5000 empty_heap s = Some (r, h', q) \<and> r \<noteq> 0 \<and>
     heap_sys h' bs' (used_frames q) \<and> allocated [] 5000 r bs'"
proof -
  obtain s where s: "pmm_init example_boot example_map pmm_static = Some s" "pmm_ok s"
      "used_frames s = {..<0x40000} - {264..<320}"
    by (rule example_init)
  have "align_up 5000 = 5008" "heap_pages 5008 = 2" by (simp_all add: align_up_def heap_pages_def)
  moreover have "run_free s 2 264" by (auto simp: run_free_def s(3))
  moreover have "sane_request 5000" by (simp add: sane_request_def)
  ultimately show ?thesis
    using kmalloc_correct [OF s(2) empty_heap_sys \<open>sane_request 5000\<close>, unfolded if_P [OF empty_growth_clean]] s(1) by fastforce
qed



text \<open>C4: \<open>kfree\<close> of null or of a block that is already free changes nothing.  \<open>kfree\<close> of a pointer to a
  block in use returns, takes exactly that block out of use and keeps the heap well formed (coalescing
  included); freeing the same pointer once more right after it changes nothing either, also when the
  block was merged into the one before it and is no longer on the list.\<close>

theorem kfree_correct:
  assumes "heap_sys h bs F" and "x \<in> set bs"
  shows "kfree 0 h = Some h \<and>
    (if isfree x then kfree (addr x + HEADER) h = Some h
     else \<exists>h' bs'. kfree (addr x + HEADER) h = Some h' \<and> heap_sys h' bs' F \<and> live bs' = live bs - {x} \<and>
       unat (heap_used_bytes h') + unat (bsize x) = unat (heap_used_bytes h) \<and> kfree (addr x + HEADER) h' = Some h')"
proof (cases "isfree x")
  case True
  then show ?thesis using kfree_free [OF _ assms(2)] assms(1) by (simp add: heap_sys_def)
next
  case False
  obtain xs ys where bs: "bs = xs @ x # ys" using assms(2) by (metis split_list)
  then have inv: "heap_inv h (xs @ x # ys)" using assms(1) by (simp add: heap_sys_def)
  let ?bs = "coal (xs @ (addr x, bsize x, True) # ys)"
  obtain h' where k: "kfree (addr x + HEADER) h = Some h'" "heap_inv h' ?bs"
    using kfree_spec [OF inv False] by blast
  have "blocks_ok (xs @ (addr x, bsize x, True) # ys)"
    using inv by (auto simp: heap_inv_def blocks_ok_append blocks_ok_simps bend_def)
  then have "used_sum ?bs = used_sum (xs @ ys)" by (simp add: coal_ok)
  then have "unat (heap_used_bytes h') + unat (bsize x) = unat (heap_used_bytes h)"
    using k(2) inv False by (simp add: heap_inv_def heap_used_bytes_def)
  then show ?thesis using kfree_contract [OF assms False] k(1) False by auto
qed

theorem kfree_correct_witness:
  "\<exists>h bs x h' bs'. heap_sys h bs {0, 1} \<and> x \<in> live bs \<and> kfree (addr x + HEADER) h = Some h' \<and>
     heap_sys h' bs' {0, 1} \<and> live bs' = {} \<and> kfree (addr x + HEADER) h' = Some h'"
proof -
  have "holds_blk (\<lambda>_. \<lparr>hb_size = 4072, hb_next = 0, hb_free = 0\<rparr>) (0x1000, 4072, False)"
    by (simp add: holds_blk_def)
  then have "heap_sys \<lparr>heap_head = 0x1000, total_bytes = 4072, used_bytes = 4072,
      block_at = (\<lambda>_. \<lparr>hb_size = 4072, hb_next = 0, hb_free = 0\<rparr>), payload = (\<lambda>_. 0)\<rparr> [(0x1000, 4072, False)] {0, 1}"
    by (auto simp: heap_sys_def heap_inv_def blocks_ok_simps bend_def frames_of_def)
  from kfree_correct [OF this, of "(0x1000, 4072, False)"] this show ?thesis by (fastforce simp: live_def)
qed

text \<open>When the product does not wrap, \<open>kcalloc\<close> behaves as \<open>kmalloc\<close> of the product and zeroes
  exactly the bytes of the allocation, all inside the payload of the block.\<close>

lemma kcalloc_correct:
  assumes "pmm_ok p" and "heap_sys h bs (used_frames p)" and "unat count * unat sz + 6000 < 2 ^ 64"
    and "growth_clean pmm_alloc_frames (count * sz) bs p"
  shows "\<exists>r h' q. kcalloc pmm_alloc_frames count sz h p = Some (r, h', q) \<and> pmm_ok q \<and>
    (if r = 0 then h' = h \<and> q = p
     else \<exists>bs' x. heap_sys h' bs' (used_frames q) \<and> x \<notin> live bs \<and> live bs' = insert x (live bs) \<and>
       r = addr x + HEADER \<and> {unat r..<unat r + unat count * unat sz} \<subseteq> payload_of x \<and>
       (\<forall>a. payload h' a = (if a - r < count * sz then 0 else payload h a)))"
  using frames.kcalloc_contract [OF assms] by (elim exE conjE) (fastforce simp: kmemset_fill)

section \<open>Where the code breaks the contract\<close>

lemma coal_after:
  "successively (\<lambda>x y. \<not> mergeable x y) (xs @ [x]) \<Longrightarrow> coal (xs @ x # zs) = xs @ coal (x # zs)"
proof (induction xs)
  case (Cons w ws)
  then show ?case by (cases ws) simp_all
qed simp

lemma find_append_none: "\<forall>y \<in> set xs. \<not> P y \<Longrightarrow> find P (xs @ ys) = find P ys"
  by (induction xs) auto

text \<open>A region that starts where a free block ends is merged into it.\<close>

lemma region_absorbed:
  assumes "blocks_ok (insert_blk n (xs @ x # ys))" and "successively (\<lambda>x y. \<not> mergeable x y) (xs @ x # ys)"
    and "isfree x" and "isfree n" and "unat (bsize x) mod 16 = 0" and "unat (addr n) = bend x" and "blocks_ok (xs @ x # ys)"
  shows "\<exists>z zs. coal (insert_blk n (xs @ x # ys)) = xs @ z # zs \<and> addr z = addr x \<and> isfree z \<and>
    unat (bsize x) + 24 + unat (bsize n) \<le> unat (bsize z) \<and> addr n \<notin> addr ` set (coal (insert_blk n (xs @ x # ys)))"
proof -
  have lt: "addr w < addr n" if "w \<in> set (xs @ [x])" for w
  proof -
    have "bend w \<le> bend x" using that assms(7) addr_lt_bend [of x] by (auto simp: blocks_ok_append blocks_ok_simps)
    then show ?thesis using addr_lt_bend [of w] assms(6) by (simp add: word_less_nat_alt)
  qed
  moreover have "\<not> addr w < addr n" if "w \<in> set ys" for w
    using that assms(6,7) by (auto simp: blocks_ok_append blocks_ok_simps word_less_nat_alt)
  then have "takeWhile (\<lambda>w. addr w < addr n) ys = []" "dropWhile (\<lambda>w. addr w < addr n) ys = ys" by (cases ys; simp)+
  ultimately have ins: "insert_blk n (xs @ x # ys) = xs @ x # n # ys"
    using takeWhile_append2 [of "xs @ [x]" "\<lambda>w. addr w < addr n" ys] dropWhile_append2 [of "xs @ [x]" "\<lambda>w. addr w < addr n" ys]
    by (simp add: insert_blk_def)
  have ok: "blocks_ok (xs @ x # n # ys)" using assms(1) ins by simp
  have lim: "bend x \<le> HEAP_LIMIT" "bend n \<le> HEAP_LIMIT" "bend x \<le> unat (addr n)"
    using ok by (auto simp: blocks_ok_append blocks_ok_simps)
  have "unat (align_up (bsize x)) = unat (bsize x)"
    using assms(5) lim(1) by (subst align_up_bounds) (simp_all add: bend_def, presburger)
  then have "unat (addr x + HEADER + align_up (bsize x)) = unat (addr n)"
    using lim(1) assms(6) unat_payload [OF lim(1)] by (subst unat_add64) (simp_all add: bend_def)
  then have m: "mergeable x n" using assms(3,4) by (simp add: mergeable_def word_eq_iff_unsigned [where 'a = nat])
  have "successively (\<lambda>x y. \<not> mergeable x y) (xs @ [x])"
    using assms(2) successively_append_iff [of _ "xs @ [x]" ys] by simp
  then have c: "coal (insert_blk n (xs @ x # ys)) = xs @ coal (merge x n # ys)"
    using m unfolding ins by (simp add: coal_after)
  obtain z zs where z: "coal (merge x n # ys) = z # zs" "addr z = addr x"
    using coal_first [of "merge x n # ys"] by (cases "coal (merge x n # ys)") auto
  have okm: "blocks_ok (merge x n # ys)"
    using ok merge_layout(1) [OF m lim(3,2)] by (auto simp: blocks_ok_append blocks_ok_simps)
  obtain u where u: "u \<in> set (merge x n # ys)" "addr u = addr z" "isfree u = isfree z" "unat (bsize u) \<le> unat (bsize z)"
    using coal_grows [OF okm, of z] z(1) by (metis list.set_intros(1))
  have "addr x \<notin> addr ` set ys" using blocks_ok_middle(2) [OF ok] by auto
  then have "u = merge x n" using u(1,2) z(2) by (metis imageI set_ConsD)
  then have "isfree z" "unat (bsize x) + 24 + unat (bsize n) \<le> unat (bsize z)"
    using u(3,4) assms(3) merge_layout(2) [OF m lim(3,2)] by simp_all
  moreover have "addr n \<notin> addr ` set (coal (insert_blk n (xs @ x # ys)))"
  proof -
    have "addr ` set (coal (merge x n # ys)) \<subseteq> insert (addr x) (addr ` set ys)" using coal_addrs [of "merge x n # ys"] by simp
    moreover have "addr n \<notin> addr ` set (xs @ [x])" "addr n \<notin> addr ` set ys"
      using blocks_ok_middle [of "xs @ [x]" n ys] ok by simp_all
    ultimately show ?thesis unfolding c by auto
  qed
  ultimately show ?thesis using c z by auto
qed

lemma chain_unique: "chain B p xs 0 \<Longrightarrow> chain B p ys 0 \<Longrightarrow> xs = ys"
proof (induction xs arbitrary: p ys)
  case Nil
  then show ?case by (cases ys) (auto simp: holds_blk_def)
next
  case (Cons x xs)
  then obtain y ys' where "ys = y # ys'" by (cases ys) (auto simp: holds_blk_def)
  moreover then have "x = y" using Cons.prems by (auto simp: holds_blk_def prod_eq_iff)
  ultimately show ?case using Cons by auto
qed

text \<open>C34: \<open>heap_expand\<close> returns the region although \<open>heap_coalesce\<close> has merged it into the free block
  before it.  So whenever no block fits, the frame allocator answers with the frames right after a free
  block \<open>x\<close> (whose size is a multiple of 16, in a heap that is coalesced) and the next request is one that
  only the merged block fits and that reaches past \<open>x\<close>, \<open>kmalloc\<close> hands out two allocations that overlap.\<close>

theorem kmalloc_overlap:
  assumes "pmm_ok p" and "heap_sys h bs (used_frames p)" and "successively (\<lambda>x y. \<not> mergeable x y) bs"
    and "x \<in> set bs" and "isfree x" and "unat (bsize x) mod 16 = 0"
    and "sz \<noteq> 0" and "sane_request sz" and "\<forall>y \<in> set bs. \<not> fits (align_up sz) y"
    and "pmm_alloc_frames (heap_pages (align_up sz)) p = Some (r, q)" and "unat r = bend x"
    and "\<forall>y \<in> set bs. \<not> fits (align_up sz2) y" and "unat (bsize x) + 24 < unat sz2"
    and "unat (align_up sz2) \<le> unat (bsize x) + 4096 * unat (heap_pages (align_up sz))"
  shows "\<exists>h1 h2. kmalloc pmm_alloc_frames sz h p = Some (r + HEADER, h1, q) \<and>
    kmalloc pmm_alloc_frames sz2 h1 q = Some (addr x + HEADER, h2, q) \<and>
    held_bytes (r + HEADER, sz) \<inter> held_bytes (addr x + HEADER, sz2) \<noteq> {}"
proof -
  let ?c = "heap_pages (align_up sz)"
  let ?n = "region_blk r ?c"
  obtain xs ys where bs: "bs = xs @ x # ys" using assms(4) by (metis split_list)
  have okb: "blocks_ok bs" "blocks_in bs (used_frames p)" using assms(2) by (simp_all add: heap_sys_def heap_inv_def)
  have lim: "bend x \<le> HEAP_LIMIT" "addr x \<noteq> 0" using okb(1) assms(4) by (auto simp: blocks_ok_def)
  have r: "r \<noteq> 0" using assms(11) addr_lt_bend [of x] by auto
  have run: "?c \<noteq> 0" "unat r mod 4096 = 0" "unat r + 4096 * unat ?c \<le> HEAP_LIMIT" "frame_run r ?c \<inter> used_frames p = {}"
    using frames.alloc_run [OF assms(1,10) r] by simp_all
  have n: "addr ?n = r" "isfree ?n" by (simp_all add: region_blk_def)
  have "unat (addr ?n) = bend x" using n(1) assms(11) by simp
  then obtain z zs where z: "coal (insert_blk ?n bs) = xs @ z # zs" "addr z = addr x" "isfree z"
      "unat (bsize x) + 24 + unat (bsize ?n) \<le> unat (bsize z)" "r \<notin> addr ` set (coal (insert_blk ?n bs))"
    using region_absorbed [of ?n xs x ys] region_between [OF okb r run] assms(3,5,6) okb(1) n bs by auto
  have nf: "find (fits (align_up sz)) bs = None" using assms(9) by (auto simp: find_None_iff)
  have "\<not> growth_clean pmm_alloc_frames sz bs p"
    using assms(9,10) r z(5) by (auto simp: growth_clean_def list_ex_iff Let_def)
  then obtain h1 where h1: "kmalloc pmm_alloc_frames sz h p = Some (r + HEADER, h1, q)"
      "off_list (coal (insert_blk ?n bs)) (live bs) (r + HEADER) h1"
    using frames.kmalloc_absorbed [OF assms(1,2,7,8) nf assms(10) r] by blast
  have "fits (align_up sz2) z"
    using z(3,4) assms(14) bend_region(2) [OF run(1,3)] run(1) by (simp add: fits_def word_le_nat_alt unat_gt_0)
  then have "find (fits (align_up sz2)) (coal (insert_blk ?n bs)) = Some z"
    unfolding z(1) using assms(12) bs by (simp add: find_append_none)
  then have "find_fit (align_up sz2) (heap_head h1) h1 = Some (addr x)"
    using find_fit_spec [of h1 "heap_head h1" "coal (insert_blk ?n bs)" "align_up sz2"] h1(2) z(2) by (simp add: off_list_def)
  moreover have "sz2 \<noteq> 0" using assms(13) by auto
  ultimately obtain h2 where "kmalloc pmm_alloc_frames sz2 h1 q = Some (addr x + HEADER, h2, q)"
    using lim(2) by (simp add: kmalloc_def take_block_def Let_def)
  moreover have "unat (r + HEADER) \<in> held_bytes (r + HEADER, sz) \<inter> held_bytes (addr x + HEADER, sz2)"
  proof -
    have "unat (r + HEADER) = bend x + 24" using assms(11) lim(1) by (subst unat_add64) simp_all
    moreover have "0 < unat sz" using assms(7) by (simp add: unat_gt_0)
    ultimately show ?thesis using unat_payload [OF lim(1)] assms(13) by (simp add: held_bytes_def bend_def)
  qed
  ultimately show ?thesis using h1(1) by blast
qed

theorem kmalloc_overlap_witness:
  "\<exists>h p h1 q h2. kmalloc pmm_alloc_frames 64 empty_heap open_pmm = Some (0x1018, h, p) \<and>
     kmalloc pmm_alloc_frames 4000 h p = Some (0x2018, h1, q) \<and>
     kmalloc pmm_alloc_frames 5000 h1 q = Some (0x1070, h2, q) \<and>
     held_bytes (0x2018, 4000) \<inter> held_bytes (0x1070, 5000) \<noteq> {}"
proof -
  let ?bs = "[(0x1000, 64, False), (0x1058, 3984, True)]"
  have s: "sane_request 64" "sane_request 4000" by code_simp+
  have "map_option (\<lambda>(r, h, p). (r, heap_head h, hb_size (block_at h 0x1000), hb_next (block_at h 0x1000), hb_free (block_at h 0x1000),
      hb_size (block_at h 0x1058), hb_next (block_at h 0x1058), hb_free (block_at h 0x1058), map_option fst (pmm_alloc_frames 1 p)))
      (kmalloc pmm_alloc_frames 64 empty_heap open_pmm) = Some (0x1018, 0x1000, 64, 0x1058, 0, 3984, 0, 1, Some 0x2000)"
    by code_simp
  then obtain h p q where h: "kmalloc pmm_alloc_frames 64 empty_heap open_pmm = Some (0x1018, h, p)" "chain (block_at h) (heap_head h) ?bs 0"
      and q: "pmm_alloc_frames 1 p = Some (0x2000, q)"
    by (auto simp: holds_blk_def)
  obtain bs' where b: "pmm_ok p" "heap_sys h bs' (used_frames p)"
    using frames.kmalloc_contract [OF open_pmm_ok empty_heap_sys s(1), unfolded if_P [OF empty_growth_clean]] h(1) by auto
  then have "chain (block_at h) (heap_head h) bs' 0" by (simp add: heap_sys_def heap_inv_def)
  then have "?bs = bs'" by (rule chain_unique [OF h(2)])
  then have sys: "heap_sys h ?bs (used_frames p)" using b(2) by simp
  have v: "align_up 4000 = 4000" "align_up 5000 = 5008" "heap_pages 4000 = 1" by (simp_all add: align_up_def heap_pages_def)
  have "\<exists>h1 h2. kmalloc pmm_alloc_frames 4000 h p = Some (0x2000 + HEADER, h1, q) \<and>
      kmalloc pmm_alloc_frames 5000 h1 q = Some (addr (0x1058, 3984, True) + HEADER, h2, q) \<and>
      held_bytes (0x2000 + HEADER, 4000) \<inter> held_bytes (addr (0x1058, 3984, True) + HEADER, 5000) \<noteq> {}"
    by (rule kmalloc_overlap [OF b(1) sys]) (simp_all add: v s q mergeable_def fits_def bend_def)
  then show ?thesis using h(1) by auto
qed

text \<open>
  The size of a fresh region is 8 above a multiple of 16, and \<open>heap_coalesce\<close> rounds it up before it
  compares: a region is never merged with the block right after it.
\<close>

lemma region_not_mergeable:
  assumes "c \<noteq> 0" and "unat r + 4096 * unat c \<le> HEAP_LIMIT" and "unat (addr y) = bend (region_blk r c)"
  shows "\<not> mergeable (region_blk r c) y"
proof -
  let ?n = "region_blk r c"
  have c: "0 < unat c" using assms(1) by (simp add: unat_gt_0)
  have s: "unat (bsize ?n) = 4096 * unat c - 24" and e: "bend ?n = unat r + 4096 * unat c"
    using bend_region [OF assms(1,2)] by simp_all
  have "unat (align_up (bsize ?n)) = (4096 * unat c - 24 + 15) div 16 * 16"
    using s assms(2) by (subst align_up_bounds) simp_all
  also have "4096 * unat c - 24 + 15 = 7 + (256 * unat c - 1) * 16" using c by (simp add: algebra_simps)
  also have "(7 + (256 * unat c - 1) * 16) div 16 * 16 = 4096 * unat c - 16" by simp
  finally have a: "unat (align_up (bsize ?n)) = 4096 * unat c - 16" .
  have "unat (addr ?n + HEADER + align_up (bsize ?n)) = unat r + 4096 * unat c + 8"
    using a assms(2) c by (simp add: region_blk_def unat_add64)
  then show ?thesis using assms(3) e by (auto simp: mergeable_def)
qed

text \<open>The rounding in \<open>kmalloc\<close> wraps for sizes within 16 bytes of the top: the request succeeds
  with a block of no bytes instead of failing.\<close>

lemma kmalloc_size_wraps:
  "map_option (\<lambda>(r, h, p). (r, hb_size (block_at h (r - HEADER))))
     (kmalloc pmm_alloc_frames 0xFFFFFFFFFFFFFFFF empty_heap open_pmm) = Some (0x1018, 0)"
  by code_simp


end
