(* ===== verification/Ports.thy ===== *)
theory Ports
  imports Prelude
begin

text \<open>
  Port input and output (\<open>src/io.h\<close>).  The instructions talk to devices outside the program; the
  devices are a parameter: a state \<open>'d\<close> and what each instruction does to it.  Reading a port may
  change the device, as it does on real hardware.
\<close>

record 'd ports =
  inb :: "u16 \<Rightarrow> 'd \<Rightarrow> u8 \<times> 'd"
  outb :: "u16 \<Rightarrow> u8 \<Rightarrow> 'd \<Rightarrow> 'd"
  inl :: "u16 \<Rightarrow> 'd \<Rightarrow> u32 \<times> 'd"
  outl :: "u16 \<Rightarrow> u32 \<Rightarrow> 'd \<Rightarrow> 'd"

text \<open>A sequence of byte writes.\<close>

definition outbs :: "'d ports \<Rightarrow> (u16 \<times> u8) list \<Rightarrow> 'd \<Rightarrow> 'd" where
  "outbs P ws d = fold (\<lambda>(port, v). outb P port v) ws d"

lemma outbs_simps [simp]:
  "outbs P [] d = d"
  "outbs P ((port, v) # ws) d = outbs P ws (outb P port v d)"
  by (simp_all add: outbs_def)

text \<open>
  A device that remembers what was written, for the examples: the log of all writes, and a stream
  of answers for each port that is read (0xFF when the stream is used up).
\<close>

record log_device =
  written :: "(u16 \<times> u32) list"
  answers :: "u16 \<Rightarrow> u32 list"

definition log_in :: "u16 \<Rightarrow> log_device \<Rightarrow> u32 \<times> log_device" where
  "log_in port d =
     (case answers d port of [] \<Rightarrow> (0xFFFFFFFF, d)
      | a # as \<Rightarrow> (a, d\<lparr>answers := (answers d)(port := as)\<rparr>))"

definition log_ports :: "log_device ports" where
  "log_ports = \<lparr>inb = (\<lambda>p d. let (v, d') = log_in p d in (ucast v, d')),
     outb = (\<lambda>p v d. d\<lparr>written := written d @ [(p, ucast v)]\<rparr>),
     inl = log_in,
     outl = (\<lambda>p v d. d\<lparr>written := written d @ [(p, v)]\<rparr>)\<rparr>"

definition log_device0 :: log_device where
  "log_device0 = \<lparr>written = [], answers = (\<lambda>_. [])\<rparr>"

end
