(* ===== verification/Vga.thy ===== *)
theory Vga
  imports KString Ports
begin

text \<open>
  \<open>src/vga.c\<close> and \<open>src/vga.h\<close>: the text console, a scrollback of 256 rows of 78 cells, a cursor,
  and a viewport of 23 rows drawn on an 80 by 25 screen with a border of one cell.  Row and column
  counters stay below 257, so \<open>size_t\<close> values are natural numbers; array writes are checked
  against the size of the array, and a null screen pointer is an error.
\<close>

section \<open>State\<close>

abbreviation (input) VGA_WIDTH :: nat where "VGA_WIDTH \<equiv> 80"
abbreviation (input) VGA_HEIGHT :: nat where "VGA_HEIGHT \<equiv> 25"
abbreviation (input) VGA_PADDING_X :: nat where "VGA_PADDING_X \<equiv> 1"
abbreviation (input) VGA_PADDING_Y :: nat where "VGA_PADDING_Y \<equiv> 1"
abbreviation (input) VGA_CONTENT_WIDTH :: nat where "VGA_CONTENT_WIDTH \<equiv> 78"
abbreviation (input) VGA_CONTENT_HEIGHT :: nat where "VGA_CONTENT_HEIGHT \<equiv> 23"
abbreviation (input) VGA_SCROLLBACK_ROWS :: nat where "VGA_SCROLLBACK_ROWS \<equiv> 256"
abbreviation (input) VGA_MEMORY :: u64 where "VGA_MEMORY \<equiv> 0xB8000"

text \<open>The number of entries of \<open>history_buffer\<close> and of the screen.\<close>

abbreviation (input) HISTORY_LEN :: nat where "HISTORY_LEN \<equiv> 19968"
abbreviation (input) SCREEN_LEN :: nat where "SCREEN_LEN \<equiv> 2000"

lemma vga_constants:
  "VGA_CONTENT_WIDTH = VGA_WIDTH - VGA_PADDING_X * 2" "VGA_CONTENT_HEIGHT = VGA_HEIGHT - VGA_PADDING_Y * 2"
  "HISTORY_LEN = VGA_SCROLLBACK_ROWS * VGA_CONTENT_WIDTH" "SCREEN_LEN = VGA_WIDTH * VGA_HEIGHT"
  by simp_all

abbreviation (input) VGA_COLOR_BLACK :: u8 where "VGA_COLOR_BLACK \<equiv> 0"
abbreviation (input) VGA_COLOR_RED :: u8 where "VGA_COLOR_RED \<equiv> 4"
abbreviation (input) VGA_COLOR_LIGHT_GREY :: u8 where "VGA_COLOR_LIGHT_GREY \<equiv> 7"
abbreviation (input) VGA_COLOR_LIGHT_BLUE :: u8 where "VGA_COLOR_LIGHT_BLUE \<equiv> 9"
abbreviation (input) VGA_COLOR_LIGHT_GREEN :: u8 where "VGA_COLOR_LIGHT_GREEN \<equiv> 10"
abbreviation (input) VGA_COLOR_LIGHT_CYAN :: u8 where "VGA_COLOR_LIGHT_CYAN \<equiv> 11"
abbreviation (input) VGA_COLOR_LIGHT_RED :: u8 where "VGA_COLOR_LIGHT_RED \<equiv> 12"
abbreviation (input) VGA_COLOR_LIGHT_MAGENTA :: u8 where "VGA_COLOR_LIGHT_MAGENTA \<equiv> 13"
abbreviation (input) VGA_COLOR_YELLOW :: u8 where "VGA_COLOR_YELLOW \<equiv> 14"
abbreviation (input) VGA_COLOR_WHITE :: u8 where "VGA_COLOR_WHITE \<equiv> 15"

definition vga_entry_color :: "u8 \<Rightarrow> u8 \<Rightarrow> u8" where
  "vga_entry_color fg bg = fg OR push_bit 4 bg"

definition vga_entry :: "u8 \<Rightarrow> u8 \<Rightarrow> u16" where
  "vga_entry uc color = ucast uc OR push_bit 8 (ucast color)"

text \<open>The statics; \<open>screen_at\<close> holds the arrays that screen pointers point to.\<close>

record vga =
  terminal_row :: nat
  terminal_column :: nat
  viewport_row :: nat
  total_rows :: nat
  terminal_color :: u8
  terminal_buffer :: u64
  history_buffer :: "nat \<Rightarrow> u16"
  screen_at :: "u64 \<Rightarrow> nat \<Rightarrow> u16"

definition vga_static :: vga where
  "vga_static = \<lparr>terminal_row = 0, terminal_column = 0, viewport_row = 0, total_rows = 0, terminal_color = 0,
     terminal_buffer = 0, history_buffer = (\<lambda>_. 0), screen_at = (\<lambda>_ _. 0)\<rparr>"

definition set_history :: "nat \<Rightarrow> u16 \<Rightarrow> vga \<Rightarrow> vga option" where
  "set_history i e v =
     (if i < HISTORY_LEN then Some (v\<lparr>history_buffer := (history_buffer v)(i := e)\<rparr>) else None)"

definition set_screen :: "nat \<Rightarrow> u16 \<Rightarrow> vga \<Rightarrow> vga option" where
  "set_screen i e v =
     (if i < SCREEN_LEN \<and> terminal_buffer v \<noteq> 0
      then Some (v\<lparr>screen_at := (screen_at v)(terminal_buffer v := (screen_at v (terminal_buffer v))(i := e))\<rparr>)
      else None)"

section \<open>Scrollback and drawing\<close>

definition vga_bottom_viewport_row :: "vga \<Rightarrow> nat" where
  "vga_bottom_viewport_row v =
     (if total_rows v > VGA_CONTENT_HEIGHT then total_rows v - VGA_CONTENT_HEIGHT else 0)"

definition blank_entry :: "vga \<Rightarrow> u16" where
  "blank_entry v = vga_entry 32 (terminal_color v)"

definition clear_history_row :: "nat \<Rightarrow> vga \<Rightarrow> vga option" where
  "clear_history_row row v =
     (let blank = blank_entry v in
      for_range 0 VGA_CONTENT_WIDTH (\<lambda>i. set_history (row * VGA_CONTENT_WIDTH + i) blank) v)"

text \<open>
  \<open>kmemmove\<close> and \<open>kmemcpy\<close> on arrays of 16-bit entries, with the count in entries; the lemmas
  \<open>move16_is_kmemmove\<close> and \<open>copy16_is_kmemcpy\<close> relate them to the byte routines of \<open>kstring.c\<close>.
\<close>

definition move16 :: "(nat \<Rightarrow> u16) \<Rightarrow> nat \<Rightarrow> nat \<Rightarrow> nat \<Rightarrow> (nat \<Rightarrow> u16)" where
  "move16 a dst src n = (\<lambda>i. if dst \<le> i \<and> i < dst + n then a (src + (i - dst)) else a i)"

definition copy16 :: "(nat \<Rightarrow> u16) \<Rightarrow> nat \<Rightarrow> (nat \<Rightarrow> u16) \<Rightarrow> nat \<Rightarrow> nat \<Rightarrow> (nat \<Rightarrow> u16)" where
  "copy16 out dst inp src n = (\<lambda>i. if dst \<le> i \<and> i < dst + n then inp (src + (i - dst)) else out i)"

definition shift_history_up :: "vga \<Rightarrow> vga option" where
  "shift_history_up v =
     do { let v1 = v\<lparr>history_buffer := move16 (history_buffer v) 0 VGA_CONTENT_WIDTH
                       ((VGA_SCROLLBACK_ROWS - 1) * VGA_CONTENT_WIDTH)\<rparr>;
          v2 \<leftarrow> clear_history_row (VGA_SCROLLBACK_ROWS - 1) v1;
          let v3 = (if terminal_row v2 > 0 then v2\<lparr>terminal_row := terminal_row v2 - 1\<rparr> else v2);
          let v4 = (if viewport_row v3 > 0 then v3\<lparr>viewport_row := viewport_row v3 - 1\<rparr> else v3);
          Some (if total_rows v4 > 0 then v4\<lparr>total_rows := total_rows v4 - 1\<rparr> else v4) }"

text \<open>One row of the viewport; \<open>kmemcpy\<close> reads 78 entries of the history and writes 78 of the screen.\<close>

definition render_row :: "nat \<Rightarrow> vga \<Rightarrow> vga option" where
  "render_row y v =
     (let src_row = viewport_row v + y; dst_row = y + VGA_PADDING_Y in
      if src_row \<ge> total_rows v then Some v
      else let dst = dst_row * VGA_WIDTH + VGA_PADDING_X; src = src_row * VGA_CONTENT_WIDTH in
        if dst + VGA_CONTENT_WIDTH \<le> SCREEN_LEN \<and> src + VGA_CONTENT_WIDTH \<le> HISTORY_LEN \<and> terminal_buffer v \<noteq> 0
        then Some (v\<lparr>screen_at := (screen_at v)(terminal_buffer v :=
               copy16 (screen_at v (terminal_buffer v)) dst (history_buffer v) src VGA_CONTENT_WIDTH)\<rparr>)
        else None)"

definition render_viewport :: "vga \<Rightarrow> vga option" where
  "render_viewport v =
     do { let blank = blank_entry v;
          v1 \<leftarrow> for_range 0 VGA_HEIGHT (\<lambda>y v.
                 let dst_index = y * VGA_WIDTH in
                 for_range 0 VGA_WIDTH (\<lambda>x. set_screen (dst_index + x) blank) v) v;
          for_range 0 VGA_CONTENT_HEIGHT render_row v1 }"

text \<open>The hardware cursor: where the cursor row is drawn, or the last row when it is out of view.\<close>

definition vga_get_row :: "vga \<Rightarrow> nat" where
  "vga_get_row v =
     (if terminal_row v \<ge> viewport_row v \<and> terminal_row v < viewport_row v + VGA_CONTENT_HEIGHT
      then terminal_row v - viewport_row v else VGA_CONTENT_HEIGHT - 1)"

definition update_cursor :: "'d ports \<Rightarrow> vga \<Rightarrow> 'd \<Rightarrow> 'd" where
  "update_cursor P v d =
     (let visible_row =
            (if terminal_row v \<ge> viewport_row v \<and> terminal_row v < viewport_row v + VGA_CONTENT_HEIGHT
             then terminal_row v - viewport_row v else VGA_CONTENT_HEIGHT - 1);
          pos = (of_nat ((visible_row + VGA_PADDING_Y) * VGA_WIDTH + terminal_column v + VGA_PADDING_X) :: u16)
      in outbs P [(0x3D4, 0x0F), (0x3D5, ucast (pos AND 0xFF)),
                  (0x3D4, 0x0E), (0x3D5, ucast (drop_bit 8 pos AND 0xFF))] d)"

definition sync_viewport :: "'d ports \<Rightarrow> bool \<Rightarrow> vga \<times> 'd \<Rightarrow> (vga \<times> 'd) option" where
  "sync_viewport P follow_bottom = (\<lambda>(v, d).
     do { let v1 = (if follow_bottom \<or> viewport_row v > vga_bottom_viewport_row v
                    then v\<lparr>viewport_row := vga_bottom_viewport_row v\<rparr> else v);
          v2 \<leftarrow> render_viewport v1;
          Some (v2, update_cursor P v2 d) })"

definition advance_line :: "'d ports \<Rightarrow> bool \<Rightarrow> vga \<times> 'd \<Rightarrow> (vga \<times> 'd) option" where
  "advance_line P follow_bottom = (\<lambda>(v, d).
     do { let v1 = v\<lparr>terminal_column := 0, terminal_row := terminal_row v + 1\<rparr>;
          v2 \<leftarrow> (if terminal_row v1 \<ge> VGA_SCROLLBACK_ROWS then shift_history_up v1 else Some v1);
          let v3 = (if terminal_row v2 + 1 > total_rows v2 then v2\<lparr>total_rows := terminal_row v2 + 1\<rparr> else v2);
          v4 \<leftarrow> clear_history_row (terminal_row v3) v3;
          sync_viewport P follow_bottom (v4, d) })"

section \<open>The interface of vga.h\<close>

definition vga_clear :: "'d ports \<Rightarrow> vga \<times> 'd \<Rightarrow> (vga \<times> 'd) option" where
  "vga_clear P = (\<lambda>(v, d).
     do { v1 \<leftarrow> for_range 0 VGA_SCROLLBACK_ROWS clear_history_row v;
          v2 \<leftarrow> render_viewport (v1\<lparr>terminal_row := 0, terminal_column := 0, viewport_row := 0, total_rows := 1\<rparr>);
          Some (v2, update_cursor P v2 d) })"

definition vga_initialize :: "'d ports \<Rightarrow> vga \<times> 'd \<Rightarrow> (vga \<times> 'd) option" where
  "vga_initialize P = (\<lambda>(v, d).
     do { let v1 = v\<lparr>terminal_row := 0, terminal_column := 0, viewport_row := 0, total_rows := 1,
                 terminal_color := vga_entry_color VGA_COLOR_LIGHT_GREY VGA_COLOR_BLACK\<rparr>;
          (v2, d2) \<leftarrow> vga_clear P (if terminal_buffer v1 = 0 then v1\<lparr>terminal_buffer := VGA_MEMORY\<rparr> else v1, d);
          Some (v2, update_cursor P v2 d2) })"

definition vga_setcolor :: "u8 \<Rightarrow> vga \<Rightarrow> vga" where
  "vga_setcolor color v = v\<lparr>terminal_color := color\<rparr>"

text \<open>\<open>x\<close> and \<open>y\<close> are arbitrary \<open>size_t\<close> values, so the sum in the guard wraps.\<close>

definition vga_putentryat :: "u8 \<Rightarrow> u8 \<Rightarrow> u64 \<Rightarrow> u64 \<Rightarrow> vga \<Rightarrow> vga option" where
  "vga_putentryat c color x y v =
     (if of_nat (viewport_row v) + y \<ge> of_nat VGA_SCROLLBACK_ROWS \<or> x \<ge> of_nat VGA_CONTENT_WIDTH \<or>
         y \<ge> of_nat VGA_CONTENT_HEIGHT
      then Some v
      else do { v1 \<leftarrow> set_history (unat ((of_nat (viewport_row v) + y) * of_nat VGA_CONTENT_WIDTH + x))
                       (vga_entry c color) v;
                render_viewport v1 })"

definition vga_putchar :: "'d ports \<Rightarrow> u8 \<Rightarrow> vga \<times> 'd \<Rightarrow> (vga \<times> 'd) option" where
  "vga_putchar P c = (\<lambda>(v, d).
     let follow_bottom = (viewport_row v = vga_bottom_viewport_row v) in
     if c = 10 then advance_line P follow_bottom (v, d)
     else if c = 8 then
       do { v1 \<leftarrow> (if terminal_column v > 0 \<or> terminal_row v > 0 then
                   let w = (if terminal_column v = 0
                            then v\<lparr>terminal_row := terminal_row v - 1, terminal_column := VGA_CONTENT_WIDTH\<rparr> else v);
                       w1 = w\<lparr>terminal_column := terminal_column w - 1\<rparr>
                   in set_history (terminal_row w1 * VGA_CONTENT_WIDTH + terminal_column w1)
                        (vga_entry 32 (terminal_color w1)) w1
                 else Some v);
            sync_viewport P follow_bottom (v1, d) }
     else
       do { v1 \<leftarrow> set_history (terminal_row v * VGA_CONTENT_WIDTH + terminal_column v)
                   (vga_entry c (terminal_color v)) v;
            let v2 = v1\<lparr>terminal_column := terminal_column v1 + 1\<rparr>;
            if terminal_column v2 = VGA_CONTENT_WIDTH then advance_line P follow_bottom (v2, d)
            else sync_viewport P follow_bottom
                   (if terminal_row v2 + 1 > total_rows v2 then v2\<lparr>total_rows := terminal_row v2 + 1\<rparr> else v2, d) })"

definition vga_write :: "'d ports \<Rightarrow> u8 list \<Rightarrow> nat \<Rightarrow> vga \<times> 'd \<Rightarrow> (vga \<times> 'd) option" where
  "vga_write P data sz = for_range 0 sz (\<lambda>i s. do { c \<leftarrow> rd data i; vga_putchar P c s })"

definition vga_writestring :: "'d ports \<Rightarrow> u8 list \<Rightarrow> vga \<times> 'd \<Rightarrow> (vga \<times> 'd) option" where
  "vga_writestring P data s = do { n \<leftarrow> kstrlen data; vga_write P data n s }"

definition vga_bind_buffer :: "u64 \<Rightarrow> vga \<Rightarrow> vga" where
  "vga_bind_buffer buffer v = v\<lparr>terminal_buffer := buffer\<rparr>"

text \<open>\<open>i32\<close> arithmetic: \<open>None\<close> on signed overflow.\<close>

definition vga_scroll_view :: "'d ports \<Rightarrow> int \<Rightarrow> vga \<times> 'd \<Rightarrow> (vga \<times> 'd) option" where
  "vga_scroll_view P delta = (\<lambda>(v, d).
     let next0 = int (viewport_row v) + delta; bottom = int (vga_bottom_viewport_row v) in
     if next0 < - (2 ^ 31) \<or> next0 \<ge> 2 ^ 31 then None
     else do { let next1 = (if next0 < 0 then 0 else next0);
               let next2 = (if next1 > bottom then bottom else next1);
               v1 \<leftarrow> render_viewport (v\<lparr>viewport_row := nat next2\<rparr>);
               Some (v1, update_cursor P v1 d) })"

definition vga_scroll_to_bottom :: "'d ports \<Rightarrow> vga \<times> 'd \<Rightarrow> (vga \<times> 'd) option" where
  "vga_scroll_to_bottom P = (\<lambda>(v, d).
     do { v1 \<leftarrow> render_viewport (v\<lparr>viewport_row := vga_bottom_viewport_row v\<rparr>);
          Some (v1, update_cursor P v1 d) })"

definition vga_get_column :: "vga \<Rightarrow> nat" where "vga_get_column v = terminal_column v"
definition vga_get_viewport_row :: "vga \<Rightarrow> nat" where "vga_get_viewport_row v = viewport_row v"
definition vga_get_total_rows :: "vga \<Rightarrow> nat" where "vga_get_total_rows v = total_rows v"
definition vga_get_color :: "vga \<Rightarrow> u8" where "vga_get_color v = terminal_color v"

end
