(* ===== verification/VgaTerm.thy ===== *)
theory VgaTerm
  imports Vga
begin

text \<open>
  The console of \<open>src/vga.c\<close> refines a terminal with a list of lines: closed forms of the drawing
  loops, the invariant \<open>vga_wf\<close>, the relation \<open>shown\<close> between screen and viewport, one refinement
  lemma per operation, and the link between 16-bit arrays and the byte routines of \<open>kstring.c\<close>.
\<close>


section \<open>What the drawing routines compute\<close>

lemma history_self [simp]: "v\<lparr>history_buffer := history_buffer v\<rparr> = v"
  by (cases v) simp

lemma fold_history:
  "fold (\<lambda>i s. s\<lparr>history_buffer := (history_buffer s)(k + i := e)\<rparr>) [0..<n] v =
   v\<lparr>history_buffer := (\<lambda>i. if k \<le> i \<and> i < k + n then e else history_buffer v i)\<rparr>"
proof (induction n)
  case 0
  have "(\<lambda>i. if k \<le> i \<and> i < k + 0 then e else history_buffer v i) = history_buffer v" by (intro ext) auto
  then show ?case by simp
next
  case (Suc n)
  have "(\<lambda>i. if k \<le> i \<and> i < k + n then e else history_buffer v i)(k + n := e) =
      (\<lambda>i. if k \<le> i \<and> i < k + Suc n then e else history_buffer v i)" by (intro ext) auto
  moreover have "fold (\<lambda>i s. s\<lparr>history_buffer := (history_buffer s)(k + i := e)\<rparr>) [0..<Suc n] v =
      (let w = fold (\<lambda>i s. s\<lparr>history_buffer := (history_buffer s)(k + i := e)\<rparr>) [0..<n] v
       in w\<lparr>history_buffer := (history_buffer w)(k + n := e)\<rparr>)" by (simp add: Let_def)
  ultimately show ?case unfolding Suc Let_def by (simp del: fun_upd_apply)
qed

lemma clear_history_row_spec:
  assumes "row < VGA_SCROLLBACK_ROWS"
  shows "clear_history_row row v = Some (v\<lparr>history_buffer :=
    (\<lambda>i. if row * 78 \<le> i \<and> i < row * 78 + 78 then blank_entry v else history_buffer v i)\<rparr>)"
proof -
  have "for_range 0 78 (\<lambda>i. set_history (row * 78 + i) (blank_entry v)) v =
    Some (fold (\<lambda>i s. s\<lparr>history_buffer := (history_buffer s)(row * 78 + i := blank_entry v)\<rparr>) [0..<78] v)"
    using assms by (intro for_range_fold) (simp add: set_history_def)
  then show ?thesis unfolding clear_history_row_def Let_def fold_history by simp
qed

text \<open>The screen the pointer points to, as a whole.\<close>

definition scr :: "vga \<Rightarrow> nat \<Rightarrow> u16" where
  "scr v = screen_at v (terminal_buffer v)"

definition paint :: "(nat \<Rightarrow> u16) \<Rightarrow> vga \<Rightarrow> vga" where
  "paint f v = v\<lparr>screen_at := (screen_at v)(terminal_buffer v := f)\<rparr>"

lemma paint_simps [simp]:
  "terminal_row (paint f v) = terminal_row v" "terminal_column (paint f v) = terminal_column v"
  "viewport_row (paint f v) = viewport_row v" "total_rows (paint f v) = total_rows v"
  "terminal_color (paint f v) = terminal_color v" "terminal_buffer (paint f v) = terminal_buffer v"
  "history_buffer (paint f v) = history_buffer v" "blank_entry (paint f v) = blank_entry v"
  "scr (paint f v) = f" "paint g (paint f v) = paint g v"
  by (simp_all add: paint_def scr_def blank_entry_def)

lemma paint_self [simp]: "paint (scr v) v = v"
  by (cases v) (simp add: paint_def scr_def)

lemma set_screen_paint:
  "i < SCREEN_LEN \<Longrightarrow> terminal_buffer v \<noteq> 0 \<Longrightarrow> set_screen i e v = Some (paint ((scr v)(i := e)) v)"
  by (simp add: set_screen_def paint_def scr_def)

lemma fill_screen_row:
  assumes "k + 80 \<le> SCREEN_LEN" and "terminal_buffer v \<noteq> 0"
  shows "for_range 0 80 (\<lambda>x. set_screen (k + x) e) v =
    Some (paint (\<lambda>i. if k \<le> i \<and> i < k + 80 then e else scr v i) v)"
proof -
  have "\<exists>s'. for_range 0 80 (\<lambda>x. set_screen (k + x) e) v = Some s' \<and>
    s' = paint (\<lambda>i. if k \<le> i \<and> i < k + 80 then e else scr v i) v"
  proof (rule for_range_invariant [where I = "\<lambda>j s'. s' = paint (\<lambda>i. if k \<le> i \<and> i < k + j then e else scr v i) v"])
    have "(\<lambda>i. if k \<le> i \<and> i < k + 0 then e else scr v i) = scr v" by (intro ext) auto
    then show "v = paint (\<lambda>i. if k \<le> i \<and> i < k + 0 then e else scr v i) v" by simp
    fix j s
    assume j: "j < 80" and s: "s = paint (\<lambda>i. if k \<le> i \<and> i < k + j then e else scr v i) v"
    have "set_screen (k + j) e s = Some (paint ((scr s)(k + j := e)) s)"
      using j s assms by (intro set_screen_paint) simp_all
    moreover have "(scr s)(k + j := e) = (\<lambda>i. if k \<le> i \<and> i < k + Suc j then e else scr v i)"
      using s by auto
    ultimately show "\<exists>s'. set_screen (k + j) e s = Some s' \<and> s' = paint (\<lambda>i. if k \<le> i \<and> i < k + Suc j then e else scr v i) v"
      using s by simp
  qed simp
  then show ?thesis by simp
qed

lemma fill_screen:
  assumes "terminal_buffer v \<noteq> 0"
  shows "for_range 0 VGA_HEIGHT (\<lambda>y v. let dst_index = y * VGA_WIDTH in
       for_range 0 VGA_WIDTH (\<lambda>x. set_screen (dst_index + x) e) v) v =
    Some (paint (\<lambda>i. if i < SCREEN_LEN then e else scr v i) v)"
proof -
  let ?f = "\<lambda>y v. let dst_index = y * VGA_WIDTH in for_range 0 VGA_WIDTH (\<lambda>x. set_screen (dst_index + x) e) v"
  have "\<exists>s'. for_range 0 25 ?f v = Some s' \<and> s' = paint (\<lambda>i. if i < 25 * 80 then e else scr v i) v"
  proof (rule for_range_invariant [where I = "\<lambda>y s. s = paint (\<lambda>i. if i < y * 80 then e else scr v i) v"])
    fix y s
    assume y: "y < 25" and s: "s = paint (\<lambda>i. if i < y * 80 then e else scr v i) v"
    have "?f y s = Some (paint (\<lambda>i. if y * 80 \<le> i \<and> i < y * 80 + 80 then e else scr s i) s)"
      unfolding Let_def using y assms s by (intro fill_screen_row) simp_all
    moreover have "(\<lambda>i. if y * 80 \<le> i \<and> i < y * 80 + 80 then e else scr s i) = (\<lambda>i. if i < Suc y * 80 then e else scr v i)"
      using s by auto
    ultimately show "\<exists>s'. ?f y s = Some s' \<and> s' = paint (\<lambda>i. if i < Suc y * 80 then e else scr v i) v"
      using s by simp
  qed simp_all
  then show ?thesis by simp
qed

text \<open>The cell the viewport shows at position \<open>i\<close> of the screen.\<close>

definition drawn :: "vga \<Rightarrow> nat \<Rightarrow> u16" where
  "drawn v i =
     (let y = i div VGA_WIDTH; x = i mod VGA_WIDTH in
      if VGA_PADDING_Y \<le> y \<and> y \<le> VGA_CONTENT_HEIGHT \<and> VGA_PADDING_X \<le> x \<and> x \<le> VGA_CONTENT_WIDTH \<and>
         viewport_row v + (y - VGA_PADDING_Y) < total_rows v
      then history_buffer v ((viewport_row v + (y - VGA_PADDING_Y)) * VGA_CONTENT_WIDTH + (x - VGA_PADDING_X))
      else blank_entry v)"

definition draw :: "vga \<Rightarrow> vga" where
  "draw v = paint (\<lambda>i. if i < SCREEN_LEN then drawn v i else scr v i) v"

lemma draw_simps [simp]:
  "terminal_row (draw v) = terminal_row v" "terminal_column (draw v) = terminal_column v"
  "viewport_row (draw v) = viewport_row v" "total_rows (draw v) = total_rows v"
  "terminal_color (draw v) = terminal_color v" "terminal_buffer (draw v) = terminal_buffer v"
  "history_buffer (draw v) = history_buffer v" "blank_entry (draw v) = blank_entry v"
  by (simp_all add: draw_def)

lemma drawn_draw [simp]: "drawn (draw v) = drawn v"
  unfolding drawn_def by (simp only: draw_simps)

lemma screen_cell:
  fixes i k :: nat
  shows "Suc k * 80 + 1 \<le> i \<and> i < Suc k * 80 + 1 + 78 \<longleftrightarrow> i div 80 = Suc k \<and> 1 \<le> i mod 80 \<and> i mod 80 \<le> 78"
    (is "?l \<longleftrightarrow> ?r")
proof -
  have q: "i div 80 = Suc k" if ?l by (rule div_nat_eqI) (use that in simp_all)
  define d m where "d = i div 80" and "m = i mod 80"
  have im: "i = 80 * d + m" "m < 80" by (simp_all add: d_def m_def)
  show ?thesis unfolding d_def [symmetric] m_def [symmetric]
  proof (cases "d = Suc k")
    case True
    then show "?l \<longleftrightarrow> d = Suc k \<and> 1 \<le> m \<and> m \<le> 78" using im by auto
  next
    case False
    then show "?l \<longleftrightarrow> d = Suc k \<and> 1 \<le> m \<and> m \<le> 78" using q unfolding d_def by blast
  qed
qed

lemma render_row_step:
  assumes "k < VGA_CONTENT_HEIGHT" and "terminal_buffer v \<noteq> 0" and "total_rows v \<le> VGA_SCROLLBACK_ROWS"
  defines "w \<equiv> \<lambda>k i. if i < SCREEN_LEN then (if i div 80 \<le> k then drawn v i else blank_entry v) else scr v i"
  shows "render_row k (paint (w k) v) = Some (paint (w (Suc k)) v)"
proof (cases "viewport_row v + k \<ge> total_rows v")
  case True
  have "drawn v i = blank_entry v" if "i div 80 = Suc k" for i
    using True that by (simp add: drawn_def Let_def)
  then have "w (Suc k) = w k" by (auto simp: w_def fun_eq_iff le_Suc_eq)
  then show ?thesis using True by (simp add: render_row_def)
next
  case False
  let ?src = "(viewport_row v + k) * 78"
  have b: "?src + 78 \<le> HISTORY_LEN" using False assms by simp
  have "copy16 (w k) ((k + 1) * 80 + 1) (history_buffer v) ?src 78 i = w (Suc k) i" for i
  proof (cases "(k + 1) * 80 + 1 \<le> i \<and> i < (k + 1) * 80 + 1 + 78")
    case True
    then have p: "i div 80 = Suc k" "1 \<le> i mod 80" "i mod 80 \<le> 78" using screen_cell [of k i] by simp_all
    have "i = 80 * (i div 80) + i mod 80" by simp
    then have o: "i - ((k + 1) * 80 + 1) = i mod 80 - 1" using p by simp
    have "i < SCREEN_LEN" using True assms(1) by simp
    then show ?thesis using True p False assms(1) unfolding copy16_def o by (simp add: w_def drawn_def Let_def)
  next
    case out: False
    have "drawn v i = blank_entry v" if "i div 80 = Suc k"
    proof -
      have "\<not> (Suc k * 80 + 1 \<le> i \<and> i < Suc k * 80 + 1 + 78)" using out by simp
      then have "\<not> (1 \<le> i mod 80 \<and> i mod 80 \<le> 78)" using that unfolding screen_cell by blast
      then show ?thesis by (auto simp: drawn_def Let_def)
    qed
    then show ?thesis using out by (auto simp: copy16_def w_def le_Suc_eq)
  qed
  then have "copy16 (scr (paint (w k) v)) ((k + 1) * 80 + 1) (history_buffer v) ?src 78 = w (Suc k)" by auto
  then have "(paint (w k) v)\<lparr>screen_at := (screen_at (paint (w k) v))(terminal_buffer v :=
      copy16 (scr (paint (w k) v)) ((k + 1) * 80 + 1) (history_buffer v) ?src 78)\<rparr> = paint (w (Suc k)) v"
    by (simp add: paint_def)
  then show ?thesis
    using False b assms(1,2) by (simp add: render_row_def Let_def scr_def)
qed

lemma render_viewport_spec:
  assumes "terminal_buffer v \<noteq> 0" and "total_rows v \<le> VGA_SCROLLBACK_ROWS"
  shows "render_viewport v = Some (draw v)"
proof -
  let ?w = "\<lambda>k i. if i < SCREEN_LEN then (if i div 80 \<le> k then drawn v i else blank_entry v) else scr v i"
  have d0: "drawn v i = blank_entry v" if "i div 80 = 0 \<or> i div 80 = 24" for i
    using that by (auto simp: drawn_def Let_def)
  then have start: "(\<lambda>i. if i < SCREEN_LEN then blank_entry v else scr v i) = ?w 0" by (auto simp: fun_eq_iff)
  have "\<exists>s'. for_range 0 23 render_row (paint (?w 0) v) = Some s' \<and> s' = paint (?w 23) v"
  proof (rule for_range_invariant [where I = "\<lambda>k s. s = paint (?w k) v"])
    fix j s
    assume "j < 23" "s = paint (?w j) v"
    then show "\<exists>s'. render_row j s = Some s' \<and> s' = paint (?w (Suc j)) v"
      using render_row_step [OF _ assms, of j] by simp
  qed simp_all
  moreover have "?w 23 = (\<lambda>i. if i < SCREEN_LEN then drawn v i else scr v i)"
  proof (rule ext)
    fix i
    show "?w 23 i = (if i < SCREEN_LEN then drawn v i else scr v i)"
    proof (cases "i < SCREEN_LEN \<and> \<not> i div 80 \<le> 23")
      case True
      then have "i div 80 < 25" by (intro less_mult_imp_div_less) simp
      with True have "i div 80 = 24" by linarith
      then show ?thesis using d0 by simp
    qed auto
  qed
  ultimately show ?thesis
    unfolding render_viewport_def Let_def
    using fill_screen [OF assms(1), of "blank_entry v"] start by (simp add: Let_def draw_def)
qed


section \<open>The terminal as a list of lines\<close>

text \<open>What a user of the console sees: lines of cells, a cursor, the first line in view, a colour.\<close>

record terminal =
  lines :: "u16 list list"
  cur_row :: nat
  cur_col :: nat
  view :: nat
  colour :: u8

definition history_line :: "(nat \<Rightarrow> u16) \<Rightarrow> nat \<Rightarrow> u16 list" where
  "history_line h r = map (\<lambda>x. h (r * VGA_CONTENT_WIDTH + x)) [0..<VGA_CONTENT_WIDTH]"

definition term_of :: "vga \<Rightarrow> terminal" where
  "term_of v = \<lparr>lines = map (history_line (history_buffer v)) [0..<total_rows v], cur_row = terminal_row v,
     cur_col = terminal_column v, view = viewport_row v, colour = terminal_color v\<rparr>"

definition term_bottom :: "terminal \<Rightarrow> nat" where
  "term_bottom t = length (lines t) - VGA_CONTENT_HEIGHT"

definition term_blank :: "terminal \<Rightarrow> u16 list" where
  "term_blank t = replicate VGA_CONTENT_WIDTH (vga_entry 32 (colour t))"

definition term_follow :: "bool \<Rightarrow> terminal \<Rightarrow> terminal" where
  "term_follow f t = t\<lparr>view := if f then term_bottom t else min (view t) (term_bottom t)\<rparr>"

definition term_newline :: "terminal \<Rightarrow> terminal" where
  "term_newline t =
     (let r = cur_row t + 1 in
      if r \<ge> VGA_SCROLLBACK_ROWS
      then t\<lparr>lines := tl (lines t) @ [term_blank t], cur_row := VGA_SCROLLBACK_ROWS - 1, cur_col := 0, view := view t - 1\<rparr>
      else if r < length (lines t) then t\<lparr>lines := (lines t)[r := term_blank t], cur_row := r, cur_col := 0\<rparr>
      else t\<lparr>lines := lines t @ [term_blank t], cur_row := r, cur_col := 0\<rparr>)"

definition term_set :: "nat \<Rightarrow> nat \<Rightarrow> u16 \<Rightarrow> terminal \<Rightarrow> terminal" where
  "term_set r c e t = t\<lparr>lines := (lines t)[r := (lines t ! r)[c := e]]\<rparr>"

definition term_putchar :: "u8 \<Rightarrow> terminal \<Rightarrow> terminal" where
  "term_putchar c t =
     term_follow (view t = term_bottom t)
      (if c = 10 then term_newline t
       else if c = 8 then
         if cur_col t > 0
         then term_set (cur_row t) (cur_col t - 1) (vga_entry 32 (colour t)) t\<lparr>cur_col := cur_col t - 1\<rparr>
         else if cur_row t > 0
         then term_set (cur_row t - 1) (VGA_CONTENT_WIDTH - 1) (vga_entry 32 (colour t)) t
                \<lparr>cur_row := cur_row t - 1, cur_col := VGA_CONTENT_WIDTH - 1\<rparr>
         else t
       else let t' = term_set (cur_row t) (cur_col t) (vga_entry c (colour t)) t in
         if cur_col t + 1 = VGA_CONTENT_WIDTH then term_newline t' else t'\<lparr>cur_col := cur_col t + 1\<rparr>)"

lemma blank_entry_cong [simp]:
  "blank_entry (v\<lparr>history_buffer := h\<rparr>) = blank_entry v" "blank_entry (v\<lparr>terminal_row := r\<rparr>) = blank_entry v"
  "blank_entry (v\<lparr>terminal_column := c\<rparr>) = blank_entry v" "blank_entry (v\<lparr>viewport_row := w\<rparr>) = blank_entry v"
  "blank_entry (v\<lparr>total_rows := n\<rparr>) = blank_entry v"
  by (simp_all add: blank_entry_def)

section \<open>Invariant\<close>

definition vga_wf :: "vga \<Rightarrow> bool" where
  "vga_wf v \<longleftrightarrow> terminal_row v < total_rows v \<and> total_rows v \<le> VGA_SCROLLBACK_ROWS \<and>
     terminal_column v < VGA_CONTENT_WIDTH \<and> viewport_row v \<le> vga_bottom_viewport_row v \<and> terminal_buffer v \<noteq> 0"

text \<open>The screen shows the viewport.\<close>

definition shown :: "vga \<Rightarrow> bool" where
  "shown v \<longleftrightarrow> (\<forall>i < SCREEN_LEN. scr v i = drawn v i)"

lemma shown_draw [simp]: "shown (draw v)"
proof -
  have "scr (draw v) i = drawn v i" if "i < SCREEN_LEN" for i
    using that by (simp add: draw_def)
  then show ?thesis by (simp add: shown_def)
qed

lemma bottom_cong [simp]: "vga_bottom_viewport_row (draw v) = vga_bottom_viewport_row v"
  by (simp add: vga_bottom_viewport_row_def)

lemma vga_wf_draw [simp]: "vga_wf (draw v) \<longleftrightarrow> vga_wf v"
  by (simp add: vga_wf_def)

lemma term_of_draw [simp]: "term_of (draw v) = term_of v"
  by (simp add: term_of_def)

lemma length_history_line [simp]: "length (history_line h r) = VGA_CONTENT_WIDTH"
  by (simp add: history_line_def)

lemma term_of_simps [simp]:
  "cur_row (term_of v) = terminal_row v" "cur_col (term_of v) = terminal_column v"
  "view (term_of v) = viewport_row v" "colour (term_of v) = terminal_color v"
  "length (lines (term_of v)) = total_rows v"
  by (simp_all add: term_of_def)

lemma term_bottom_of: "term_bottom (term_of v) = vga_bottom_viewport_row v"
  by (simp add: term_bottom_def vga_bottom_viewport_row_def)

lemma history_line_upd_same:
  "x < 78 \<Longrightarrow> history_line (h(r * 78 + x := e)) r = (history_line h r)[x := e]"
  by (rule nth_equalityI) (auto simp: history_line_def nth_list_update)

lemma cell_row:
  fixes r r' x y :: nat
  assumes "x < 78" "y < 78" "r * 78 + x = r' * 78 + y"
  shows "r = r'" and "x = y"
proof -
  have "r = (r * 78 + x) div 78" "x = (r * 78 + x) mod 78" using assms(1) by simp_all
  then show "r = r'" "x = y" using assms(2,3) by simp_all
qed

lemma history_line_upd_other:
  "x < 78 \<Longrightarrow> r' \<noteq> r \<Longrightarrow> history_line (h(r * 78 + x := e)) r' = history_line h r'"
  by (rule nth_equalityI) (auto simp: history_line_def dest: cell_row)

lemma lines_update:
  "r < n \<Longrightarrow> x < 78 \<Longrightarrow> map (history_line (h(r * 78 + x := e))) [0..<n] =
    (map (history_line h) [0..<n])[r := (history_line h r)[x := e]]"
  by (rule nth_equalityI) (auto simp: nth_list_update history_line_upd_same history_line_upd_other)

lemma history_line_clear:
  "history_line (\<lambda>i. if r * 78 \<le> i \<and> i < r * 78 + 78 then e else h i) r' =
    (if r' = r then replicate 78 e else history_line h r')"
proof (cases "r' = r")
  case False
  have "\<not> (r * 78 \<le> r' * 78 + x \<and> r' * 78 + x < r * 78 + 78)" if "x < 78" for x
  proof -
    have "r' < r \<or> r < r'" using False by auto
    then show ?thesis using that by auto
  qed
  then have "(if r * 78 \<le> r' * 78 + x \<and> r' * 78 + x < r * 78 + 78 then e else h (r' * 78 + x)) = h (r' * 78 + x)"
    if "x < 78" for x using that by meson
  then show ?thesis using False unfolding history_line_def by (simp del: if_cancel cong: map_cong)
qed (simp add: history_line_def list_eq_iff_nth_eq)

lemma history_line_shift:
  "r < 255 \<Longrightarrow> history_line (move16 h 0 78 19890) r = history_line h (Suc r)"
  by (rule nth_equalityI) (auto simp: history_line_def move16_def algebra_simps)

lemma map_upt_Cons_shift: "tl (map f [0..<Suc n]) = map (\<lambda>i. f (Suc i)) [0..<n]"
  by (simp add: upt_conv_Cons map_Suc_upt [symmetric] del: upt_Suc)

section \<open>Refinement\<close>

lemma clear_history_row_eq:
  assumes "row < VGA_SCROLLBACK_ROWS" and "blank_entry v = e" and "history_buffer v = h"
  shows "clear_history_row row v =
    Some (v\<lparr>history_buffer := (\<lambda>i. if row * 78 \<le> i \<and> i < row * 78 + 78 then e else h i)\<rparr>)"
  using clear_history_row_spec [OF assms(1), of v] unfolding assms(2,3) .

lemma sync_viewport_spec:
  assumes "terminal_row v < total_rows v" "total_rows v \<le> VGA_SCROLLBACK_ROWS"
    "terminal_column v < VGA_CONTENT_WIDTH" "terminal_buffer v \<noteq> 0"
  shows "\<exists>v'. sync_viewport P f (v, d) = Some (v', update_cursor P v' d) \<and> vga_wf v' \<and> shown v' \<and>
    term_of v' = term_follow f (term_of v) \<and> terminal_buffer v' = terminal_buffer v"
proof -
  let ?v1 = "if f \<or> viewport_row v > vga_bottom_viewport_row v
             then v\<lparr>viewport_row := vga_bottom_viewport_row v\<rparr> else v"
  have r: "render_viewport ?v1 = Some (draw ?v1)" by (rule render_viewport_spec) (use assms in auto)
  have b: "vga_bottom_viewport_row ?v1 = vga_bottom_viewport_row v"
    by (simp add: vga_bottom_viewport_row_def)
  have "vga_wf ?v1" using assms b by (auto simp: vga_wf_def vga_bottom_viewport_row_def)
  moreover have "term_of ?v1 = term_follow f (term_of v)"
    by (auto simp: term_follow_def term_bottom_of) (simp_all add: term_of_def min_def)
  ultimately show ?thesis using r by (auto simp: sync_viewport_def Let_def)
qed

text \<open>The lines of \<open>advance_line\<close> that move to a fresh row, with the history full and with room.\<close>

definition fresh_row :: "vga \<Rightarrow> vga option" where
  "fresh_row v1 =
     do { v2 \<leftarrow> (if terminal_row v1 \<ge> VGA_SCROLLBACK_ROWS then shift_history_up v1 else Some v1);
          let v3 = (if terminal_row v2 + 1 > total_rows v2 then v2\<lparr>total_rows := terminal_row v2 + 1\<rparr> else v2);
          clear_history_row (terminal_row v3) v3 }"

definition row_after :: "vga \<Rightarrow> vga \<Rightarrow> bool" where
  "row_after v w \<longleftrightarrow> terminal_row w < total_rows w \<and> total_rows w \<le> VGA_SCROLLBACK_ROWS \<and> terminal_column w = 0 \<and>
     terminal_buffer w = terminal_buffer v \<and> term_of w = term_newline (term_of v)"

lemma advance_line_fresh:
  "fresh_row (v\<lparr>terminal_column := 0, terminal_row := terminal_row v + 1\<rparr>) = Some w \<Longrightarrow>
     advance_line P f (v, d) = sync_viewport P f (w, d)"
  unfolding advance_line_def fresh_row_def Let_def prod.case by (auto simp: Option.bind_eq_Some_conv)

lemma fresh_row_full:
  assumes row: "terminal_row v = 255" "total_rows v = 256"
  shows "\<exists>w. fresh_row (v\<lparr>terminal_column := 0, terminal_row := terminal_row v + 1\<rparr>) = Some w \<and> row_after v w"
proof -
  let ?v1 = "v\<lparr>terminal_column := 0, terminal_row := terminal_row v + 1\<rparr>"
  define h where "h = move16 (history_buffer v) 0 78 19890"
  define h1 where "h1 = (\<lambda>i. if 255 * 78 \<le> i \<and> i < 255 * 78 + 78 then blank_entry v else h i)"
  define h2 where "h2 = (\<lambda>i. if 255 * 78 \<le> i \<and> i < 255 * 78 + 78 then blank_entry v else h1 i)"
  have l255: "history_line h2 255 = replicate 78 (blank_entry v)" unfolding h2_def history_line_clear by simp
  have lr: "history_line h2 r = history_line (history_buffer v) (Suc r)" if "r < 255" for r
  proof -
    have "r \<noteq> 255" using that by simp
    then have "history_line h2 r = history_line h r" unfolding h2_def h1_def history_line_clear by simp
    then show ?thesis using history_line_shift [OF that] by (simp add: h_def)
  qed
  have "map (history_line h2) [0..<256] = map (history_line h2) [0..<255] @ [history_line h2 255]"
    using upt_Suc_append [of 0 255] by simp
  moreover have "map (history_line h2) [0..<255] = tl (map (history_line (history_buffer v)) [0..<Suc 255])"
    unfolding map_upt_Cons_shift by (intro map_cong) (simp_all add: lr)
  ultimately have t: "term_of w = term_newline (term_of v)"
    if "history_buffer w = h2" "total_rows w = 256" "terminal_row w = 255" "terminal_column w = 0"
      "viewport_row w = viewport_row v - 1" "terminal_color w = terminal_color v" for w
    using row that l255 by (simp add: term_newline_def term_of_def term_blank_def blank_entry_def del: upt_Suc)
  have c: "clear_history_row 255 w = Some (w\<lparr>history_buffer := h1\<rparr>)"
    if "history_buffer w = h" "terminal_color w = terminal_color v" for w
    unfolding h1_def using that by (intro clear_history_row_eq) (simp_all add: blank_entry_def)
  have c': "clear_history_row 255 w = Some (w\<lparr>history_buffer := h2\<rparr>)"
    if "history_buffer w = h1" "terminal_color w = terminal_color v" for w
    unfolding h2_def using that by (intro clear_history_row_eq) (simp_all add: blank_entry_def)
  have s: "shift_history_up ?v1 = Some (v\<lparr>terminal_column := 0, terminal_row := 255,
      viewport_row := viewport_row v - 1, total_rows := 255, history_buffer := h1\<rparr>)"
    unfolding shift_history_up_def using row by (simp add: c h_def [symmetric] Let_def)
  show ?thesis using s row by (simp add: fresh_row_def row_after_def c' t)
qed

lemma fresh_row_room:
  assumes "terminal_row v < total_rows v" "total_rows v \<le> VGA_SCROLLBACK_ROWS" and False: "\<not> terminal_row v + 1 \<ge> VGA_SCROLLBACK_ROWS"
  shows "\<exists>w. fresh_row (v\<lparr>terminal_column := 0, terminal_row := terminal_row v + 1\<rparr>) = Some w \<and> row_after v w"
proof -
  define r where "r = terminal_row v + 1"
  define h where "h = (\<lambda>i. if r * 78 \<le> i \<and> i < r * 78 + 78 then blank_entry v else history_buffer v i)"
  have hl: "history_line h r' = (if r' = r then replicate 78 (blank_entry v) else history_line (history_buffer v) r')" for r'
    unfolding h_def by (rule history_line_clear)
  have c: "clear_history_row r w = Some (w\<lparr>history_buffer := h\<rparr>)"
    if "history_buffer w = history_buffer v" "terminal_color w = terminal_color v" for w
    unfolding h_def using that False r_def by (intro clear_history_row_eq) (simp_all add: blank_entry_def)
  have t: "term_of w = term_newline (term_of v)"
    if "history_buffer w = h" "total_rows w = max (r + 1) (total_rows v)" "terminal_row w = r" "terminal_column w = 0"
      "viewport_row w = viewport_row v" "terminal_color w = terminal_color v" for w
  proof (cases "r < total_rows v")
    case old: True
    have "map (history_line h) [0..<total_rows v] =
        (map (history_line (history_buffer v)) [0..<total_rows v])[r := replicate 78 (blank_entry v)]"
      using old by (intro nth_equalityI) (auto simp: nth_list_update hl)
    moreover have "max (r + 1) (total_rows v) = total_rows v" using old by simp
    ultimately show ?thesis using old False that
      by (simp add: term_newline_def term_of_def term_blank_def blank_entry_def r_def)
  next
    case new: False
    then have "total_rows v = r" using assms(1) r_def by simp
    moreover have "map (history_line h) [0..<r] = map (history_line (history_buffer v)) [0..<r]" by (simp add: hl)
    ultimately show ?thesis using new False that
      by (simp add: term_newline_def term_of_def term_blank_def blank_entry_def r_def hl)
  qed
  show ?thesis
    using False assms by (simp add: fresh_row_def row_after_def r_def [simplified, symmetric] c Let_def, intro conjI impI) (auto intro!: t)
qed

lemma advance_line_spec:
  assumes "terminal_row v < total_rows v" "total_rows v \<le> VGA_SCROLLBACK_ROWS" "terminal_buffer v \<noteq> 0"
  shows "\<exists>v'. advance_line P f (v, d) = Some (v', update_cursor P v' d) \<and> vga_wf v' \<and> shown v' \<and>
    term_of v' = term_follow f (term_newline (term_of v)) \<and> terminal_buffer v' = terminal_buffer v"
proof -
  obtain w where w: "fresh_row (v\<lparr>terminal_column := 0, terminal_row := terminal_row v + 1\<rparr>) = Some w" "row_after v w"
  proof (cases "terminal_row v + 1 \<ge> VGA_SCROLLBACK_ROWS")
    case True
    then have "terminal_row v = 255" "total_rows v = 256" using assms by simp_all
    then show ?thesis using fresh_row_full [of v] that by blast
  qed (use fresh_row_room [OF assms(1,2)] that in blast)
  then show ?thesis
    using sync_viewport_spec [of w P f d] assms(3) advance_line_fresh [OF w(1), of P f d] by (simp add: row_after_def)
qed

lemma set_history_term:
  assumes "vga_wf v" and "r < total_rows v" and "c < VGA_CONTENT_WIDTH"
  shows "\<exists>w. set_history (r * VGA_CONTENT_WIDTH + c) e v = Some w \<and> term_of w = term_set r c e (term_of v) \<and>
    terminal_row w = terminal_row v \<and> terminal_column w = terminal_column v \<and> total_rows w = total_rows v \<and>
    viewport_row w = viewport_row v \<and> terminal_color w = terminal_color v \<and> terminal_buffer w = terminal_buffer v"
proof -
  have "r < 256" using assms by (simp add: vga_wf_def)
  then have "r * 78 + c < HISTORY_LEN" using assms(3) by simp
  moreover have "map (history_line ((history_buffer v)(r * 78 + c := e))) [0..<total_rows v] =
    (map (history_line (history_buffer v)) [0..<total_rows v])[r := (history_line (history_buffer v) r)[c := e]]"
    using assms(2,3) by (rule lines_update)
  ultimately show ?thesis
    using assms(2) by (simp add: set_history_def term_set_def term_of_def)
qed

lemma term_set_simps [simp]:
  "cur_row (term_set r c e t) = cur_row t" "cur_col (term_set r c e t) = cur_col t"
  "view (term_set r c e t) = view t" "colour (term_set r c e t) = colour t"
  "length (lines (term_set r c e t)) = length (lines t)"
  by (simp_all add: term_set_def)

text \<open>A cell is erased, and the view follows.\<close>

lemma erase_cell:
  assumes "vga_wf v" and "r < total_rows v" and "x < VGA_CONTENT_WIDTH"
  shows "\<exists>w. set_history (r * 78 + x) (vga_entry 32 (terminal_color v)) (v\<lparr>terminal_row := r, terminal_column := x\<rparr>) = Some w \<and>
    (\<exists>v'. sync_viewport P f (w, d) = Some (v', update_cursor P v' d) \<and> vga_wf v' \<and> shown v' \<and>
      term_of v' = term_follow f (term_set r x (vga_entry 32 (terminal_color v)) (term_of v)\<lparr>cur_row := r, cur_col := x\<rparr>) \<and>
      terminal_buffer v' = terminal_buffer v)"
proof -
  let ?e = "vga_entry 32 (terminal_color v)" and ?v = "v\<lparr>terminal_row := r, terminal_column := x\<rparr>"
  have wf: "total_rows v \<le> VGA_SCROLLBACK_ROWS" "terminal_buffer v \<noteq> 0" using assms(1) by (simp_all add: vga_wf_def)
  have "vga_wf ?v" using assms by (auto simp: vga_wf_def vga_bottom_viewport_row_def)
  then obtain w where w: "set_history (r * 78 + x) ?e ?v = Some w" "term_of w = term_set r x ?e (term_of ?v)"
      "terminal_row w = r" "terminal_column w = x" "total_rows w = total_rows v" "terminal_buffer w = terminal_buffer v"
    using set_history_term [of ?v r x ?e] assms(2,3) by auto
  have "term_of w = term_set r x ?e (term_of v)\<lparr>cur_row := r, cur_col := x\<rparr>"
    unfolding w(2) by (simp add: term_of_def term_set_def)
  then show ?thesis using w sync_viewport_spec [of w P f d] assms(2,3) wf by simp
qed

lemma putchar_backspace:
  assumes "vga_wf v"
  shows "\<exists>v'. vga_putchar P 8 (v, d) = Some (v', update_cursor P v' d) \<and> vga_wf v' \<and> shown v' \<and>
    term_of v' = term_putchar 8 (term_of v) \<and> terminal_buffer v' = terminal_buffer v"
proof -
  have wf: "terminal_row v < total_rows v" "total_rows v \<le> VGA_SCROLLBACK_ROWS" "terminal_column v < VGA_CONTENT_WIDTH"
    "terminal_buffer v \<noteq> 0" using assms by (simp_all add: vga_wf_def)
  note run = vga_putchar_def term_putchar_def term_bottom_of Let_def
  let ?f = "viewport_row v = vga_bottom_viewport_row v"
  consider (col) "terminal_column v > 0" | (row) "terminal_column v = 0" "terminal_row v > 0"
    | (home) "terminal_column v = 0" "terminal_row v = 0" by auto
  then show ?thesis
  proof cases
    case col
    have e: "v\<lparr>terminal_row := terminal_row v, terminal_column := terminal_column v - 1\<rparr> = v\<lparr>terminal_column := terminal_column v - 1\<rparr>"
      by simp
    have cur: "term_set r x c (term_of v)\<lparr>cur_row := terminal_row v, cur_col := y\<rparr> = term_set r x c (term_of v)\<lparr>cur_col := y\<rparr>" for r x c y
      by (simp add: term_set_def term_of_def)
    show ?thesis using erase_cell [OF assms wf(1) less_imp_diff_less [OF wf(3)], of 1 P ?f d] col unfolding e
      by (auto simp: run cur)
  next
    case row
    then show ?thesis using erase_cell [OF assms less_imp_diff_less [OF wf(1)], of 77 1 P ?f d] by (auto simp: run)
  next
    case home
    then show ?thesis using sync_viewport_spec [of v P ?f d] wf by (simp add: run)
  qed
qed

lemma putchar_printed:
  assumes "vga_wf v" and "c \<noteq> 10" and "c \<noteq> 8"
  shows "\<exists>v'. vga_putchar P c (v, d) = Some (v', update_cursor P v' d) \<and> vga_wf v' \<and> shown v' \<and>
    term_of v' = term_putchar c (term_of v) \<and> terminal_buffer v' = terminal_buffer v"
proof -
  have wf: "terminal_row v < total_rows v" "total_rows v \<le> VGA_SCROLLBACK_ROWS" "terminal_column v < VGA_CONTENT_WIDTH"
    "terminal_buffer v \<noteq> 0" using assms by (simp_all add: vga_wf_def)
  note run = vga_putchar_def term_putchar_def term_bottom_of Let_def
  let ?f = "viewport_row v = vga_bottom_viewport_row v" and ?e = "vga_entry c (terminal_color v)"
  obtain w where w: "set_history (terminal_row v * 78 + terminal_column v) ?e v = Some w"
      "term_of w = term_set (terminal_row v) (terminal_column v) ?e (term_of v)"
      "terminal_row w = terminal_row v" "terminal_column w = terminal_column v" "total_rows w = total_rows v"
      "terminal_buffer w = terminal_buffer v"
    using set_history_term [OF assms(1) wf(1) wf(3), of ?e] by auto
  show ?thesis
  proof (cases "terminal_column v + 1 = 78")
    case True
    let ?w = "w\<lparr>terminal_column := 78\<rparr>"
    have "term_newline (term_of ?w) = term_newline (term_set (terminal_row v) (terminal_column v) ?e (term_of v))"
      unfolding w(2) [symmetric] by (simp add: term_newline_def term_of_def term_blank_def Let_def)
    then show ?thesis using assms(2,3) True w wf advance_line_spec [of ?w P ?f d] by (simp add: run)
  next
    case False
    let ?w = "w\<lparr>terminal_column := terminal_column v + 1\<rparr>"
    have "term_of ?w = term_set (terminal_row v) (terminal_column v) ?e (term_of v)\<lparr>cur_col := terminal_column v + 1\<rparr>"
      unfolding w(2) [symmetric] by (simp add: term_of_def)
    then show ?thesis using assms(2,3) False w wf sync_viewport_spec [of ?w P ?f d] by (simp add: run)
  qed
qed

text \<open>
  The step of the console: on a well-formed state a character is processed without an error, the
  only output is the cursor position, the screen shows the viewport afterwards, and the lines and
  the cursor change as \<open>term_putchar\<close> says.
\<close>

lemma vga_putchar_spec:
  assumes "vga_wf v"
  shows "\<exists>v'. vga_putchar P c (v, d) = Some (v', update_cursor P v' d) \<and> vga_wf v' \<and> shown v' \<and>
    term_of v' = term_putchar c (term_of v) \<and> terminal_buffer v' = terminal_buffer v"
proof -
  consider "c = 10" | "c = 8" | "c \<noteq> 10" "c \<noteq> 8" by blast
  then show ?thesis
  proof cases
    case 1
    then show ?thesis
      using advance_line_spec [of v P "viewport_row v = vga_bottom_viewport_row v" d] assms
      by (simp add: vga_wf_def vga_putchar_def term_putchar_def term_bottom_of)
  qed (use putchar_backspace [OF assms] putchar_printed [OF assms] in simp_all)
qed

section \<open>The other operations\<close>

lemma clear_all_rows:
  "\<exists>v1. for_range 0 VGA_SCROLLBACK_ROWS clear_history_row v = Some v1 \<and>
    (\<forall>i < HISTORY_LEN. history_buffer v1 i = blank_entry v) \<and>
    (\<exists>h. v1 = v\<lparr>history_buffer := h\<rparr>)"
proof -
  have "\<exists>v1. for_range 0 256 clear_history_row v = Some v1 \<and>
    ((\<forall>i < 256 * 78. history_buffer v1 i = blank_entry v) \<and> (\<exists>h. v1 = v\<lparr>history_buffer := h\<rparr>))"
  proof (rule for_range_invariant [where
        I = "\<lambda>k s. (\<forall>i < k * 78. history_buffer s i = blank_entry v) \<and> (\<exists>h. s = v\<lparr>history_buffer := h\<rparr>)"])
    show "(\<forall>i < 0 * 78. history_buffer v i = blank_entry v) \<and> (\<exists>h. v = v\<lparr>history_buffer := h\<rparr>)"
      using history_self [of v] by (metis mult_zero_left not_less_zero)
    fix j s
    assume j: "(0::nat) \<le> j" "j < 256"
      and I: "(\<forall>i < j * 78. history_buffer s i = blank_entry v) \<and> (\<exists>h. s = v\<lparr>history_buffer := h\<rparr>)"
    then obtain h where h: "s = v\<lparr>history_buffer := h\<rparr>" by blast
    have "clear_history_row j s = Some (s\<lparr>history_buffer :=
        (\<lambda>i. if j * 78 \<le> i \<and> i < j * 78 + 78 then blank_entry v else h i)\<rparr>)"
      using j by (intro clear_history_row_eq) (simp_all add: h)
    then show "\<exists>s'. clear_history_row j s = Some s' \<and> (\<forall>i < Suc j * 78. history_buffer s' i = blank_entry v) \<and>
        (\<exists>h. s' = v\<lparr>history_buffer := h\<rparr>)"
      using I h by auto
  qed simp
  then show ?thesis by simp
qed

definition term_clear :: "terminal \<Rightarrow> terminal" where
  "term_clear t = t\<lparr>lines := [term_blank t], cur_row := 0, cur_col := 0, view := 0\<rparr>"

lemma vga_clear_spec:
  assumes "terminal_buffer v \<noteq> 0"
  shows "\<exists>v'. vga_clear P (v, d) = Some (v', update_cursor P v' d) \<and> vga_wf v' \<and> shown v' \<and>
    term_of v' = term_clear (term_of v) \<and> terminal_buffer v' = terminal_buffer v"
proof -
  obtain v1 h where v1: "for_range 0 256 clear_history_row v = Some v1" "v1 = v\<lparr>history_buffer := h\<rparr>"
      "\<forall>i < HISTORY_LEN. history_buffer v1 i = blank_entry v"
    using clear_all_rows [of v] by blast
  let ?w = "v1\<lparr>terminal_row := 0, terminal_column := 0, viewport_row := 0, total_rows := 1\<rparr>"
  have r: "render_viewport ?w = Some (draw ?w)" by (rule render_viewport_spec) (use assms v1(2) in simp_all)
  have "history_line h 0 = replicate 78 (blank_entry v)"
    using v1 by (intro nth_equalityI) (simp_all add: history_line_def)
  then have "term_of ?w = term_clear (term_of v)"
    using v1(2) by (simp add: term_of_def term_clear_def term_blank_def blank_entry_def)
  moreover have "vga_wf ?w" using assms v1(2) by (simp add: vga_wf_def)
  ultimately show ?thesis using v1(1,2) r by (simp add: vga_clear_def)
qed

lemma vga_initialize_spec:
  "\<exists>v'. vga_initialize P (v, d) = Some (v', update_cursor P v' (update_cursor P v' d)) \<and> vga_wf v' \<and> shown v' \<and>
    term_of v' = \<lparr>lines = [replicate VGA_CONTENT_WIDTH (vga_entry 32 7)], cur_row = 0, cur_col = 0, view = 0, colour = 7\<rparr>"
proof -
  let ?v1 = "v\<lparr>terminal_row := 0, terminal_column := 0, viewport_row := 0, total_rows := 1, terminal_color := 7\<rparr>"
  let ?w = "if terminal_buffer v = 0 then ?v1\<lparr>terminal_buffer := VGA_MEMORY\<rparr> else ?v1"
  have c: "vga_entry_color 7 0 = 7" by (simp add: vga_entry_color_def)
  obtain v' where v': "vga_clear P (?w, d) = Some (v', update_cursor P v' d)" "vga_wf v'" "shown v'"
      "term_of v' = term_clear (term_of ?w)"
  proof -
    have "terminal_buffer ?w \<noteq> 0" by simp
    from vga_clear_spec [OF this, of P d] show ?thesis using that by blast
  qed
  have "term_clear (term_of ?w) = \<lparr>lines = [replicate VGA_CONTENT_WIDTH (vga_entry 32 7)], cur_row = 0, cur_col = 0, view = 0, colour = 7\<rparr>"
    by (simp add: term_clear_def term_of_def term_blank_def)
  then show ?thesis using v' by (auto simp: vga_initialize_def c Let_def)
qed

lemma vga_write_spec:
  fixes P :: "'a ports"
  assumes "vga_wf v" and "sz \<le> length data"
  shows "\<exists>v' d'. vga_write P data sz (v, d) = Some (v', d') \<and> vga_wf v' \<and>
    term_of v' = fold term_putchar (take sz data) (term_of v) \<and> (shown v \<longrightarrow> shown v')"
proof -
  have "\<exists>s'. vga_write P data sz (v, d) = Some s' \<and> (vga_wf (fst s') \<and>
    term_of (fst s') = fold term_putchar (take sz data) (term_of v) \<and> (shown v \<longrightarrow> shown (fst s')))"
    unfolding vga_write_def
  proof (rule for_range_invariant [where
        I = "\<lambda>k s. vga_wf (fst s) \<and> term_of (fst s) = fold term_putchar (take k data) (term_of v) \<and> (shown v \<longrightarrow> shown (fst s))"])
    fix j and s :: "vga \<times> 'a"
    assume j: "j < sz"
      and I: "vga_wf (fst s) \<and> term_of (fst s) = fold term_putchar (take j data) (term_of v) \<and> (shown v \<longrightarrow> shown (fst s))"
    obtain w e where s: "s = (w, e)" by (cases s)
    have "take (Suc j) data = take j data @ [data ! j]" using j assms(2) by (simp add: take_Suc_conv_app_nth)
    then show "\<exists>s'. (do { c \<leftarrow> rd data j; vga_putchar P c s }) = Some s' \<and> vga_wf (fst s') \<and>
        term_of (fst s') = fold term_putchar (take (Suc j) data) (term_of v) \<and> (shown v \<longrightarrow> shown (fst s'))"
      using vga_putchar_spec [of w P "data ! j" e] I j assms(2) s by auto
  qed (use assms in simp_all)
  then show ?thesis by (auto split: prod.splits)
qed

lemma vga_scroll_to_bottom_spec:
  assumes "vga_wf v"
  shows "\<exists>v'. vga_scroll_to_bottom P (v, d) = Some (v', update_cursor P v' d) \<and> vga_wf v' \<and> shown v' \<and>
    term_of v' = (term_of v)\<lparr>view := term_bottom (term_of v)\<rparr>"
proof -
  let ?w = "v\<lparr>viewport_row := vga_bottom_viewport_row v\<rparr>"
  have r: "render_viewport ?w = Some (draw ?w)" by (rule render_viewport_spec) (use assms in \<open>simp_all add: vga_wf_def\<close>)
  have "vga_wf ?w" using assms by (simp add: vga_wf_def vga_bottom_viewport_row_def)
  moreover have "term_of ?w = (term_of v)\<lparr>view := term_bottom (term_of v)\<rparr>"
    by (simp add: term_bottom_of) (simp add: term_of_def)
  ultimately show ?thesis using r by (simp add: vga_scroll_to_bottom_def)
qed

lemma vga_scroll_view_spec:
  assumes "vga_wf v" and "- (2 ^ 31) \<le> delta" and "delta < 2 ^ 31 - 256"
  shows "\<exists>v'. vga_scroll_view P delta (v, d) = Some (v', update_cursor P v' d) \<and> vga_wf v' \<and> shown v' \<and>
    term_of v' = (term_of v)\<lparr>view := nat (max 0 (min (int (term_bottom (term_of v))) (int (view (term_of v)) + delta)))\<rparr>"
proof -
  let ?n = "int (viewport_row v) + delta"
  let ?b = "int (vga_bottom_viewport_row v)"
  let ?k = "if (if ?n < 0 then 0 else ?n) > ?b then ?b else if ?n < 0 then 0 else ?n"
  have "viewport_row v \<le> 256" using assms(1) by (auto simp: vga_wf_def vga_bottom_viewport_row_def split: if_splits)
  then have ov: "\<not> (?n < - (2 ^ 31) \<or> ?n \<ge> 2 ^ 31)" using assms(2,3) by simp
  have k: "?k = max 0 (min ?b ?n)" by auto
  have kb: "nat ?k \<le> vga_bottom_viewport_row v" by auto
  let ?w = "v\<lparr>viewport_row := nat ?k\<rparr>"
  have r: "render_viewport ?w = Some (draw ?w)" by (rule render_viewport_spec) (use assms in \<open>simp_all add: vga_wf_def\<close>)
  have "vga_wf ?w" using assms(1) kb unfolding vga_wf_def by (auto simp: vga_bottom_viewport_row_def)
  moreover have "term_of ?w = (term_of v)\<lparr>view := nat (max 0 (min (int (term_bottom (term_of v))) (int (view (term_of v)) + delta)))\<rparr>"
    unfolding k [symmetric] term_bottom_of by (simp add: k term_of_def)
  ultimately show ?thesis using r ov by (simp add: vga_scroll_view_def Let_def)
qed

lemma vga_putentryat_spec:
  assumes "vga_wf v"
  shows "\<exists>v'. vga_putentryat c color x y v = Some v' \<and> vga_wf v' \<and> (shown v \<longrightarrow> shown v')"
proof (cases "of_nat (viewport_row v) + y \<ge> of_nat VGA_SCROLLBACK_ROWS \<or> x \<ge> of_nat VGA_CONTENT_WIDTH \<or>
         y \<ge> of_nat VGA_CONTENT_HEIGHT")
  case True
  then show ?thesis using assms by (auto simp: vga_putentryat_def)
next
  case False
  have vp: "viewport_row v \<le> 233" using assms by (auto simp: vga_wf_def vga_bottom_viewport_row_def split: if_splits)
  have y: "unat y < 23" and x: "unat x < 78" using False by (simp_all add: word_le_nat_alt word_less_nat_alt not_le)
  have uv: "unat (of_nat (viewport_row v) :: u64) = viewport_row v" using vp by (intro unat_of_nat64) simp
  have s: "unat (of_nat (viewport_row v) + y) = viewport_row v + unat y" using uv y vp by (subst unat_add64) simp_all
  then have "unat ((of_nat (viewport_row v) + y) * 78) = (viewport_row v + unat y) * 78"
    using y vp by (subst unat_mult_lem [THEN iffD1]) simp_all
  then have i: "unat ((of_nat (viewport_row v) + y) * 78 + x) = (viewport_row v + unat y) * 78 + unat x"
    using x y vp by (subst unat_add64) simp_all
  have "viewport_row v + unat y < 256" using vp y by simp
  then have lt: "(viewport_row v + unat y) * 78 + unat x < HISTORY_LEN" using x by simp
  let ?w = "v\<lparr>history_buffer := (history_buffer v)((viewport_row v + unat y) * 78 + unat x := vga_entry c color)\<rparr>"
  have r: "render_viewport ?w = Some (draw ?w)" by (rule render_viewport_spec) (use assms in \<open>simp_all add: vga_wf_def\<close>)
  have "vga_wf ?w" using assms unfolding vga_wf_def vga_bottom_viewport_row_def
    by (simp split: if_split_asm)
  moreover have "vga_putentryat c color x y v = Some (draw ?w)"
    using False i lt r by (simp add: vga_putentryat_def set_history_def)
  ultimately show ?thesis by auto
qed


section \<open>Arrays of entries in bytes\<close>

text \<open>
  Little-endian 16-bit entries at an address of byte memory, and what \<open>kmemmove\<close> and \<open>kmemcpy\<close>,
  which count bytes, do to them.
\<close>

definition entry_at :: "mem \<Rightarrow> u64 \<Rightarrow> nat \<Rightarrow> u16" where
  "entry_at m a i = ucast (m (a + of_nat (2 * i))) OR push_bit 8 (ucast (m (a + of_nat (2 * i + 1))))"

lemma copied_byte:
  assumes "2 * (dst + n) \<le> N" and "2 * (src + n) \<le> N" and "k < N" and "N < 2 ^ 63"
  shows "copied m (a + of_nat (2 * dst)) (b + of_nat (2 * src)) (of_nat (2 * n)) (a + of_nat k) =
    (if 2 * dst \<le> k \<and> k < 2 * (dst + n) then m (b + of_nat (2 * src + (k - 2 * dst))) else m (a + of_nat k))"
proof (cases "2 * dst \<le> k")
  case True
  then have d: "(a + of_nat k) - (a + of_nat (2 * dst)) = (of_nat (k - 2 * dst) :: u64)" by (simp add: of_nat_diff)
  have "k - 2 * dst < 2 ^ 64" "2 * n < 2 ^ 64" using assms by simp_all
  then have "(of_nat (k - 2 * dst) :: u64) < of_nat (2 * n) \<longleftrightarrow> k - 2 * dst < 2 * n"
    by (simp only: word_less_nat_alt unat_of_nat64)
  moreover have "b + of_nat (2 * src) + of_nat (k - 2 * dst) = b + of_nat (2 * src + (k - 2 * dst))"
    by (simp only: of_nat_add add.assoc)
  moreover have "k - 2 * dst < 2 * n \<longleftrightarrow> k < 2 * (dst + n)" using True by auto
  ultimately show ?thesis using True unfolding copied_def d by (simp only: simp_thms)
next
  case False
  have "(a + of_nat k) - (a + of_nat (2 * dst)) = (- of_nat (2 * dst - k) :: u64)"
    using False by (simp add: of_nat_diff)
  moreover have "unat (- of_nat (2 * dst - k) :: u64) = 2 ^ 64 - (2 * dst - k)"
  proof -
    have u: "unat (of_nat (2 * dst - k) :: u64) = 2 * dst - k" using assms by (intro unat_of_nat64) simp
    then show ?thesis
      using unat_sub_if' [of 0 "of_nat (2 * dst - k) :: u64"] False by (simp add: word_le_nat_alt)
  qed
  moreover have "unat (of_nat (2 * n) :: u64) = 2 * n" using assms by (intro unat_of_nat64) simp
  ultimately have "\<not> (a + of_nat k) - (a + of_nat (2 * dst)) < (of_nat (2 * n) :: u64)"
    using assms False by (simp add: word_less_nat_alt)
  then show ?thesis using False by (simp add: copied_def)
qed

lemma move16_is_kmemmove:
  assumes "dst + n \<le> len" and "src + n \<le> len" and "i < len" and "unat a + 2 * len < 2 ^ 63"
  shows "entry_at (kmemmove m (a + of_nat (2 * dst)) (a + of_nat (2 * src)) (of_nat (2 * n))) a i =
    move16 (entry_at m a) dst src n i"
proof -
  have ua: "unat (a + of_nat k) = unat a + k" if "k \<le> 2 * len" for k
  proof -
    have "unat (of_nat k :: u64) = k" using that assms(4) by (intro unat_of_nat64) simp
    then show ?thesis using that assms(4) by (subst unat_add64) simp_all
  qed
  have un: "unat (of_nat (2 * n) :: u64) = 2 * n" using assms by (intro unat_of_nat64) simp
  have c: "kmemmove m (a + of_nat (2 * dst)) (a + of_nat (2 * src)) (of_nat (2 * n)) =
      copied m (a + of_nat (2 * dst)) (a + of_nat (2 * src)) (of_nat (2 * n))"
    using ua [of "2 * dst"] ua [of "2 * src"] un assms by (intro kmemmove_copied) simp_all
  have b: "2 * (dst + n) \<le> 2 * len" "2 * (src + n) \<le> 2 * len" "2 * len < 2 ^ 63" "2 * i < 2 * len" "2 * i + 1 < 2 * len"
    using assms by simp_all
  note e0 = copied_byte [OF b(1,2) b(4) b(3), of m a a] and e1 = copied_byte [OF b(1,2) b(5) b(3), of m a a]
  have "2 * src + (2 * i - 2 * dst) = 2 * (src + (i - dst))"
    and "2 * src + (2 * i + 1 - 2 * dst) = 2 * (src + (i - dst)) + 1" if "dst \<le> i"
    using that by simp_all
  then show ?thesis unfolding c entry_at_def move16_def e0 e1 by auto
qed

lemma copy16_is_kmemcpy:
  assumes "dst + n \<le> len" and "src + n \<le> len" and "i < len"
    and "2 * len < 2 ^ 63" and "unat a + 2 * len \<le> unat b \<or> unat b + 2 * len \<le> unat a"
    and "unat a + 2 * len < 2 ^ 64" and "unat b + 2 * len < 2 ^ 64"
  shows "entry_at (kmemcpy m (a + of_nat (2 * dst)) (b + of_nat (2 * src)) (of_nat (2 * n))) a i =
    copy16 (entry_at m a) dst (entry_at m b) src n i"
proof -
  have ua: "unat (a + of_nat k) = unat a + k" and ub: "unat (b + of_nat k) = unat b + k" if "k \<le> 2 * len" for k
  proof -
    have "unat (of_nat k :: u64) = k" using that assms(4) by (intro unat_of_nat64) simp
    then show "unat (a + of_nat k) = unat a + k" "unat (b + of_nat k) = unat b + k"
      using that assms(6,7) by (subst unat_add64, simp_all)+
  qed
  have un: "unat (of_nat (2 * n) :: u64) = 2 * n" using assms by (intro unat_of_nat64) simp
  let ?d = "(a + of_nat (2 * dst)) - (b + of_nat (2 * src))"
  have "\<not> (0 < ?d \<and> ?d < of_nat (2 * n))"
  proof (cases "n = 0")
    case True
    then show ?thesis by simp
  next
    case n0: False
    show ?thesis
  proof (cases "unat a + 2 * len \<le> unat b")
    case True
    have lt: "a + of_nat (2 * dst) < b + of_nat (2 * src)"
      using ua [of "2 * dst"] ub [of "2 * src"] True assms(1,2) un n0 by (simp add: word_less_nat_alt)
    have "unat ?d = 2 ^ 64 + unat (a + of_nat (2 * dst)) - unat (b + of_nat (2 * src))"
      using lt by (simp add: unat_sub_if' word_less_nat_alt word_le_nat_alt)
    then have "\<not> ?d < of_nat (2 * n)"
      using ua [of "2 * dst"] ub [of "2 * src"] un assms by (simp add: word_less_nat_alt)
    then show ?thesis by simp
  next
    case False
    then have le: "unat b + 2 * len \<le> unat a" using assms(5) by simp
    have "unat ?d = unat (a + of_nat (2 * dst)) - unat (b + of_nat (2 * src))"
      using ua [of "2 * dst"] ub [of "2 * src"] le assms(1,2) by (intro unat_sub) (simp add: word_le_nat_alt)
    then have "\<not> ?d < of_nat (2 * n)"
      using ua [of "2 * dst"] ub [of "2 * src"] un le assms(1,2) by (simp add: word_less_nat_alt)
    then show ?thesis by simp
  qed
  qed
  then have c: "kmemcpy m (a + of_nat (2 * dst)) (b + of_nat (2 * src)) (of_nat (2 * n)) =
      copied m (a + of_nat (2 * dst)) (b + of_nat (2 * src)) (of_nat (2 * n))"
    by (rule kmemcpy_eq_copied)
  have b: "2 * (dst + n) \<le> 2 * len" "2 * (src + n) \<le> 2 * len" "2 * len < 2 ^ 63" "2 * i < 2 * len" "2 * i + 1 < 2 * len"
    using assms by simp_all
  note e0 = copied_byte [OF b(1,2) b(4) b(3), of m a b] and e1 = copied_byte [OF b(1,2) b(5) b(3), of m a b]
  have "2 * src + (2 * i - 2 * dst) = 2 * (src + (i - dst))"
    and "2 * src + (2 * i + 1 - 2 * dst) = 2 * (src + (i - dst)) + 1" if "dst \<le> i"
    using that by simp_all
  then show ?thesis unfolding c entry_at_def copy16_def e0 e1 by auto
qed



section \<open>Operations in any order\<close>

datatype vga_op = Putchar u8 | Writestring "u8 list" | Clear | Setcolor u8 | Scroll int | ScrollBottom
  | Putentry u8 u8 u64 u64

fun vga_do :: "'d ports \<Rightarrow> vga_op \<Rightarrow> vga \<times> 'd \<Rightarrow> (vga \<times> 'd) option" where
  "vga_do P (Putchar c) s = vga_putchar P c s"
| "vga_do P (Writestring cs) s = vga_writestring P cs s"
| "vga_do P Clear s = vga_clear P s"
| "vga_do P (Setcolor c) s = Some (vga_setcolor c (fst s), snd s)"
| "vga_do P (Scroll n) s = vga_scroll_view P n s"
| "vga_do P ScrollBottom s = vga_scroll_to_bottom P s"
| "vga_do P (Putentry c col x y) s = do { v \<leftarrow> vga_putentryat c col x y (fst s); Some (v, snd s) }"

fun vga_run :: "'d ports \<Rightarrow> vga_op list \<Rightarrow> vga \<times> 'd \<Rightarrow> (vga \<times> 'd) option" where
  "vga_run P [] s = Some s"
| "vga_run P (x # xs) s = do { t \<leftarrow> vga_do P x s; vga_run P xs t }"

text \<open>Strings are terminated and scroll distances are moderate.\<close>

fun vga_op_ok :: "vga_op \<Rightarrow> bool" where
  "vga_op_ok (Writestring cs) \<longleftrightarrow> 0 \<in> set cs"
| "vga_op_ok (Scroll n) \<longleftrightarrow> \<bar>n\<bar> < 2 ^ 30"
| "vga_op_ok _ \<longleftrightarrow> True"

lemma vga_do_wf:
  assumes "vga_wf (fst s)" and "vga_op_ok x"
  shows "\<exists>t. vga_do P x s = Some t \<and> vga_wf (fst t)"
proof -
  obtain v d where s: "s = (v, d)" by (cases s)
  then have wf: "vga_wf v" using assms(1) by simp
  show ?thesis
  proof (cases x)
    case (Putchar c)
    then show ?thesis using vga_putchar_spec [OF wf, of P c d] s by auto
  next
    case (Writestring cs)
    then have "kstrlen cs = Some (length (cstr cs))" using assms(2) by (simp add: kstrlen_cstr)
    then show ?thesis
      using vga_write_spec [OF wf length_cstr_le [of cs], of P d] s Writestring by (auto simp: vga_writestring_def)
  next
    case Clear
    then show ?thesis using vga_clear_spec [of v P d] s wf by (auto simp: vga_wf_def)
  next
    case (Setcolor c)
    then show ?thesis using wf s
      by (simp add: vga_setcolor_def vga_wf_def vga_bottom_viewport_row_def split: if_split_asm)
  next
    case (Scroll n)
    moreover have "- (2 ^ 31) \<le> n" "n < 2 ^ 31 - 256" using assms(2) Scroll by simp_all
    ultimately show ?thesis using vga_scroll_view_spec [OF wf, of n P d] s by auto
  next
    case ScrollBottom
    then show ?thesis using vga_scroll_to_bottom_spec [OF wf, of P d] s by auto
  next
    case (Putentry c col x y)
    then show ?thesis using vga_putentryat_spec [OF wf, of c col x y] s by auto
  qed
qed

lemma vga_run_wf:
  assumes "vga_wf (fst s)" and "\<forall>x \<in> set ops. vga_op_ok x"
  shows "\<exists>t. vga_run P ops s = Some t \<and> vga_wf (fst t)"
  using assms
proof (induction ops arbitrary: s)
  case (Cons x ops)
  then obtain t where "vga_do P x s = Some t" "vga_wf (fst t)" using vga_do_wf [of s x P] by auto
  then show ?case using Cons.IH [of t] Cons.prems(2) by simp
qed simp

section \<open>Text on a cleared console\<close>

text \<open>The rows of a text: the parts between newlines, each cut after every 78 characters; a row that is
  full is followed by one more, where the cursor is.\<close>

fun paragraphs :: "u8 list \<Rightarrow> u8 list list" where
  "paragraphs [] = [[]]"
| "paragraphs (c # cs) =
     (if c = 10 then [] # paragraphs cs else (c # hd (paragraphs cs)) # tl (paragraphs cs))"

function wrapped :: "u8 list \<Rightarrow> u8 list list" where
  "wrapped p = (if length p < VGA_CONTENT_WIDTH then [p] else take VGA_CONTENT_WIDTH p # wrapped (drop VGA_CONTENT_WIDTH p))"
  by auto
termination by (relation "measure length") auto

declare wrapped.simps [simp del]

definition text_rows :: "u8 list \<Rightarrow> u8 list list" where
  "text_rows s = concat (map wrapped (paragraphs s))"

text \<open>The terminal that shows rows of text: the last 256 of them, padded with blanks, the cursor after the
  last character and the view at the bottom.\<close>

definition text_line :: "u8 \<Rightarrow> u8 list \<Rightarrow> u16 list" where
  "text_line col row = map (\<lambda>c. vga_entry c col) row @ replicate (VGA_CONTENT_WIDTH - length row) (vga_entry 32 col)"

definition kept_rows :: "u8 list list \<Rightarrow> u8 list list" where
  "kept_rows rs = drop (length rs - VGA_SCROLLBACK_ROWS) rs"

definition term_text :: "u8 \<Rightarrow> u8 list list \<Rightarrow> terminal" where
  "term_text col rs =
     \<lparr>lines = map (text_line col) (kept_rows rs), cur_row = length (kept_rows rs) - 1, cur_col = length (last rs),
      view = length (kept_rows rs) - VGA_CONTENT_HEIGHT, colour = col\<rparr>"

text \<open>One more character on the last row; one more row.\<close>

definition typed :: "u8 \<Rightarrow> u8 list list \<Rightarrow> u8 list list" where
  "typed c rs = butlast rs @ [last rs @ [c]]"

definition add_char :: "u8 \<Rightarrow> u8 list list \<Rightarrow> u8 list list" where
  "add_char c rs =
     (if c = 10 then rs @ [[]]
      else if length (last rs) + 1 = VGA_CONTENT_WIDTH then typed c rs @ [[]] else typed c rs)"

lemma paragraphs_ne [simp]: "paragraphs s \<noteq> []"
  by (cases s) simp_all

lemma paragraphs_line: "10 \<notin> set p \<Longrightarrow> paragraphs p = [p]" and
  paragraphs_lines: "10 \<notin> set p \<Longrightarrow> paragraphs (p @ 10 # s) = p # paragraphs s"
  by (induction p) auto

lemma paragraphs_snoc:
  "paragraphs (s @ [c]) = (if c = 10 then paragraphs s @ [[]] else typed c (paragraphs s))"
proof (induction s)
  case (Cons a s)
  obtain q qs where "paragraphs s = q # qs" by (cases "paragraphs s") simp_all
  then show ?case using Cons.IH by (cases "qs = []") (auto simp: typed_def)
qed (simp add: typed_def)

lemma wrapped_ne [simp]: "wrapped p \<noteq> []"
  by (subst wrapped.simps) simp

lemma typed_append: "ys \<noteq> [] \<Longrightarrow> typed c (xs @ ys) = xs @ typed c ys"
  by (simp add: typed_def butlast_append)

lemma add_char_append: "ys \<noteq> [] \<Longrightarrow> add_char c (xs @ ys) = xs @ add_char c ys"
  by (simp add: add_char_def typed_append)

lemma wrapped_snoc: "c \<noteq> 10 \<Longrightarrow> wrapped (p @ [c]) = add_char c (wrapped p)"
proof (induction p rule: wrapped.induct)
  case (1 p)
  show ?case
  proof (cases "length p < VGA_CONTENT_WIDTH")
    case True
    have "wrapped [] = [[]]" by (subst wrapped.simps) simp
    then show ?thesis using True 1(2) by (subst (1 2) wrapped.simps) (auto simp: add_char_def typed_def)
  next
    case False
    then have "wrapped (p @ [c]) = take 78 p # wrapped (drop 78 p @ [c])" by (subst wrapped.simps) simp
    also have "\<dots> = add_char c ([take 78 p] @ wrapped (drop 78 p))"
      unfolding add_char_append [OF wrapped_ne] using 1(1) [OF False 1(2)] by simp
    also have "[take 78 p] @ wrapped (drop 78 p) = wrapped p" using False by (subst (2) wrapped.simps) simp
    finally show ?thesis .
  qed
qed

lemma text_rows_snoc: "text_rows (s @ [c]) = add_char c (text_rows s)"
proof -
  obtain ps p where p: "paragraphs s = ps @ [p]" by (metis paragraphs_ne rev_exhaust)
  have "wrapped [] = [[]]" by (subst wrapped.simps) simp
  then show ?thesis
    by (auto simp: text_rows_def paragraphs_snoc p typed_append typed_def [of c "[p]"] wrapped_snoc add_char_append add_char_def [of 10])
qed

lemma text_rows_fit:
  "text_rows s \<noteq> [] \<and> length (last (text_rows s)) < VGA_CONTENT_WIDTH \<and> (\<forall>r \<in> set (text_rows s). length r \<le> VGA_CONTENT_WIDTH)"
proof (induction s rule: rev_induct)
  case Nil
  have "wrapped [] = [[]]" by (subst wrapped.simps) simp
  then show ?case by (simp add: text_rows_def)
next
  case (snoc c s)
  then show ?case unfolding text_rows_snoc by (auto simp: add_char_def typed_def dest: in_set_butlastD)
qed

lemma kept_rows_snoc:
  "kept_rows (rs @ [r]) = (if length rs < VGA_SCROLLBACK_ROWS then rs else tl (kept_rows rs)) @ [r]"
proof (cases "length rs < VGA_SCROLLBACK_ROWS")
  case False
  then have "length (rs @ [r]) - VGA_SCROLLBACK_ROWS = Suc (length rs - VGA_SCROLLBACK_ROWS)" by simp
  then show ?thesis using False unfolding kept_rows_def by (simp only: drop_append) (simp add: drop_Suc tl_drop)
qed (simp add: kept_rows_def)

lemma kept_rows_last: "rs \<noteq> [] \<Longrightarrow> kept_rows rs \<noteq> [] \<and> last (kept_rows rs) = last rs"
proof -
  assume "rs \<noteq> []"
  then have "length rs - VGA_SCROLLBACK_ROWS < length rs" by simp
  then show "kept_rows rs \<noteq> [] \<and> last (kept_rows rs) = last rs" unfolding kept_rows_def by simp
qed

lemma kept_rows_typed: "rs \<noteq> [] \<Longrightarrow> kept_rows (typed c rs) = typed c (kept_rows rs)"
  by (simp add: kept_rows_def typed_def butlast_drop)

lemma length_kept_rows: "length (kept_rows rs) = min (length rs) VGA_SCROLLBACK_ROWS"
  by (simp add: kept_rows_def)

lemma text_line_blank: "text_line col [] = replicate VGA_CONTENT_WIDTH (vga_entry 32 col)"
  by (simp add: text_line_def)

lemma text_line_snoc:
  "length r < VGA_CONTENT_WIDTH \<Longrightarrow> (text_line col r)[length r := vga_entry c col] = text_line col (r @ [c])"
  by (simp add: text_line_def list_update_append Suc_diff_Suc [symmetric])

lemma term_text_newline:
  assumes "rs \<noteq> []"
  shows "term_follow True (term_newline (term_text col rs\<lparr>cur_col := x\<rparr>)) = term_text col (rs @ [[]])"
  using assms kept_rows_last [OF assms]
  by (auto simp: term_newline_def term_follow_def term_text_def term_bottom_def term_blank_def Let_def length_kept_rows
      kept_rows_snoc text_line_blank map_tl kept_rows_def [of rs])

lemma term_text_typed:
  assumes "rs \<noteq> []" and "length (last rs) < VGA_CONTENT_WIDTH"
  shows "term_set (cur_row (term_text col rs)) (length (last rs)) (vga_entry c col) (term_text col rs)\<lparr>cur_col := length (last rs) + 1\<rparr> =
    term_text col (typed c rs)"
proof -
  obtain ks where k: "kept_rows rs = ks @ [last rs]" using kept_rows_last [OF assms(1)] by (metis append_butlast_last_id)
  then show ?thesis
    using kept_rows_typed [OF assms(1), of c] text_line_snoc [OF assms(2), of col c]
    by (simp add: term_set_def term_text_def typed_def nth_append list_update_append)
qed

lemma term_text_putchar:
  assumes "rs \<noteq> []" and "length (last rs) < VGA_CONTENT_WIDTH" and "c \<noteq> 8"
  shows "term_putchar c (term_text col rs) = term_text col (add_char c rs)"
proof -
  let ?t = "term_text col rs"
  have t: "view ?t = term_bottom ?t" "colour ?t = col" "cur_col ?t = length (last rs)"
    by (simp_all add: term_text_def term_bottom_def)
  consider "c = 10" | "c \<noteq> 10" "length (last rs) + 1 = 78" | "c \<noteq> 10" "length (last rs) + 1 \<noteq> 78" by blast
  then show ?thesis
  proof cases
    case 1
    have e: "?t\<lparr>cur_col := length (last rs)\<rparr> = ?t" by (simp add: term_text_def)
    have "term_follow True (term_newline ?t) = term_text col (rs @ [[]])"
      using term_text_newline [OF assms(1), where col = col and x = "length (last rs)"] unfolding e .
    then show ?thesis using 1 t by (simp add: term_putchar_def add_char_def)
  next
    case 2
    let ?n = "length (last rs)" and ?s = "term_set (cur_row ?t) (length (last rs)) (vga_entry c col) ?t"
    have "term_newline ?s = term_newline (?s\<lparr>cur_col := ?n + 1\<rparr>)" by (simp add: term_newline_def Let_def term_blank_def)
    also have "\<dots> = term_newline (term_text col (typed c rs)\<lparr>cur_col := ?n + 1\<rparr>)"
      unfolding term_text_typed [OF assms(1,2)] by (simp add: term_text_def typed_def)
    finally have "term_follow True (term_newline ?s) = term_text col (typed c rs @ [[]])"
      using term_text_newline [of "typed c rs" "?n + 1" col] by (simp add: typed_def)
    then show ?thesis using 2 t assms(3) by (simp add: term_putchar_def add_char_def)
  next
    case 3
    have "term_text col rs'\<lparr>view := term_bottom (term_text col rs')\<rparr> = term_text col rs'" for rs'
      by (simp add: term_text_def term_bottom_def)
    then show ?thesis using 3 term_text_typed [OF assms(1,2), of col c] t assms(3)
      by (simp add: term_putchar_def add_char_def term_follow_def)
  qed
qed

lemma term_text_write:
  assumes "8 \<notin> set s"
  shows "fold term_putchar s (term_text col (text_rows [])) = term_text col (text_rows s)"
  using assms
proof (induction s rule: rev_induct)
  case (snoc c s)
  then show ?case using term_text_putchar [of "text_rows s" c col] text_rows_fit [of s] by (simp add: text_rows_snoc)
qed simp

lemma term_clear_text: "term_clear t = term_text (colour t) (text_rows [])"
proof -
  have "wrapped [] = [[]]" by (subst wrapped.simps) simp
  then show ?thesis
    by (cases t) (simp add: term_clear_def term_text_def text_rows_def kept_rows_def term_blank_def text_line_blank)
qed

section \<open>Text on a line\<close>

lemma term_putchar_text:
  assumes "c \<noteq> 10" and "c \<noteq> 8" and "cur_col t + 1 < VGA_CONTENT_WIDTH" and "view t = term_bottom t"
  shows "term_putchar c t = term_set (cur_row t) (cur_col t) (vga_entry c (colour t)) t\<lparr>cur_col := cur_col t + 1\<rparr>"
proof -
  have "term_bottom (term_set (cur_row t) (cur_col t) (vga_entry c (colour t)) t\<lparr>cur_col := cur_col t + 1\<rparr>) = view t"
    using assms(4) by (simp add: term_bottom_def term_set_def)
  then show ?thesis using assms by (simp add: term_putchar_def term_follow_def Let_def term_set_def)
qed

section \<open>Properties\<close>

definition example_vga :: vga where
  "example_vga = vga_static\<lparr>total_rows := 1, terminal_buffer := VGA_MEMORY, terminal_color := 7\<rparr>"

lemma example_vga_wf: "vga_wf example_vga"
  by (simp add: example_vga_def vga_static_def vga_wf_def)

text \<open>C19: \<open>vga_putchar\<close> refines a terminal made of lines: for every character, newline, backspace,
  wrapping at the right margin and scrolling out of the 256-row history included, it stays inside
  its arrays, the screen afterwards shows the viewport, the hardware cursor is told the position,
  and lines, cursor and view change as the specification says.\<close>

theorem vga_putchar_refines:
  assumes "vga_wf v"
  shows "\<exists>v'. vga_putchar P c (v, d) = Some (v', update_cursor P v' d) \<and> vga_wf v' \<and> shown v' \<and>
    term_of v' = term_putchar c (term_of v)"
  using vga_putchar_spec [OF assms, of P c d] by blast

theorem vga_putchar_refines_witness:
  "\<exists>v'. vga_putchar log_ports 65 (example_vga, log_device0) = Some (v', update_cursor log_ports v' log_device0) \<and>
     vga_wf v' \<and> shown v' \<and> term_of v' = term_putchar 65 (term_of example_vga)"
  by (rule vga_putchar_refines [OF example_vga_wf])

text \<open>C35: after \<open>vga_initialize\<close>, on any earlier state, every sequence of console operations with
  terminated strings returns, never leaves the history buffer or the screen, and keeps the row,
  column and viewport counters in range.\<close>

theorem vga_safe:
  assumes "\<forall>x \<in> set ops. vga_op_ok x"
  shows "\<exists>s t. vga_initialize P (v, d) = Some s \<and> vga_run P ops s = Some t \<and> vga_wf (fst t)"
proof -
  obtain v' where "vga_initialize P (v, d) = Some (v', update_cursor P v' (update_cursor P v' d))" "vga_wf v'"
    using vga_initialize_spec [of P v d] by blast
  then show ?thesis
    using vga_run_wf [OF _ assms, of "(v', update_cursor P v' (update_cursor P v' d))" P] by auto
qed

theorem vga_safe_witness:
  "\<exists>s t. vga_initialize log_ports (vga_static, log_device0) = Some s \<and>
     vga_run log_ports [Writestring (str ''hello'' @ [0]), Scroll (-1), Putentry 65 7 (- 1) 3, Putchar 8] s = Some t \<and>
     vga_wf (fst t)"
  by (rule vga_safe) simp

text \<open>C36: a text without backspaces, of any length, written after a clear is laid out line by line: newlines
  end a line, a line that is full continues on the next one, the last 256 lines are kept, each padded with
  blanks in the current colour, the cursor is after the last character, and the view, which the screen
  shows, is at the bottom.\<close>

theorem vga_text_correct:
  assumes "terminal_buffer v \<noteq> 0" and "8 \<notin> set s"
  shows "\<exists>v1 d1 v2 d2. vga_clear P (v, d) = Some (v1, d1) \<and> vga_write P s (length s) (v1, d1) = Some (v2, d2) \<and>
    term_of v2 = term_text (terminal_color v) (text_rows s) \<and> shown v2"
proof -
  obtain v1 where v1: "vga_clear P (v, d) = Some (v1, update_cursor P v1 d)" "vga_wf v1" "shown v1"
      "term_of v1 = term_clear (term_of v)"
    using vga_clear_spec [OF assms(1), of P d] by blast
  obtain v2 d2 where v2: "vga_write P s (length s) (v1, update_cursor P v1 d) = Some (v2, d2)" "shown v1 \<longrightarrow> shown v2"
      "term_of v2 = fold term_putchar s (term_of v1)"
    using vga_write_spec [OF v1(2) order_refl, of P s "update_cursor P v1 d"] by auto
  have "term_of v2 = term_text (terminal_color v) (text_rows s)"
    unfolding v2(3) v1(4) term_clear_text using term_text_write [OF assms(2)] by simp
  then show ?thesis using v1(1,3) v2(1,2) by blast
qed
theorem vga_text_correct_witness:
  "\<exists>v1 d1 v2 d2. vga_clear log_ports (example_vga, log_device0) = Some (v1, d1) \<and>
     vga_write log_ports (str ''hi'' @ [10] @ replicate 80 65) 83 (v1, d1) = Some (v2, d2) \<and>
     lines (term_of v2) = [text_line 7 (str ''hi''), text_line 7 (replicate 78 65), text_line 7 (replicate 2 65)] \<and>
     terminal_row v2 = 2 \<and> terminal_column v2 = 2 \<and> viewport_row v2 = 0"
proof -
  let ?s = "str ''hi'' @ [10] @ replicate 80 65 :: u8 list"
  have v: "terminal_buffer example_vga \<noteq> 0" "terminal_color example_vga = 7" by (simp_all add: example_vga_def vga_static_def)
  have s: "8 \<notin> set ?s" "length ?s = 83" by (simp_all add: str_def)
  have p: "paragraphs ?s = [str ''hi'', replicate 80 65]"
    using paragraphs_lines [of "str ''hi''" "replicate 80 65"] paragraphs_line [of "replicate 80 65"] by (simp add: str_def)
  have w: "wrapped (str ''hi'') = [str ''hi'']" "wrapped (replicate 80 65) = [replicate 78 65, replicate 2 65]"
    by (subst wrapped.simps, simp add: str_def)+
  have r: "text_rows ?s = [str ''hi'', replicate 78 65, replicate 2 65]" unfolding text_rows_def p using w by simp
  obtain v1 d1 v2 d2 where w: "vga_clear log_ports (example_vga, log_device0) = Some (v1, d1)"
      "vga_write log_ports ?s 83 (v1, d1) = Some (v2, d2)" "term_of v2 = term_text 7 [str ''hi'', replicate 78 65, replicate 2 65]"
    using vga_text_correct [OF v(1) s(1), of log_ports log_device0] unfolding r s(2) v(2) by blast
  have "cur_row (term_of v2) = 2" "cur_col (term_of v2) = 2" "view (term_of v2) = 0"
      "lines (term_of v2) = [text_line 7 (str ''hi''), text_line 7 (replicate 78 65), text_line 7 (replicate 2 65)]"
    unfolding w(3) term_text_def kept_rows_def by simp_all
  then show ?thesis using w(1,2) by (intro exI [of _ v1] exI [of _ d1] exI [of _ v2] exI [of _ d2]) simp
qed

text \<open>A backspace undoes a printed character: the cursor is back, the cell is blank, and nothing
  else has changed.\<close>

lemma vga_backspace_undoes:
  assumes "vga_wf v" and "viewport_row v = vga_bottom_viewport_row v" and "c \<noteq> 10" and "c \<noteq> 8"
    and "terminal_column v + 1 < VGA_CONTENT_WIDTH"
  shows "\<exists>v1 v2 d1 d2. vga_putchar P c (v, d) = Some (v1, d1) \<and> vga_putchar P 8 (v1, d1) = Some (v2, d2) \<and>
    term_of v2 = term_set (terminal_row v) (terminal_column v) (vga_entry 32 (terminal_color v)) (term_of v)"
proof -
  obtain v1 d1 where v1: "vga_putchar P c (v, d) = Some (v1, d1)" "vga_wf v1" "term_of v1 = term_putchar c (term_of v)"
    using vga_putchar_spec [OF assms(1), of P c d] by blast
  obtain v2 d2 where v2: "vga_putchar P 8 (v1, d1) = Some (v2, d2)" "term_of v2 = term_putchar 8 (term_of v1)"
    using vga_putchar_spec [OF v1(2), of P 8 d1] by blast
  let ?e = "vga_entry c (terminal_color v)" and ?b = "vga_entry 32 (terminal_color v)"
  have s: "term_of v1 = term_set (terminal_row v) (terminal_column v) ?e (term_of v)\<lparr>cur_col := terminal_column v + 1\<rparr>"
    unfolding v1(3) using assms by (subst term_putchar_text) (simp_all add: term_bottom_of)
  have row: "terminal_row v < length (lines (term_of v))" using assms(1) by (simp add: vga_wf_def)
  have "term_putchar 8 (term_of v1) = term_set (terminal_row v) (terminal_column v) ?b (term_of v)"
    unfolding s using row assms(2)
    by (simp add: term_putchar_def term_follow_def term_set_def term_bottom_def vga_bottom_viewport_row_def)
  then show ?thesis using v1 v2 by auto
qed

end
