(* ===== verification/Loops.thy ===== *)
theory Loops
  imports Prelude
begin

text \<open>
  Loops of the code that wait for something outside the program: a body is tried until it succeeds.
  The result is \<open>None\<close> when the body fails or when the loop never ends; the lemmas say when it ends,
  with what, and when it does not.
\<close>

section \<open>Repeating until a result\<close>

partial_function (option) repeat_until :: "('s \<Rightarrow> ('r option \<times> 's) option) \<Rightarrow> 's \<Rightarrow> ('r \<times> 's) option" where
  "repeat_until f s =
     do { (r, s') \<leftarrow> f s;
          case r of Some v \<Rightarrow> Some (v, s') | None \<Rightarrow> repeat_until f s' }"

declare repeat_until.simps [code]

text \<open>The state after \<open>n\<close> iterations without a result.\<close>

primrec misses :: "('s \<Rightarrow> ('r option \<times> 's) option) \<Rightarrow> nat \<Rightarrow> 's \<Rightarrow> 's option" where
  "misses f 0 s = Some s"
| "misses f (Suc n) s = do { (r, s') \<leftarrow> f s; case r of Some v \<Rightarrow> None | None \<Rightarrow> misses f n s' }"

lemma repeat_until_hit: "f s = Some (Some v, t) \<Longrightarrow> repeat_until f s = Some (v, t)"
  by (subst repeat_until.simps) simp

lemma repeat_until_miss: "f s = Some (None, t) \<Longrightarrow> repeat_until f s = repeat_until f t"
  by (subst repeat_until.simps) simp

lemma repeat_until_misses: "misses f n s = Some u \<Longrightarrow> repeat_until f s = repeat_until f u"
proof (induction n arbitrary: s)
  case (Suc n)
  then obtain s' where "f s = Some (None, s')" "misses f n s' = Some u"
    by (auto simp: Option.bind_eq_Some_conv split: option.splits)
  then show ?case using Suc.IH repeat_until_miss by metis
qed simp

lemma repeat_until_Some:
  assumes "repeat_until f s = Some (v, t)"
  shows "\<exists>n u. misses f n s = Some u \<and> f u = Some (Some v, t)"
proof -
  let ?Q = "\<lambda>(f, s) y. \<exists>n u. misses f n s = Some u \<and> f u = Some (Some (fst y), snd y)"
  have "?Q (f, s) (v, t)"
  proof (rule repeat_until.raw_induct [OF _ assms])
    fix w f s y
    assume IH: "\<And>f s y. w f s = Some y \<Longrightarrow> ?Q (f, s) y"
      and step: "do { (r, s') \<leftarrow> f s; case r of Some v \<Rightarrow> Some (v, s') | None \<Rightarrow> w f s' } = Some y"
    obtain r s' where f: "f s = Some (r, s')" using step by (auto simp: Option.bind_eq_Some_conv)
    show "?Q (f, s) y"
    proof (cases r)
      case (Some x)
      then have "y = (x, s')" using step f by simp
      then have "misses f 0 s = Some s \<and> f s = Some (Some (fst y), snd y)" using f Some by simp
      then show ?thesis by blast
    next
      case None
      then have "w f s' = Some y" using step f by simp
      from IH [OF this] obtain n u where "misses f n s' = Some u" "f u = Some (Some (fst y), snd y)" by auto
      then have "misses f (Suc n) s = Some u \<and> f u = Some (Some (fst y), snd y)" using f None by simp
      then show ?thesis by blast
    qed
  qed
  then show ?thesis by simp
qed

lemma repeat_until_iff:
  "repeat_until f s = Some (v, t) \<longleftrightarrow> (\<exists>n u. misses f n s = Some u \<and> f u = Some (Some v, t))"
  using repeat_until_Some repeat_until_misses repeat_until_hit by metis

text \<open>A loop that never ends: the body keeps missing.\<close>

lemma repeat_until_diverges:
  assumes "I s" and "\<And>s. I s \<Longrightarrow> \<exists>s'. f s = Some (None, s') \<and> I s'"
  shows "repeat_until f s = None"
proof -
  have m: "\<exists>u. misses f n s = Some u \<and> I u" for n
    using assms(1)
  proof (induction n arbitrary: s)
    case (Suc n)
    then obtain s' where s': "f s = Some (None, s')" "I s'" using assms(2) by blast
    then show ?case using Suc.IH [OF s'(2)] by simp
  qed simp
  have "f u \<noteq> Some (Some v, t)" if "misses f n s = Some u" for n u v t
    using m [of n] that assms(2) [of u] by auto
  then show ?thesis using repeat_until_Some [of f s] by (cases "repeat_until f s") auto
qed

text \<open>A loop that ends: the state decreases along a well-founded relation while the body misses.\<close>

lemma repeat_until_total:
  assumes "I s" and "wf R"
    and "\<And>s. I s \<Longrightarrow> \<exists>r s'. f s = Some (r, s') \<and>
      (case r of Some v \<Rightarrow> Q v s' | None \<Rightarrow> I s' \<and> (s', s) \<in> R)"
  shows "\<exists>v t. repeat_until f s = Some (v, t) \<and> Q v t"
  using assms(2,1)
proof (induction s rule: wf_induct_rule)
  case (less s)
  obtain r s' where r: "f s = Some (r, s')" "case r of Some v \<Rightarrow> Q v s' | None \<Rightarrow> I s' \<and> (s', s) \<in> R"
    using assms(3) [OF less.prems] by blast
  show ?case
  proof (cases r)
    case (Some v)
    then show ?thesis using r repeat_until_hit by fastforce
  next
    case None
    then have "I s'" "(s', s) \<in> R" using r(2) by simp_all
    then show ?thesis using less.IH [of s'] r(1) None repeat_until_miss by fastforce
  qed
qed

text \<open>An invariant of the loop holds at its end.\<close>

lemma repeat_until_invariant:
  assumes "repeat_until f s = Some (v, t)" and "I s"
    and "\<And>s s'. I s \<Longrightarrow> f s = Some (None, s') \<Longrightarrow> I s'"
  shows "\<exists>u. I u \<and> f u = Some (Some v, t)"
proof -
  obtain n u where n: "misses f n s = Some u" "f u = Some (Some v, t)" using repeat_until_Some [OF assms(1)] by blast
  have "I u" using n(1) assms(2)
  proof (induction n arbitrary: s)
    case (Suc n)
    then obtain s' where "f s = Some (None, s')" "misses f n s' = Some u"
      by (auto simp: Option.bind_eq_Some_conv split: option.splits)
    then show ?case using Suc assms(3) by blast
  qed simp
  then show ?thesis using n by blast
qed

section \<open>Polling\<close>

text \<open>\<open>while (!test()) {}\<close> for a test that may change the state.\<close>

definition poll :: "('s \<Rightarrow> bool \<times> 's) \<Rightarrow> 's \<Rightarrow> 's option" where
  "poll test s =
     do { (_, s') \<leftarrow> repeat_until (\<lambda>s. let (ready, s') = test s in Some (if ready then Some () else None, s')) s;
          Some s' }"

text \<open>The state after \<open>n\<close> tests.\<close>

definition polled :: "('s \<Rightarrow> bool \<times> 's) \<Rightarrow> nat \<Rightarrow> 's \<Rightarrow> 's" where
  "polled test n s = ((\<lambda>s. snd (test s)) ^^ n) s"

lemma polled_0 [simp]: "polled test 0 s = s"
  by (simp add: polled_def)

lemma polled_Suc: "polled test (Suc n) s = polled test n (snd (test s))"
  unfolding polled_def by (simp only: funpow_Suc_right o_apply)

lemma polled_Suc': "polled test (Suc n) s = snd (test (polled test n s))"
  by (simp add: polled_def)

lemma poll_step: "poll test s = (if fst (test s) then Some (snd (test s)) else poll test (snd (test s)))"
  unfolding poll_def by (subst repeat_until.simps) (simp add: split_beta Let_def)

lemma poll_Some:
  "poll test s = Some t \<longleftrightarrow>
     (\<exists>n. (\<forall>k < n. \<not> fst (test (polled test k s))) \<and> fst (test (polled test n s)) \<and> t = polled test (Suc n) s)"
proof -
  let ?f = "\<lambda>s. let (ready, s') = test s in Some (if ready then Some () else None, s')"
  have m: "misses ?f n s = Some u \<longleftrightarrow> (\<forall>k < n. \<not> fst (test (polled test k s))) \<and> u = polled test n s" for n s u
  proof (induction n arbitrary: s)
    case (Suc n)
    have "(\<forall>k < Suc n. \<not> fst (test (polled test k s))) \<longleftrightarrow>
        \<not> fst (test s) \<and> (\<forall>k < n. \<not> fst (test (polled test k (snd (test s)))))"
      by (auto simp: less_Suc_eq_0_disj polled_Suc)
    then show ?case using Suc.IH [of "snd (test s)"] by (auto simp: split_beta Let_def polled_Suc)
  qed auto
  have "poll test s = Some t \<longleftrightarrow> repeat_until ?f s = Some ((), t)"
    by (auto simp: poll_def Option.bind_eq_Some_conv)
  also have "\<dots> \<longleftrightarrow> (\<exists>n u. misses ?f n s = Some u \<and> ?f u = Some (Some (), t))" by (rule repeat_until_iff)
  also have "\<dots> \<longleftrightarrow> (\<exists>n. (\<forall>k < n. \<not> fst (test (polled test k s))) \<and> fst (test (polled test n s)) \<and>
      t = polled test (Suc n) s)"
    unfolding m by (auto simp: split_beta Let_def polled_Suc' split: if_splits)
  finally show ?thesis .
qed

lemma poll_iff: "poll test s \<noteq> None \<longleftrightarrow> (\<exists>n. fst (test (polled test n s)))"
proof
  assume "poll test s \<noteq> None"
  then show "\<exists>n. fst (test (polled test n s))" using poll_Some [of test s] by auto
next
  assume "\<exists>n. fst (test (polled test n s))"
  then obtain n where n: "fst (test (polled test n s))" "\<forall>k < n. \<not> fst (test (polled test k s))"
    using exists_least_iff [of "\<lambda>n. fst (test (polled test n s))"] by (elim iffE) metis
  then have "poll test s = Some (polled test (Suc n) s)" unfolding poll_Some by blast
  then show "poll test s \<noteq> None" by simp
qed

text \<open>What every test keeps holds after the wait.\<close>

lemma poll_keeps:
  assumes "\<exists>n. fst (test (polled test n s))" and "I s" and "\<And>s. I s \<Longrightarrow> I (snd (test s))"
  shows "\<exists>t. poll test s = Some t \<and> I t"
proof -
  obtain t where t: "poll test s = Some t" using poll_iff [of test s] assms(1) by auto
  have "I (polled test n s)" for n by (induction n) (simp_all add: assms(2,3) polled_Suc')
  then show ?thesis using t poll_Some [of test s t] by auto
qed

end
