(* ===== verification/Console.thy ===== *)
theory Console
  imports VgaTerm Loops
begin

text \<open>
  \<open>src/serial.c\<close>, \<open>src/console.c\<close> and \<open>src/kprint.c\<close>: the serial port, the console that writes to
  both the screen and the serial port, and the print routines.  The loops that poll the serial port
  are partial: they return when the device answers that it is ready.  A C string is a byte array
  with a terminator; reading past the array is an error.
\<close>

section \<open>State\<close>

text \<open>The device behind the ports, the static of \<open>serial.c\<close> and the statics of \<open>vga.c\<close>.\<close>

record 'd con =
  dev :: 'd
  serial_initialized :: u8
  con_vga :: vga

text \<open>A string literal.\<close>

definition lit :: "string \<Rightarrow> u8 list" where
  "lit s = str s @ [0]"

section \<open>serial.c\<close>

abbreviation COM1_PORT :: u16 where "COM1_PORT \<equiv> 0x3F8"

definition serial_tx_ready :: "'d ports \<Rightarrow> 'd \<Rightarrow> bool \<times> 'd" where
  "serial_tx_ready P d = (let (v, d') = inb P (COM1_PORT + 5) d in (v AND 0x20 \<noteq> 0, d'))"

definition serial_init :: "'d ports \<Rightarrow> ('d, 'z) con_scheme \<Rightarrow> ('d, 'z) con_scheme" where
  "serial_init P s =
     s\<lparr>dev := outbs P [(COM1_PORT + 1, 0x00), (COM1_PORT + 3, 0x80), (COM1_PORT + 0, 0x01), (COM1_PORT + 1, 0x00),
                       (COM1_PORT + 3, 0x03), (COM1_PORT + 2, 0xC7), (COM1_PORT + 4, 0x0B)] (dev s),
       serial_initialized := 1\<rparr>"

text \<open>\<open>while (!serial_tx_ready()) {}\<close>.\<close>

definition serial_wait :: "'d ports \<Rightarrow> 'd \<Rightarrow> 'd option" where
  "serial_wait P d = poll (serial_tx_ready P) d"

definition serial_send :: "'d ports \<Rightarrow> u8 \<Rightarrow> ('d, 'z) con_scheme \<Rightarrow> ('d, 'z) con_scheme option" where
  "serial_send P c s = do { d \<leftarrow> serial_wait P (dev s); Some (s\<lparr>dev := outb P COM1_PORT c d\<rparr>) }"

text \<open>
  The recursive call of \<open>serial_write_char\<close> for a carriage return runs with the port initialised
  and with a character that is not a newline, so it only waits and sends.
\<close>

definition serial_write_char :: "'d ports \<Rightarrow> u8 \<Rightarrow> ('d, 'z) con_scheme \<Rightarrow> ('d, 'z) con_scheme option" where
  "serial_write_char P c s =
     (if serial_initialized s = 0 then Some s
      else do { s1 \<leftarrow> (if c = 10 then serial_send P 13 s else Some s);
                serial_send P c s1 })"

fun serial_write :: "'d ports \<Rightarrow> u8 list \<Rightarrow> ('d, 'z) con_scheme \<Rightarrow> ('d, 'z) con_scheme option" where
  "serial_write P [] s = None"
| "serial_write P (c # cs) s =
     (if c = 0 then Some s else do { s1 \<leftarrow> serial_write_char P c s; serial_write P cs s1 })"

definition serial_has_input :: "'d ports \<Rightarrow> ('d, 'z) con_scheme \<Rightarrow> bool \<times> ('d, 'z) con_scheme" where
  "serial_has_input P s =
     (if serial_initialized s = 0 then (False, s)
      else let (v, d) = inb P (COM1_PORT + 5) (dev s) in (v AND 0x01 \<noteq> 0, s\<lparr>dev := d\<rparr>))"

text \<open>\<open>while (!serial_has_input()) {}\<close>, then the data port.\<close>

definition serial_read_char ::
    "'d ports \<Rightarrow> ('d, 'z) con_scheme \<Rightarrow> (u8 \<times> ('d, 'z) con_scheme) option" where
  "serial_read_char P s =
     do { s1 \<leftarrow> poll (serial_has_input P) s;
          let (c, d) = inb P COM1_PORT (dev s1);
          Some (c, s1\<lparr>dev := d\<rparr>) }"

section \<open>console.c\<close>

definition console_init :: "'d ports \<Rightarrow> ('d, 'z) con_scheme \<Rightarrow> ('d, 'z) con_scheme option" where
  "console_init P s =
     do { (v, d) \<leftarrow> vga_initialize P (con_vga s, dev s);
          Some (serial_init P (s\<lparr>con_vga := v, dev := d\<rparr>)) }"

definition console_write_char :: "'d ports \<Rightarrow> u8 \<Rightarrow> ('d, 'z) con_scheme \<Rightarrow> ('d, 'z) con_scheme option" where
  "console_write_char P c s =
     do { (v, d) \<leftarrow> vga_putchar P c (con_vga s, dev s);
          serial_write_char P c (s\<lparr>con_vga := v, dev := d\<rparr>) }"

fun console_write :: "'d ports \<Rightarrow> u8 list \<Rightarrow> ('d, 'z) con_scheme \<Rightarrow> ('d, 'z) con_scheme option" where
  "console_write P [] s = None"
| "console_write P (c # cs) s =
     (if c = 0 then Some s else do { s1 \<leftarrow> console_write_char P c s; console_write P cs s1 })"

definition console_setcolor :: "u8 \<Rightarrow> ('d, 'z) con_scheme \<Rightarrow> ('d, 'z) con_scheme" where
  "console_setcolor color s = s\<lparr>con_vga := vga_setcolor color (con_vga s)\<rparr>"

section \<open>kprint.c\<close>

definition kprint :: "'d ports \<Rightarrow> u8 list \<Rightarrow> ('d, 'z) con_scheme \<Rightarrow> ('d, 'z) con_scheme option" where
  "kprint P s = console_write P s"

definition kprint_colored ::
    "'d ports \<Rightarrow> u8 list \<Rightarrow> u8 \<Rightarrow> u8 \<Rightarrow> ('d, 'z) con_scheme \<Rightarrow> ('d, 'z) con_scheme option" where
  "kprint_colored P text fg bg s =
     do { s1 \<leftarrow> console_write P text (console_setcolor (vga_entry_color fg bg) s);
          Some (console_setcolor (vga_entry_color VGA_COLOR_LIGHT_GREY VGA_COLOR_BLACK) s1) }"

fun rainbow_loop :: "'d ports \<Rightarrow> u8 list \<Rightarrow> u8 \<Rightarrow> ('d, 'z) con_scheme \<Rightarrow> ('d, 'z) con_scheme option" where
  "rainbow_loop P [] color_index s = None"
| "rainbow_loop P (c # cs) color_index s =
     (if c = 0 then Some s
      else if c = 10 then do { s1 \<leftarrow> console_write_char P 10 s; rainbow_loop P cs color_index s1 }
      else do { s1 \<leftarrow> console_write_char P c (console_setcolor (vga_entry_color color_index VGA_COLOR_BLACK) s);
                rainbow_loop P cs (if color_index + 1 > 15 then 1 else color_index + 1) s1 })"

definition kprint_rainbow :: "'d ports \<Rightarrow> u8 list \<Rightarrow> ('d, 'z) con_scheme \<Rightarrow> ('d, 'z) con_scheme option" where
  "kprint_rainbow P text s =
     do { s1 \<leftarrow> rainbow_loop P text 1 s;
          Some (console_setcolor (vga_entry_color VGA_COLOR_LIGHT_GREY VGA_COLOR_BLACK) s1) }"

definition kprint_u64 :: "'d ports \<Rightarrow> u64 \<Rightarrow> ('d, 'z) con_scheme \<Rightarrow> ('d, 'z) con_scheme option" where
  "kprint_u64 P value s = do { buffer \<leftarrow> ku64_to_dec (replicate 32 0) 32 value; kprint P buffer s }"

definition kprint_hex :: "'d ports \<Rightarrow> u64 \<Rightarrow> ('d, 'z) con_scheme \<Rightarrow> ('d, 'z) con_scheme option" where
  "kprint_hex P value s =
     do { s1 \<leftarrow> kprint P (lit ''0x'') s;
          buffer \<leftarrow> ku64_to_hex (replicate 32 0) 32 value;
          kprint P buffer s1 }"

section \<open>What is printed\<close>

text \<open>Printing bytes without a terminator, the common form of all print routines.\<close>

fun say :: "'d ports \<Rightarrow> u8 list \<Rightarrow> ('d, 'z) con_scheme \<Rightarrow> ('d, 'z) con_scheme option" where
  "say P [] s = Some s"
| "say P (c # cs) s = do { s1 \<leftarrow> console_write_char P c s; say P cs s1 }"

named_theorems print_simps \<open>print routines as the bytes they print\<close>

lemma say_append: "say P (xs @ ys) s = do { s1 \<leftarrow> say P xs s; say P ys s1 }"
proof (induction xs arbitrary: s)
  case (Cons c xs)
  then show ?case by (cases "console_write_char P c s") simp_all
qed simp

lemma say_Cons: "say P (c # cs) s = do { s1 \<leftarrow> say P [c] s; say P cs s1 }"
  by simp

lemma console_write_say: "0 \<in> set cs \<Longrightarrow> console_write P cs s = say P (cstr cs) s"
proof (induction cs arbitrary: s)
  case (Cons c cs)
  then show ?case by (cases "console_write_char P c s") auto
qed simp

lemma kprint_say: "0 \<in> set cs \<Longrightarrow> kprint P cs s = say P (cstr cs) s"
  by (simp add: kprint_def console_write_say)

lemma kprint_lit: "0 \<notin> set (str t) \<Longrightarrow> kprint P (lit t) s = say P (str t) s"
  by (simp add: kprint_say lit_def cstr_append_zero)

lemma kprint_u64_say [print_simps]: "kprint_u64 P v s = say P (digit_string 10 (unat v)) s"
proof -
  let ?ds = "digit_string 10 (unat v)"
  have "length ?ds \<le> 31" using length_digits_dec [of v] by (simp add: digit_string_def)
  then have "take 31 ?ds = ?ds" by simp
  then show ?thesis
    using ku64_to_dec_digits [of 32 "replicate 32 0" v]
    by (simp add: kprint_u64_def Let_def kprint_say cstr_append_zero digit_string_nonzero)
qed

lemma kprint_hex_say [print_simps]: "kprint_hex P v s = say P (str ''0x'' @ digit_string 16 (unat v)) s"
proof -
  let ?ds = "digit_string 16 (unat v)"
  have "length ?ds \<le> 31" using length_digits_hex [of v] by (simp add: digit_string_def)
  then have "take 31 ?ds = ?ds" by simp
  then have h: "ku64_to_hex (replicate 32 0) 32 v = Some (?ds @ 0 # drop (Suc (length ?ds)) (replicate 32 0))"
    using ku64_to_hex_digits [of 32 "replicate 32 0" v] by (simp add: Let_def)
  have "kprint P (lit ''0x'') s = say P (str ''0x'') s" by (rule kprint_lit) (simp add: str_def)
  then show ?thesis
    unfolding kprint_hex_def say_append h by (simp add: kprint_say cstr_append_zero digit_string_nonzero)
qed


section \<open>The serial device\<close>

text \<open>
  What the console needs of the device: from the states in \<open>okd\<close> a poll loop on the line status
  ends, and only writes to the data port add to what is sent.
\<close>

definition uart :: "'d ports \<Rightarrow> ('d \<Rightarrow> u8 list) \<Rightarrow> ('d \<Rightarrow> bool) \<Rightarrow> bool" where
  "uart P sent okd \<longleftrightarrow>
     (\<forall>d. okd d \<longrightarrow> (\<exists>n. fst (serial_tx_ready P (polled (serial_tx_ready P) n d)))) \<and>
     (\<forall>d. okd d \<longrightarrow> okd (snd (serial_tx_ready P d)) \<and> sent (snd (serial_tx_ready P d)) = sent d) \<and>
     (\<forall>d c. okd d \<longrightarrow> okd (outb P COM1_PORT c d) \<and> sent (outb P COM1_PORT c d) = sent d @ [c]) \<and>
     (\<forall>d c. okd d \<longrightarrow> okd (outb P 0x3D4 c d) \<and> sent (outb P 0x3D4 c d) = sent d) \<and>
     (\<forall>d c. okd d \<longrightarrow> okd (outb P 0x3D5 c d) \<and> sent (outb P 0x3D5 c d) = sent d)"

lemma uart_wait:
  assumes "uart P sent okd" and "okd d"
  shows "\<exists>d'. serial_wait P d = Some d' \<and> okd d' \<and> sent d' = sent d"
proof -
  have "\<exists>n. fst (serial_tx_ready P (polled (serial_tx_ready P) n d))" using assms by (simp add: uart_def)
  then show ?thesis
    using poll_keeps [of "serial_tx_ready P" d "\<lambda>e. okd e \<and> sent e = sent d"] assms
    by (simp add: serial_wait_def uart_def)
qed

lemma uart_cursor:
  "uart P sent okd \<Longrightarrow> okd d \<Longrightarrow> okd (update_cursor P v d) \<and> sent (update_cursor P v d) = sent d"
  by (simp add: update_cursor_def Let_def uart_def)

section \<open>Printing\<close>

definition con_ready :: "('d \<Rightarrow> bool) \<Rightarrow> ('d, 'z) con_scheme \<Rightarrow> bool" where
  "con_ready okd s \<longleftrightarrow> okd (dev s) \<and> serial_initialized s \<noteq> 0 \<and> vga_wf (con_vga s)"

definition crlf :: "u8 list \<Rightarrow> u8 list" where
  "crlf cs = concat (map (\<lambda>c. if c = 10 then [13, 10] else [c]) cs)"

lemma crlf_simps [simp]:
  "crlf [] = []" "crlf (c # cs) = (if c = 10 then [13, 10] else [c]) @ crlf cs" "crlf (xs @ ys) = crlf xs @ crlf ys"
  by (simp_all add: crlf_def)

lemma serial_send_spec:
  assumes "uart P sent okd" and "okd (dev s)"
  shows "\<exists>d. serial_send P c s = Some (s\<lparr>dev := d\<rparr>) \<and> okd d \<and> sent d = sent (dev s) @ [c]"
proof -
  obtain d where "serial_wait P (dev s) = Some d" "okd d" "sent d = sent (dev s)" using uart_wait [OF assms] by blast
  then show ?thesis using assms(1) by (auto simp: serial_send_def uart_def)
qed

lemma serial_write_char_spec:
  assumes "uart P sent okd" and "okd (dev s)" and "serial_initialized s \<noteq> 0"
  shows "\<exists>d. serial_write_char P c s = Some (s\<lparr>dev := d\<rparr>) \<and> okd d \<and> sent d = sent (dev s) @ crlf [c]"
proof (cases "c = 10")
  case True
  obtain d where d: "serial_send P 13 s = Some (s\<lparr>dev := d\<rparr>)" "okd d" "sent d = sent (dev s) @ [13]"
    using serial_send_spec [OF assms(1,2), of 13] by blast
  obtain e where "serial_send P 10 (s\<lparr>dev := d\<rparr>) = Some (s\<lparr>dev := d\<rparr>\<lparr>dev := e\<rparr>)" "okd e" "sent e = sent d @ [10]"
    using serial_send_spec [OF assms(1), of "s\<lparr>dev := d\<rparr>" 10] d(2) by auto
  then show ?thesis using d True assms(3) by (intro exI [of _ e]) (simp add: serial_write_char_def)
next
  case False
  then show ?thesis using serial_send_spec [OF assms(1,2), of c] assms(3) by (simp add: serial_write_char_def)
qed

lemma console_write_char_spec:
  assumes "uart P sent okd" and "con_ready okd s"
  shows "\<exists>d v. console_write_char P c s = Some (s\<lparr>con_vga := v, dev := d\<rparr>) \<and>
    con_ready okd (s\<lparr>con_vga := v, dev := d\<rparr>) \<and> sent d = sent (dev s) @ crlf [c] \<and>
    term_of v = term_putchar c (term_of (con_vga s))"
proof -
  have ok: "okd (dev s)" "serial_initialized s \<noteq> 0" "vga_wf (con_vga s)" using assms(2) by (simp_all add: con_ready_def)
  obtain v where v: "vga_putchar P c (con_vga s, dev s) = Some (v, update_cursor P v (dev s))" "vga_wf v"
      "term_of v = term_putchar c (term_of (con_vga s))"
    using vga_putchar_spec [OF ok(3), of P c "dev s"] by blast
  let ?s = "s\<lparr>con_vga := v, dev := update_cursor P v (dev s)\<rparr>"
  have "okd (dev ?s)" "sent (dev ?s) = sent (dev s)" using uart_cursor [OF assms(1) ok(1)] by simp_all
  then obtain d where "serial_write_char P c ?s = Some (?s\<lparr>dev := d\<rparr>)" "okd d" "sent d = sent (dev s) @ crlf [c]"
    using serial_write_char_spec [OF assms(1), of ?s c] ok(2) by auto
  then show ?thesis using v ok(2)
    by (intro exI [of _ d] exI [of _ v]) (simp add: console_write_char_def con_ready_def)
qed

lemma say_spec:
  assumes "uart P sent okd" and "con_ready okd s"
  shows "\<exists>d v. say P cs s = Some (s\<lparr>con_vga := v, dev := d\<rparr>) \<and>
    con_ready okd (s\<lparr>con_vga := v, dev := d\<rparr>) \<and> sent d = sent (dev s) @ crlf cs \<and>
    term_of v = fold term_putchar cs (term_of (con_vga s))"
  using assms(2)
proof (induction cs arbitrary: s)
  case Nil
  then show ?case by (intro exI [of _ "dev s"] exI [of _ "con_vga s"]) simp
next
  case (Cons c cs)
  obtain d v where d: "console_write_char P c s = Some (s\<lparr>con_vga := v, dev := d\<rparr>)"
      "con_ready okd (s\<lparr>con_vga := v, dev := d\<rparr>)" "sent d = sent (dev s) @ crlf [c]"
      "term_of v = term_putchar c (term_of (con_vga s))"
    using console_write_char_spec [OF assms(1) Cons.prems] by blast
  from Cons.IH [OF d(2)] obtain d' v' where "say P cs (s\<lparr>con_vga := v, dev := d\<rparr>) = Some (s\<lparr>con_vga := v', dev := d'\<rparr>)"
      "con_ready okd (s\<lparr>con_vga := v', dev := d'\<rparr>)" "sent d' = sent d @ crlf cs"
      "term_of v' = fold term_putchar cs (term_of v)" by auto
  then show ?case using d by (intro exI [of _ d'] exI [of _ v']) simp
qed

section \<open>Properties\<close>

definition log_sent :: "log_device \<Rightarrow> u8 list" where
  "log_sent d = map (\<lambda>(p, v). ucast v) (filter (\<lambda>(p, v). p = COM1_PORT) (written d))"

lemma log_uart: "uart log_ports log_sent (\<lambda>d. answers d = (\<lambda>_. []))"
proof -
  have "fst (serial_tx_ready log_ports (polled (serial_tx_ready log_ports) 0 d))" if "answers d = (\<lambda>_. [])" for d
    using that by (simp add: polled_def serial_tx_ready_def log_ports_def log_in_def)
  then have r: "\<forall>d. answers d = (\<lambda>_. []) \<longrightarrow> (\<exists>n. fst (serial_tx_ready log_ports (polled (serial_tx_ready log_ports) n d)))"
    by (intro allI impI exI [of _ 0])
  have u: "(ucast (ucast c :: u32) :: u8) = c" for c :: u8
    by (rule bit_word_eqI) (simp add: bit_simps)
  show ?thesis unfolding uart_def
    by (intro conjI r) (simp_all add: u serial_tx_ready_def log_ports_def log_in_def log_sent_def)
qed

definition example_con :: "log_device con" where
  "example_con = \<lparr>dev = log_device0, serial_initialized = 1, con_vga = example_vga\<rparr>"

lemma example_con_ready: "con_ready (\<lambda>d. answers d = (\<lambda>_. [])) example_con"
  by (simp add: con_ready_def example_con_def log_device0_def example_vga_wf)

text \<open>C21: on a device whose transmitter becomes ready, \<open>kprint\<close> of a terminated string returns, sends
  exactly its bytes over the serial port with each newline preceded by a carriage return, and does
  to the screen what writing the characters one by one does; the rest of the state is unchanged.\<close>

theorem kprint_correct:
  assumes "uart P sent okd" and "con_ready okd s" and "0 \<in> set cs"
  shows "\<exists>d v. kprint P cs s = Some (s\<lparr>con_vga := v, dev := d\<rparr>) \<and> con_ready okd (s\<lparr>con_vga := v, dev := d\<rparr>) \<and>
    sent d = sent (dev s) @ crlf (cstr cs) \<and> term_of v = fold term_putchar (cstr cs) (term_of (con_vga s))"
  using say_spec [OF assms(1,2), of "cstr cs"] assms(3) by (simp add: kprint_say)

theorem kprint_correct_witness:
  "\<exists>d v. kprint log_ports (str ''ok'' @ [10, 0]) example_con = Some (example_con\<lparr>con_vga := v, dev := d\<rparr>) \<and>
     log_sent d = [111, 107, 13, 10]"
proof -
  have "log_sent (dev example_con) = []" by (simp add: log_sent_def example_con_def log_device0_def)
  then show ?thesis
    using kprint_correct [OF log_uart example_con_ready, of "str ''ok'' @ [10, 0]"] by (auto simp: str_def)
qed

text \<open>The wait for the transmitter returns exactly when the device reports ready after some
  number of polls; otherwise the loop does not end.\<close>

lemma serial_wait_terminates:
  "serial_wait P d \<noteq> None \<longleftrightarrow> (\<exists>n. fst (serial_tx_ready P (polled (serial_tx_ready P) n d)))"
  unfolding serial_wait_def by (rule poll_iff)


end
