(* ===== verification/Output.thy ===== *)
theory Output
  imports Console
begin

text \<open>
  What a piece of code prints, as a script of terminal actions: the bytes that go to the serial port
  and to the screen, and the changes of colour and view of the screen.  \<open>prints\<close> relates an operation
  to its script; its rules follow the print routines, so that the script of a command is computed by
  going through its text.
\<close>

section \<open>Scripts\<close>

datatype action = Put u8 | Colour u8 | Wipe | View_by int | View_end

fun act :: "action \<Rightarrow> terminal \<Rightarrow> terminal" where
  "act (Put c) t = term_putchar c t"
| "act (Colour c) t = t\<lparr>colour := c\<rparr>"
| "act Wipe t = term_clear t"
| "act (View_by n) t = t\<lparr>view := nat (max 0 (min (int (term_bottom t)) (int (view t) + n)))\<rparr>"
| "act View_end t = t\<lparr>view := term_bottom t\<rparr>"

fun put_bytes :: "action list \<Rightarrow> u8 list" where
  "put_bytes [] = []"
| "put_bytes (Put c # as) = c # put_bytes as"
| "put_bytes (_ # as) = put_bytes as"

lemma put_bytes_append [simp]: "put_bytes (xs @ ys) = put_bytes xs @ put_bytes ys"
  by (induction xs rule: put_bytes.induct) simp_all

lemma put_bytes_map [simp]: "put_bytes (map Put cs) = cs"
  by (induction cs) simp_all

lemma put_bytes_if: "put_bytes (if b then xs else ys) = (if b then put_bytes xs else put_bytes ys)"
  by simp

lemma put_bytes_concat: "put_bytes (concat xss) = concat (map put_bytes xss)"
  by (induction xss) simp_all

section \<open>Operations that print\<close>

text \<open>Printing changes the console and nothing else.\<close>

definition only_con :: "('d, 'z) con_scheme \<Rightarrow> ('d, 'z) con_scheme \<Rightarrow> bool" where
  "only_con s0 s \<longleftrightarrow> (\<exists>d v. s = s0\<lparr>con_vga := v, dev := d\<rparr>)"

text \<open>\<open>f\<close>, started in a state that differs from \<open>s0\<close> only in the console, runs the script \<open>xs\<close>.\<close>

definition prints ::
    "('d \<Rightarrow> u8 list) \<Rightarrow> ('d \<Rightarrow> bool) \<Rightarrow> ('d, 'z) con_scheme \<Rightarrow>
     (('d, 'z) con_scheme \<Rightarrow> ('d, 'z) con_scheme option) \<Rightarrow> action list \<Rightarrow> bool" where
  "prints sent okd s0 f xs \<longleftrightarrow>
     (\<forall>s. con_ready okd s \<and> only_con s0 s \<longrightarrow>
        (\<exists>d v. f s = Some (s\<lparr>con_vga := v, dev := d\<rparr>) \<and> con_ready okd (s\<lparr>con_vga := v, dev := d\<rparr>) \<and>
           sent d = sent (dev s) @ crlf (put_bytes xs) \<and> term_of v = fold act xs (term_of (con_vga s))))"

named_theorems prints_intros \<open>scripts of the print routines\<close>

lemma only_con_refl [simp]: "only_con s s"
  unfolding only_con_def by (intro exI [of _ "dev s"] exI [of _ "con_vga s"]) simp

lemma only_con_trans: "only_con s0 s \<Longrightarrow> only_con s0 (s\<lparr>con_vga := v, dev := d\<rparr>)"
  unfolding only_con_def by (elim exE) (intro exI [of _ d] exI [of _ v], simp)

text \<open>Using a script at the state it starts from.\<close>

lemma printsD:
  assumes "prints sent okd s f xs" and "con_ready okd s"
  shows "\<exists>d v. f s = Some (s\<lparr>con_vga := v, dev := d\<rparr>) \<and> con_ready okd (s\<lparr>con_vga := v, dev := d\<rparr>) \<and>
    sent d = sent (dev s) @ crlf (put_bytes xs) \<and> term_of v = fold act xs (term_of (con_vga s))"
  using assms by (simp add: prints_def)

lemma prints_none [prints_intros]: "prints sent okd s0 Some []"
  unfolding prints_def
proof (intro allI impI)
  fix s assume "con_ready okd s \<and> only_con s0 s"
  then show "\<exists>d v. Some s = Some (s\<lparr>con_vga := v, dev := d\<rparr>) \<and> con_ready okd (s\<lparr>con_vga := v, dev := d\<rparr>) \<and>
      sent d = sent (dev s) @ crlf (put_bytes []) \<and> term_of v = fold act [] (term_of (con_vga s))"
    by (intro exI [of _ "dev s"] exI [of _ "con_vga s"]) simp
qed

lemma prints_bind [prints_intros]:
  assumes "prints sent okd s0 f xs" and "prints sent okd s0 g ys"
  shows "prints sent okd s0 (\<lambda>s. Option.bind (f s) g) (xs @ ys)"
  unfolding prints_def
proof (intro allI impI)
  fix s assume s: "con_ready okd s \<and> only_con s0 s"
  note f = assms(1) [unfolded prints_def, rule_format, OF s]
  obtain d v where d: "f s = Some (s\<lparr>con_vga := v, dev := d\<rparr>)" "con_ready okd (s\<lparr>con_vga := v, dev := d\<rparr>)"
      "sent d = sent (dev s) @ crlf (put_bytes xs)" "term_of v = fold act xs (term_of (con_vga s))"
    using f by (elim exE conjE) (rule that)
  let ?s = "s\<lparr>con_vga := v, dev := d\<rparr>"
  have "only_con s0 ?s" using s by (intro only_con_trans) simp
  with d(2) have "con_ready okd ?s \<and> only_con s0 ?s" by (rule conjI)
  note g = assms(2) [unfolded prints_def, rule_format, OF this]
  then obtain d' v' where "g (s\<lparr>con_vga := v, dev := d\<rparr>) = Some (s\<lparr>con_vga := v', dev := d'\<rparr>)"
      "con_ready okd (s\<lparr>con_vga := v', dev := d'\<rparr>)"
      "sent d' = sent d @ crlf (put_bytes ys)" "term_of v' = fold act ys (term_of v)"
    using g by (elim exE conjE) (simp add: that)
  then show "\<exists>d v. Option.bind (f s) g = Some (s\<lparr>con_vga := v, dev := d\<rparr>) \<and> con_ready okd (s\<lparr>con_vga := v, dev := d\<rparr>) \<and>
      sent d = sent (dev s) @ crlf (put_bytes (xs @ ys)) \<and> term_of v = fold act (xs @ ys) (term_of (con_vga s))"
    using d by (intro exI [of _ d'] exI [of _ v']) simp
qed

text \<open>What is computed from the state before printing may be computed at any time.\<close>

lemma prints_cong:
  assumes "\<And>s. only_con s0 s \<Longrightarrow> f s = g s" and "prints sent okd s0 g xs"
  shows "prints sent okd s0 f xs"
  using assms unfolding prints_def by metis

lemma prints_if [prints_intros]:
  assumes "b \<Longrightarrow> prints sent okd s0 f xs" and "\<not> b \<Longrightarrow> prints sent okd s0 g ys"
  shows "prints sent okd s0 (\<lambda>s. if b then f s else g s) (if b then xs else ys)"
  using assms by (cases b) simp_all

lemma fold_act_puts [simp]: "fold act (map Put cs) t = fold term_putchar cs t"
  by (induction cs arbitrary: t) simp_all

lemma prints_say [prints_intros]:
  assumes "uart P sent okd"
  shows "prints sent okd s0 (say P cs) (map Put cs)"
  unfolding prints_def
proof (intro allI impI)
  fix s assume "con_ready okd s \<and> only_con s0 s"
  then show "\<exists>d v. say P cs s = Some (s\<lparr>con_vga := v, dev := d\<rparr>) \<and> con_ready okd (s\<lparr>con_vga := v, dev := d\<rparr>) \<and>
      sent d = sent (dev s) @ crlf (put_bytes (map Put cs)) \<and> term_of v = fold act (map Put cs) (term_of (con_vga s))"
    using say_spec [OF assms, of s cs] by simp
qed

lemma prints_eq: "(\<And>s. f s = g s) \<Longrightarrow> prints sent okd s0 g xs \<Longrightarrow> prints sent okd s0 f xs"
  by (simp add: prints_def)

lemma prints_kprint [prints_intros]:
  "uart P sent okd \<Longrightarrow> 0 \<in> set cs \<Longrightarrow> prints sent okd s0 (kprint P cs) (map Put (cstr cs))"
  by (rule prints_eq [OF _ prints_say]) (simp_all add: kprint_say)

lemma str_nonzero: "list_all (\<lambda>c. c \<noteq> CHR 0x00) t \<Longrightarrow> 0 \<notin> set (str t)"
proof (induction t)
  case (Cons c t)
  have "(of_char c :: u8) \<noteq> 0" if "c \<noteq> CHR 0x00"
  proof
    assume "(of_char c :: u8) = 0"
    then have "(word_of_nat (of_char c) :: u8) = 0" by (simp only: of_nat_of_char)
    then have "256 dvd (of_char c :: nat)" by (simp add: word_of_nat_eq_0_iff)
    moreover have "(of_char c :: nat) < 256" by simp
    ultimately have "(of_char c :: nat) = 0" by (metis dvd_imp_le gr0I not_less)
    then have "char_of (of_char c :: nat) = CHR 0x00" by (simp add: char_of_def)
    then show False using that unfolding char_of_char by simp
  qed
  then show ?case using Cons by (simp add: str_def)
qed simp

lemma prints_lit [prints_intros]:
  "uart P sent okd \<Longrightarrow> list_all (\<lambda>c. c \<noteq> CHR 0x00) t \<Longrightarrow> prints sent okd s0 (kprint P (lit t)) (map Put (str t))"
  by (rule prints_eq [OF _ prints_say]) (simp_all add: kprint_lit str_nonzero)

lemma prints_u64:
  "uart P sent okd \<Longrightarrow> (\<And>s. only_con s0 s \<Longrightarrow> F s = F s0) \<Longrightarrow>
   prints sent okd s0 (\<lambda>s. kprint_u64 P (F s) s) (map Put (digit_string 10 (unat (F s0))))"
  by (rule prints_cong [OF _ prints_say]) (simp_all only: kprint_u64_say)

lemma prints_hex:
  "uart P sent okd \<Longrightarrow> (\<And>s. only_con s0 s \<Longrightarrow> F s = F s0) \<Longrightarrow>
   prints sent okd s0 (\<lambda>s. kprint_hex P (F s) s) (map Put (str ''0x'' @ digit_string 16 (unat (F s0))))"
  by (rule prints_cong [OF _ prints_say]) (simp_all only: kprint_hex_say)

lemma prints_numbers [prints_intros]:
  "uart P sent okd \<Longrightarrow> prints sent okd s0 (kprint_u64 P x) (map Put (digit_string 10 (unat x)))"
  "uart P sent okd \<Longrightarrow> prints sent okd s0 (kprint_hex P x) (map Put (str ''0x'' @ digit_string 16 (unat x)))"
  by (rule prints_u64 [where F = "\<lambda>_. x"]; simp) (rule prints_hex [where F = "\<lambda>_. x"]; simp)

lemma vga_setcolor_spec: "vga_wf v \<Longrightarrow> vga_wf (vga_setcolor c v)" "term_of (vga_setcolor c v) = (term_of v)\<lparr>colour := c\<rparr>"
  by (simp_all add: vga_setcolor_def vga_wf_def vga_bottom_viewport_row_def term_of_def split: if_split_asm)

lemma prints_console_setcolor [prints_intros]:
  "prints sent okd s0 (\<lambda>s. Some (console_setcolor c s)) [Colour c]"
  unfolding prints_def
proof (intro allI impI)
  fix s assume "con_ready okd s \<and> only_con s0 s"
  then show "\<exists>d v. Some (console_setcolor c s) = Some (s\<lparr>con_vga := v, dev := d\<rparr>) \<and> con_ready okd (s\<lparr>con_vga := v, dev := d\<rparr>) \<and>
      sent d = sent (dev s) @ crlf (put_bytes [Colour c]) \<and> term_of v = fold act [Colour c] (term_of (con_vga s))"
    by (intro exI [of _ "dev s"] exI [of _ "vga_setcolor c (con_vga s)"])
      (simp add: console_setcolor_def con_ready_def vga_setcolor_spec)
qed

lemma grey_on_black: "vga_entry_color VGA_COLOR_LIGHT_GREY VGA_COLOR_BLACK = 7"
  by (simp add: vga_entry_color_def)

definition coloured :: "u8 \<Rightarrow> u8 \<Rightarrow> u8 list \<Rightarrow> action list" where
  "coloured fg bg cs = Colour (vga_entry_color fg bg) # map Put cs @ [Colour 7]"

lemma put_bytes_coloured [simp]: "put_bytes (coloured fg bg cs) = cs"
  by (simp add: coloured_def)

lemma prints_console_write:
  assumes "uart P sent okd" and "0 \<in> set cs"
  shows "prints sent okd s0 (console_write P cs) (map Put (cstr cs))"
  using prints_kprint [OF assms] by (simp add: kprint_def)

lemma prints_colored [prints_intros]:
  assumes "uart P sent okd" and "0 \<in> set cs"
  shows "prints sent okd s0 (kprint_colored P cs fg bg) (coloured fg bg (cstr cs))"
proof -
  have "prints sent okd s0 (\<lambda>s. Option.bind (Option.bind (Some (console_setcolor (vga_entry_color fg bg) s)) (console_write P cs))
      (\<lambda>s. Some (console_setcolor (vga_entry_color VGA_COLOR_LIGHT_GREY VGA_COLOR_BLACK) s)))
      (([Colour (vga_entry_color fg bg)] @ map Put (cstr cs)) @ [Colour (vga_entry_color VGA_COLOR_LIGHT_GREY VGA_COLOR_BLACK)])"
    by (intro prints_bind prints_console_setcolor prints_console_write assms)
  then show ?thesis by (simp add: kprint_colored_def coloured_def grey_on_black prints_def)
qed

lemma cstr_lit: "list_all (\<lambda>c. c \<noteq> CHR 0x00) t \<Longrightarrow> cstr (lit t) = str t"
  by (simp add: lit_def cstr_append_zero str_nonzero)

lemma prints_colored_lit [prints_intros]:
  "uart P sent okd \<Longrightarrow> list_all (\<lambda>c. c \<noteq> CHR 0x00) t \<Longrightarrow>
   prints sent okd s0 (kprint_colored P (lit t) fg bg) (coloured fg bg (str t))"
  using prints_colored [of P sent okd "lit t"] by (simp add: lit_def cstr_append_zero str_nonzero)

text \<open>The colours of a rainbow go around the 15 colours that are not black; a newline has no colour.\<close>

fun rainbow :: "u8 \<Rightarrow> u8 list \<Rightarrow> action list" where
  "rainbow i [] = []"
| "rainbow i (c # cs) =
     (if c = 10 then Put 10 # rainbow i cs
      else Colour (vga_entry_color i VGA_COLOR_BLACK) # Put c # rainbow (if i + 1 > 15 then 1 else i + 1) cs)"

lemma put_bytes_rainbow [simp]: "put_bytes (rainbow i cs) = cs"
  by (induction i cs rule: rainbow.induct) simp_all

lemma prints_write_char: "uart P sent okd \<Longrightarrow> prints sent okd s0 (console_write_char P c) [Put c]"
proof -
  have n: "say P [] = Some" by (rule ext) simp
  assume "uart P sent okd"
  then have "prints sent okd s0 (say P [c]) (map Put [c])" by (rule prints_say)
  then show ?thesis by (simp add: prints_def n)
qed

lemma prints_rainbow_loop:
  assumes "uart P sent okd"
  shows "0 \<in> set cs \<Longrightarrow> prints sent okd s0 (rainbow_loop P cs i) (rainbow i (cstr cs))"
proof (induction cs arbitrary: i)
  case (Cons c cs)
  show ?case
  proof (cases "c = 0")
    case True
    then show ?thesis using prints_none by (simp add: prints_def)
  next
    case False
    then have in_cs: "0 \<in> set cs" using Cons.prems by auto
    show ?thesis
    proof (cases "c = 10")
      case True
      have "prints sent okd s0 (\<lambda>s. Option.bind (console_write_char P 10 s) (rainbow_loop P cs i)) ([Put 10] @ rainbow i (cstr cs))"
        by (intro prints_bind prints_write_char assms Cons.IH in_cs)
      then show ?thesis using True by (simp add: prints_def)
    next
      case no_newline: False
      let ?n = "if i + 1 > 15 then 1 else i + 1"
      have "prints sent okd s0 (\<lambda>s. Option.bind (Option.bind (Some (console_setcolor (vga_entry_color i VGA_COLOR_BLACK) s))
          (console_write_char P c)) (rainbow_loop P cs ?n))
          (([Colour (vga_entry_color i VGA_COLOR_BLACK)] @ [Put c]) @ rainbow ?n (cstr cs))"
        by (intro prints_bind prints_console_setcolor prints_write_char assms Cons.IH in_cs)
      then show ?thesis using no_newline False by (simp add: prints_def del: if_split)
    qed
  qed
qed simp

lemma prints_rainbow [prints_intros]:
  assumes "uart P sent okd" and "0 \<in> set cs"
  shows "prints sent okd s0 (kprint_rainbow P cs) (rainbow 1 (cstr cs) @ [Colour 7])"
proof -
  have "prints sent okd s0 (\<lambda>s. Option.bind (rainbow_loop P cs 1 s)
      (\<lambda>s. Some (console_setcolor (vga_entry_color VGA_COLOR_LIGHT_GREY VGA_COLOR_BLACK) s)))
      (rainbow 1 (cstr cs) @ [Colour (vga_entry_color VGA_COLOR_LIGHT_GREY VGA_COLOR_BLACK)])"
    by (intro prints_bind prints_console_setcolor prints_rainbow_loop assms)
  then show ?thesis by (simp add: prints_def kprint_rainbow_def grey_on_black)
qed

lemma prints_rainbow_lit [prints_intros]:
  "uart P sent okd \<Longrightarrow> list_all (\<lambda>c. c \<noteq> CHR 0x00) t \<Longrightarrow>
   prints sent okd s0 (kprint_rainbow P (lit t)) (rainbow 1 (str t) @ [Colour 7])"
  using prints_rainbow [of P sent okd "lit t"] by (simp add: lit_def cstr_append_zero str_nonzero)

text \<open>Operations of the screen alone.\<close>

definition on_vga ::
    "(vga \<times> 'd \<Rightarrow> (vga \<times> 'd) option) \<Rightarrow> ('d, 'z) con_scheme \<Rightarrow> ('d, 'z) con_scheme option" where
  "on_vga f s = do { (v, d) \<leftarrow> f (con_vga s, dev s); Some (s\<lparr>con_vga := v, dev := d\<rparr>) }"

lemma prints_on_vga:
  assumes "uart P sent okd" and "put_bytes xs = []"
    and "\<And>v d. vga_wf v \<Longrightarrow> \<exists>v'. f (v, d) = Some (v', update_cursor P v' d) \<and> vga_wf v' \<and>
      term_of v' = fold act xs (term_of v)"
  shows "prints sent okd s0 (on_vga f) xs"
  unfolding prints_def
proof (intro allI impI)
  fix s assume "con_ready okd s \<and> only_con s0 s"
  then have ok: "okd (dev s)" "serial_initialized s \<noteq> 0" "vga_wf (con_vga s)" by (simp_all add: con_ready_def)
  obtain v where v: "f (con_vga s, dev s) = Some (v, update_cursor P v (dev s))" "vga_wf v"
      "term_of v = fold act xs (term_of (con_vga s))"
    using assms(3) [OF ok(3), of "dev s"] by blast
  show "\<exists>d v. on_vga f s = Some (s\<lparr>con_vga := v, dev := d\<rparr>) \<and> con_ready okd (s\<lparr>con_vga := v, dev := d\<rparr>) \<and>
      sent d = sent (dev s) @ crlf (put_bytes xs) \<and> term_of v = fold act xs (term_of (con_vga s))"
    using v ok uart_cursor [OF assms(1) ok(1), of v] assms(2)
    by (intro exI [of _ "update_cursor P v (dev s)"] exI [of _ v]) (simp add: on_vga_def con_ready_def)
qed

lemma prints_clear [prints_intros]: "uart P sent okd \<Longrightarrow> prints sent okd s0 (on_vga (vga_clear P)) [Wipe]"
proof (rule prints_on_vga, assumption)
  fix v d assume "vga_wf v"
  then have "terminal_buffer v \<noteq> 0" by (simp add: vga_wf_def)
  then show "\<exists>v'. vga_clear P (v, d) = Some (v', update_cursor P v' d) \<and> vga_wf v' \<and> term_of v' = fold act [Wipe] (term_of v)"
    using vga_clear_spec [of v P d] by auto
qed simp

lemma prints_scroll_view [prints_intros]:
  "uart P sent okd \<Longrightarrow> - (2 ^ 31) \<le> n \<Longrightarrow> n < 2 ^ 31 - 256 \<Longrightarrow> prints sent okd s0 (on_vga (vga_scroll_view P n)) [View_by n]"
proof (rule prints_on_vga, assumption)
  fix v d assume "vga_wf v" "- (2 ^ 31) \<le> n" "n < 2 ^ 31 - 256"
  then show "\<exists>v'. vga_scroll_view P n (v, d) = Some (v', update_cursor P v' d) \<and> vga_wf v' \<and> term_of v' = fold act [View_by n] (term_of v)"
    using vga_scroll_view_spec [of v n P d] by auto
qed simp

lemma prints_scroll_to_bottom [prints_intros]:
  "uart P sent okd \<Longrightarrow> prints sent okd s0 (on_vga (vga_scroll_to_bottom P)) [View_end]"
proof (rule prints_on_vga, assumption)
  fix v d assume "vga_wf v"
  then show "\<exists>v'. vga_scroll_to_bottom P (v, d) = Some (v', update_cursor P v' d) \<and> vga_wf v' \<and> term_of v' = fold act [View_end] (term_of v)"
    using vga_scroll_to_bottom_spec [of v P d] by auto
qed simp

text \<open>The rules that compute the script of a text of prints.\<close>

lemmas script_rules = prints_bind prints_lit prints_numbers prints_if prints_none

end
