(* ===== verification/Queues.thy ===== *)
theory Queues
  imports Prelude
begin

text \<open>
  Contracts of the two rings of the kernel, towards the code that uses them.  \<open>bounded\<close> is what they
  share: a finite sequence of items, never longer than the capacity.  The event queue of the
  keyboard drops what does not fit, the history of the shell drops what is oldest.
\<close>

locale bounded =
  fixes items :: "'q \<Rightarrow> 'e list"
    and inv :: "'q \<Rightarrow> bool"
    and cap :: nat
  assumes items_le: "inv q \<Longrightarrow> length (items q) \<le> cap"

section \<open>First in, first out\<close>

locale event_queue = bounded items inv cap
  for items :: "'q \<Rightarrow> 'e list" and inv :: "'q \<Rightarrow> bool" and cap :: nat +
  fixes enq :: "'e \<Rightarrow> 'q \<Rightarrow> 'q option"
    and deq :: "'q \<Rightarrow> ('e \<times> 'q) option"
    and nonempty :: "'q \<Rightarrow> bool"
  assumes nonempty_items: "inv q \<Longrightarrow> nonempty q \<longleftrightarrow> items q \<noteq> []"
    and enq_law: "inv q \<Longrightarrow> \<exists>r. enq e q = Some r \<and> inv r \<and>
      items r = (if length (items q) < cap then items q @ [e] else items q)"
    and deq_law: "inv q \<Longrightarrow> items q \<noteq> [] \<Longrightarrow> \<exists>r. deq q = Some (hd (items q), r) \<and> inv r \<and> items r = tl (items q)"
begin

text \<open>Enqueueing a list: what fits is appended, in order; the rest is dropped.\<close>

fun enq_all :: "'e list \<Rightarrow> 'q \<Rightarrow> 'q option" where
  "enq_all [] q = Some q"
| "enq_all (e # es) q = do { r \<leftarrow> enq e q; enq_all es r }"

lemma enq_all_items:
  "inv q \<Longrightarrow> \<exists>r. enq_all es q = Some r \<and> inv r \<and> items r = take cap (items q @ es)"
proof (induction es arbitrary: q)
  case Nil
  then show ?case using items_le [OF Nil] by simp
next
  case (Cons e es)
  obtain r where r: "enq e q = Some r" "inv r"
      "items r = (if length (items q) < cap then items q @ [e] else items q)"
    using enq_law [OF Cons.prems, of e] by blast
  obtain t where "enq_all es r = Some t" "inv t" "items t = take cap (items r @ es)"
    using Cons.IH [OF r(2)] by blast
  moreover have "take cap (items r @ es) = take cap (items q @ e # es)"
    using r(3) items_le [OF Cons.prems] by (cases "length (items q) < cap") auto
  ultimately show ?case using r(1) by simp
qed

text \<open>Draining \<open>n\<close> items gives the first \<open>n\<close> in order.\<close>

fun deq_many :: "nat \<Rightarrow> 'q \<Rightarrow> ('e list \<times> 'q) option" where
  "deq_many 0 q = Some ([], q)"
| "deq_many (Suc n) q = do { (e, r) \<leftarrow> deq q; (es, t) \<leftarrow> deq_many n r; Some (e # es, t) }"

lemma deq_many_items:
  "inv q \<Longrightarrow> n \<le> length (items q) \<Longrightarrow>
   \<exists>r. deq_many n q = Some (take n (items q), r) \<and> inv r \<and> items r = drop n (items q)"
proof (induction n arbitrary: q)
  case (Suc n)
  then have ne: "items q \<noteq> []" by auto
  obtain r where r: "deq q = Some (hd (items q), r)" "inv r" "items r = tl (items q)"
    using deq_law [OF Suc.prems(1) ne] by blast
  have "n \<le> length (items r)" using r(3) Suc.prems(2) by (cases "items q") simp_all
  then obtain t where "deq_many n r = Some (take n (tl (items q)), t)" "inv t" "items t = drop n (tl (items q))"
    using Suc.IH [OF r(2)] r(3) by auto
  then show ?case using r(1) ne by (cases "items q") auto
qed simp

end

section \<open>A log of the latest items\<close>

locale latest_log = bounded items inv cap
  for items :: "'q \<Rightarrow> 'e list" and inv :: "'q \<Rightarrow> bool" and cap :: nat +
  fixes push :: "'e \<Rightarrow> 'q \<Rightarrow> 'q option"
    and nth_item :: "'q \<Rightarrow> nat \<Rightarrow> 'e option"
    and ok_item :: "'e \<Rightarrow> bool"
  assumes cap_pos: "0 < cap"
    and push_law: "inv q \<Longrightarrow> ok_item e \<Longrightarrow> \<exists>r. push e q = Some r \<and> inv r \<and>
      items r = (if length (items q) < cap then items q else tl (items q)) @ [e]"
    and nth_law: "inv q \<Longrightarrow> i < length (items q) \<Longrightarrow> nth_item q i = Some (items q ! i)"
begin

fun push_all :: "'e list \<Rightarrow> 'q \<Rightarrow> 'q option" where
  "push_all [] q = Some q"
| "push_all (e # es) q = do { r \<leftarrow> push e q; push_all es r }"

text \<open>After any number of pushes the log holds the latest items, at most \<open>cap\<close> of them.\<close>

lemma push_all_items:
  "inv q \<Longrightarrow> \<forall>e \<in> set es. ok_item e \<Longrightarrow> \<exists>r. push_all es q = Some r \<and> inv r \<and>
    items r = drop (length (items q) + length es - cap) (items q @ es)"
proof (induction es arbitrary: q)
  case Nil
  then show ?case using items_le [OF Nil(1)] by simp
next
  case (Cons e es)
  obtain r where r: "push e q = Some r" "inv r"
      "items r = (if length (items q) < cap then items q else tl (items q)) @ [e]"
    using push_law [OF Cons.prems(1), of e] Cons.prems(2) by auto
  obtain t where "push_all es r = Some t" "inv t" "items t = drop (length (items r) + length es - cap) (items r @ es)"
    using Cons.IH [OF r(2)] Cons.prems(2) by auto
  moreover have "drop (length (items r) + length es - cap) (items r @ es) =
      drop (length (items q) + length (e # es) - cap) (items q @ e # es)"
  proof (cases "length (items q) < cap")
    case True
    then show ?thesis using r(3) by simp
  next
    case False
    then have "length (items q) = cap" using items_le [OF Cons.prems(1)] by simp
    then show ?thesis using r(3) cap_pos by (cases "items q") auto
  qed
  ultimately show ?case using r(1) by simp
qed

lemma latest_item:
  assumes "inv q" and "ok_item e" and "push e q = Some r"
  shows "nth_item r (length (items r) - 1) = Some e"
  using push_law [OF assms(1,2)] assms(3) nth_law [of r "length (items r) - 1"] by auto

end

end
