(* ===== verification/Keyboard.thy ===== *)
theory Keyboard
  imports Queues Ports
begin

text \<open>
  \<open>src/keyboard.c\<close>, \<open>src/keyboard_map.h\<close> and the event types of \<open>src/input.h\<close>: the scancode decoder
  and the ring of 256 events between the interrupt handler and the readers.  The waiting readers
  (\<open>keyboard_getevent\<close> and its callers) are in \<open>Machine\<close>, since waiting takes interrupts.
\<close>

section \<open>Events (input.h)\<close>

datatype input_event_type = INPUT_EVENT_CHAR | INPUT_EVENT_UP | INPUT_EVENT_DOWN | INPUT_EVENT_LEFT | INPUT_EVENT_RIGHT

record input_event =
  ev_type :: input_event_type
  ch :: u8

section \<open>Key codes (keyboard_map.h)\<close>

definition KEY_LSHIFT :: u8 where "KEY_LSHIFT = 0x2A"
definition KEY_RSHIFT :: u8 where "KEY_RSHIFT = 0x36"
definition KEY_EXTENDED_PREFIX :: u8 where "KEY_EXTENDED_PREFIX = 0xE0"
definition KEY_LSHIFT_RELEASE :: u8 where "KEY_LSHIFT_RELEASE = 0xAA"
definition KEY_RSHIFT_RELEASE :: u8 where "KEY_RSHIFT_RELEASE = 0xB6"
definition KEY_ARROW_UP :: u8 where "KEY_ARROW_UP = 0x48"
definition KEY_ARROW_LEFT :: u8 where "KEY_ARROW_LEFT = 0x4B"
definition KEY_ARROW_RIGHT :: u8 where "KEY_ARROW_RIGHT = 0x4D"
definition KEY_ARROW_DOWN :: u8 where "KEY_ARROW_DOWN = 0x50"

lemmas key_codes = KEY_LSHIFT_def KEY_RSHIFT_def KEY_EXTENDED_PREFIX_def KEY_LSHIFT_RELEASE_def
  KEY_RSHIFT_RELEASE_def KEY_ARROW_UP_def KEY_ARROW_LEFT_def KEY_ARROW_RIGHT_def KEY_ARROW_DOWN_def

abbreviation (input) KEYBOARD_DATA_PORT :: u16 where "KEYBOARD_DATA_PORT \<equiv> 0x60"

text \<open>Quote, backquote and backslash are written by their codes 39, 96 and 92 (34, 126 and 124 shifted).\<close>

definition scancode_to_ascii :: "u8 list" where
  "scancode_to_ascii =
     [0, 0] @ str ''123456'' @
     str ''7890-='' @ [8, 9] @
     str ''qwertyui'' @
     str ''op[]'' @ [10, 0] @ str ''as'' @
     str ''dfghjkl;'' @
     [39, 96, 0, 92] @ str ''zxcv'' @
     str ''bnm,./'' @ [0] @ str ''*'' @
     [0] @ str '' '' @ [0, 0, 0, 0, 0, 0]"

definition scancode_to_ascii_shift :: "u8 list" where
  "scancode_to_ascii_shift =
     [0, 0] @ str ''!@#$%^'' @
     str ''&*()_+'' @ [8, 9] @
     str ''QWERTYUI'' @
     str ''OP{}'' @ [10, 0] @ str ''AS'' @
     str ''DFGHJKL:'' @
     [34, 126, 0, 124] @ str ''ZXCV'' @
     str ''BNM<>?'' @ [0] @ str ''*'' @
     [0] @ str '' '' @ [0, 0, 0, 0, 0, 0]"

section \<open>State\<close>

abbreviation (input) INPUT_BUFFER_SIZE :: nat where "INPUT_BUFFER_SIZE \<equiv> 256"

record keyboard =
  shift_pressed :: u8
  extended_prefix :: u8
  input_queue :: "input_event list"
  input_queue_head :: u16
  input_queue_tail :: u16

section \<open>Operations\<close>

definition keyboard_event_char :: "u8 \<Rightarrow> input_event" where
  "keyboard_event_char c = \<lparr>ev_type = INPUT_EVENT_CHAR, ch = c\<rparr>"

definition keyboard_event_special :: "input_event_type \<Rightarrow> input_event" where
  "keyboard_event_special t = \<lparr>ev_type = t, ch = 0\<rparr>"

definition queue_event :: "input_event \<Rightarrow> keyboard \<Rightarrow> keyboard option" where
  "queue_event event k =
     (let nxt = (input_queue_head k + 1) mod of_nat INPUT_BUFFER_SIZE in
      if nxt \<noteq> input_queue_tail k
      then do { q \<leftarrow> wr (input_queue k) (unat (input_queue_head k)) event;
                Some (k\<lparr>input_queue := q, input_queue_head := nxt\<rparr>) }
      else Some k)"

definition keyboard_process_scancode :: "u8 \<Rightarrow> keyboard \<Rightarrow> keyboard option" where
  "keyboard_process_scancode scancode k =
     (if scancode = KEY_EXTENDED_PREFIX then Some (k\<lparr>extended_prefix := 1\<rparr>)
      else if extended_prefix k \<noteq> 0 then
        let k1 = k\<lparr>extended_prefix := 0\<rparr> in
        if scancode AND 0x80 \<noteq> 0 then Some k1
        else if scancode = KEY_ARROW_UP then queue_event (keyboard_event_special INPUT_EVENT_UP) k1
        else if scancode = KEY_ARROW_DOWN then queue_event (keyboard_event_special INPUT_EVENT_DOWN) k1
        else if scancode = KEY_ARROW_LEFT then queue_event (keyboard_event_special INPUT_EVENT_LEFT) k1
        else if scancode = KEY_ARROW_RIGHT then queue_event (keyboard_event_special INPUT_EVENT_RIGHT) k1
        else Some k1
      else if scancode = KEY_LSHIFT \<or> scancode = KEY_RSHIFT then Some (k\<lparr>shift_pressed := 1\<rparr>)
      else if scancode = KEY_LSHIFT_RELEASE \<or> scancode = KEY_RSHIFT_RELEASE then Some (k\<lparr>shift_pressed := 0\<rparr>)
      else if scancode AND 0x80 \<noteq> 0 then Some k
      else do {
        ascii \<leftarrow> (if unat scancode < length scancode_to_ascii
                  then rd (if shift_pressed k \<noteq> 0 then scancode_to_ascii_shift else scancode_to_ascii) (unat scancode)
                  else Some 0);
        if ascii \<noteq> 0 then queue_event (keyboard_event_char ascii) k else Some k })"

definition keyboard_handler :: "'d ports \<Rightarrow> keyboard \<times> 'd \<Rightarrow> (keyboard \<times> 'd) option" where
  "keyboard_handler P = (\<lambda>(k, d).
     let (scancode, d') = inb P KEYBOARD_DATA_PORT d in
     do { k' \<leftarrow> keyboard_process_scancode scancode k; Some (k', d') })"

definition keyboard_has_input :: "keyboard \<Rightarrow> bool" where
  "keyboard_has_input k \<longleftrightarrow> input_queue_head k \<noteq> input_queue_tail k"

text \<open>The end of \<open>keyboard_getevent\<close>, once there is input.\<close>

definition keyboard_take :: "keyboard \<Rightarrow> (input_event \<times> keyboard) option" where
  "keyboard_take k =
     do { event \<leftarrow> rd (input_queue k) (unat (input_queue_tail k));
          Some (event, k\<lparr>input_queue_tail := (input_queue_tail k + 1) mod of_nat INPUT_BUFFER_SIZE\<rparr>) }"

definition keyboard_reset_state :: "keyboard \<Rightarrow> keyboard" where
  "keyboard_reset_state k =
     k\<lparr>shift_pressed := 0, extended_prefix := 0, input_queue_head := 0, input_queue_tail := 0\<rparr>"

definition keyboard_init :: "keyboard \<Rightarrow> keyboard" where
  "keyboard_init k = keyboard_reset_state k"

section \<open>The ring as a list\<close>

definition ring_count :: "keyboard \<Rightarrow> nat" where
  "ring_count k = (unat (input_queue_head k) + 256 - unat (input_queue_tail k)) mod 256"

definition pending :: "keyboard \<Rightarrow> input_event list" where
  "pending k = map (\<lambda>i. input_queue k ! ((unat (input_queue_tail k) + i) mod 256)) [0..<ring_count k]"

definition keyboard_wf :: "keyboard \<Rightarrow> bool" where
  "keyboard_wf k \<longleftrightarrow> length (input_queue k) = 256 \<and> unat (input_queue_head k) < 256 \<and> unat (input_queue_tail k) < 256"

lemma length_pending [simp]: "length (pending k) = ring_count k"
  by (simp add: pending_def)

lemma ring_next:
  "unat (h :: u16) < 256 \<Longrightarrow> unat ((h + 1) mod of_nat 256) = (unat h + 1) mod 256"
  by (simp add: unat_mod unat_plus_if')

lemma ring_count_empty: "keyboard_wf k \<Longrightarrow> ring_count k = 0 \<longleftrightarrow> input_queue_head k = input_queue_tail k"
proof -
  assume "keyboard_wf k"
  then have "unat (input_queue_head k) < 256" "unat (input_queue_tail k) < 256" by (simp_all add: keyboard_wf_def)
  moreover have "(a + 256 - b) mod 256 = 0 \<longleftrightarrow> a = b" if "a < 256" "b < 256" for a b :: nat
    using that by (cases "a < b") (auto simp: mod_if)
  ultimately show ?thesis unfolding ring_count_def by (simp add: word_eq_iff_unsigned [where 'a = nat])
qed

lemma ring_count_push:
  fixes a b :: nat
  assumes "a < 256" and "b < 256" and "(a + 1) mod 256 \<noteq> b"
  shows "((a + 1) mod 256 + 256 - b) mod 256 = Suc ((a + 256 - b) mod 256)"
    and "(b + (a + 256 - b) mod 256) mod 256 = a"
  using assms by (auto simp: mod_if split: if_splits)

lemma ring_count_full:
  fixes a b :: nat
  assumes "a < 256" and "b < 256"
  shows "(a + 1) mod 256 = b \<longleftrightarrow> (a + 256 - b) mod 256 = 255"
  using assms by (auto simp: mod_if)

lemma ring_index_other:
  fixes b i n :: nat
  assumes "i < n" and "n < 256"
  shows "(b + i) mod 256 \<noteq> (b + n) mod 256"
proof
  assume "(b + i) mod 256 = (b + n) mod 256"
  then have "256 dvd (b + n) - (b + i)" using assms by (intro mod_eq_dvd_iff_nat [THEN iffD1]) simp_all
  then have "256 dvd n - i" by simp
  then show False using assms by (auto dest: dvd_imp_le)
qed

lemma queue_event_spec:
  assumes "keyboard_wf k"
  shows "\<exists>r. queue_event e k = Some r \<and> keyboard_wf r \<and>
    pending r = (if length (pending k) < 255 then pending k @ [e] else pending k) \<and>
    shift_pressed r = shift_pressed k \<and> extended_prefix r = extended_prefix k"
proof -
  let ?h = "unat (input_queue_head k)" and ?t = "unat (input_queue_tail k)"
  have wf: "length (input_queue k) = 256" "?h < 256" "?t < 256" using assms by (simp_all add: keyboard_wf_def)
  have lt: "ring_count k < 256" by (simp add: ring_count_def)
  have nx: "(input_queue_head k + 1) mod of_nat 256 = input_queue_tail k \<longleftrightarrow> (?h + 1) mod 256 = ?t"
    using ring_next [OF wf(2)] by (simp add: word_eq_iff_unsigned [where 'a = nat])
  show ?thesis
  proof (cases "(?h + 1) mod 256 = ?t")
    case True
    then have "ring_count k = 255" using ring_count_full [OF wf(2,3)] by (simp add: ring_count_def)
    then show ?thesis using True nx assms by (simp add: queue_event_def Let_def)
  next
    case False
    let ?r = "k\<lparr>input_queue := (input_queue k)[?h := e], input_queue_head := (input_queue_head k + 1) mod of_nat 256\<rparr>"
    have q: "queue_event e k = Some ?r" using False nx wf by (simp add: queue_event_def Let_def)
    have un: "unat (input_queue_head ?r) = (?h + 1) mod 256" using ring_next [OF wf(2)] by simp
    have c: "ring_count ?r = Suc (ring_count k)"
      using ring_count_push(1) [OF wf(2,3) False] un by (simp add: ring_count_def)
    have at: "(?t + ring_count k) mod 256 = ?h"
      using ring_count_push(2) [OF wf(2,3) False] by (simp add: ring_count_def)
    have "ring_count k \<noteq> 255" using ring_count_full [OF wf(2,3)] False by (simp add: ring_count_def)
    moreover have "pending ?r = pending k @ [e]"
    proof -
      have "(input_queue k)[?h := e] ! ((?t + i) mod 256) = input_queue k ! ((?t + i) mod 256)" if "i < ring_count k" for i
        using ring_index_other [OF that lt, of ?t] at by simp
      then have "map (\<lambda>i. (input_queue k)[?h := e] ! ((?t + i) mod 256)) [0..<ring_count k] = pending k"
        unfolding pending_def by (intro map_cong) simp_all
      moreover have "(input_queue k)[?h := e] ! ((?t + ring_count k) mod 256) = e" using at wf by simp
      ultimately show ?thesis unfolding pending_def [of ?r] c by simp
    qed
    moreover have "keyboard_wf ?r" using wf un by (simp add: keyboard_wf_def)
    ultimately show ?thesis using q lt by simp
  qed
qed

lemma keyboard_take_spec:
  assumes "keyboard_wf k" and "pending k \<noteq> []"
  shows "\<exists>r. keyboard_take k = Some (hd (pending k), r) \<and> keyboard_wf r \<and> pending r = tl (pending k) \<and>
    shift_pressed r = shift_pressed k \<and> extended_prefix r = extended_prefix k"
proof -
  let ?h = "unat (input_queue_head k)" and ?t = "unat (input_queue_tail k)"
  have wf: "length (input_queue k) = 256" "?h < 256" "?t < 256" using assms(1) by (simp_all add: keyboard_wf_def)
  let ?r = "k\<lparr>input_queue_tail := (input_queue_tail k + 1) mod of_nat 256\<rparr>"
  have un: "unat (input_queue_tail ?r) = (?t + 1) mod 256" using ring_next [OF wf(3)] by simp
  obtain n where n: "ring_count k = Suc n" using assms(2) by (cases "ring_count k") (simp_all add: pending_def)
  have "(a + 256 - (b + 1) mod 256) mod 256 = n" if "(a + 256 - b) mod 256 = Suc n" "a < 256" "b < 256" for a b :: nat
    using that by (auto simp: mod_if split: if_splits)
  from this [OF _ wf(2,3)] have c: "ring_count ?r = n" using n un by (simp add: ring_count_def)
  have "pending ?r = map (\<lambda>i. input_queue k ! ((?t + Suc i) mod 256)) [0..<n]"
    unfolding pending_def c un by (simp add: mod_simps)
  also have "\<dots> = tl (pending k)"
    unfolding pending_def n by (simp add: upt_conv_Cons map_Suc_upt [symmetric] o_def del: upt_Suc)
  finally have p: "pending ?r = tl (pending k)" .
  have "hd (pending k) = input_queue k ! ?t"
    unfolding pending_def n using wf(3) by (simp add: upt_conv_Cons del: upt_Suc)
  then have "keyboard_take k = Some (hd (pending k), ?r)" using wf by (simp add: keyboard_take_def)
  then show ?thesis using p wf un by (simp add: keyboard_wf_def)
qed

interpretation kq: event_queue pending keyboard_wf 255 queue_event keyboard_take keyboard_has_input
proof unfold_locales
  fix k e
  assume wf: "keyboard_wf k"
  show "length (pending k) \<le> 255" by (simp add: ring_count_def less_Suc_eq_le [symmetric])
  show "keyboard_has_input k \<longleftrightarrow> pending k \<noteq> []"
    using ring_count_empty [OF wf] by (auto simp: keyboard_has_input_def pending_def)
  show "\<exists>r. queue_event e k = Some r \<and> keyboard_wf r \<and>
      pending r = (if length (pending k) < 255 then pending k @ [e] else pending k)"
    using queue_event_spec [OF wf] by blast
  show "pending k \<noteq> [] \<Longrightarrow> \<exists>r. keyboard_take k = Some (hd (pending k), r) \<and> keyboard_wf r \<and> pending r = tl (pending k)"
    using keyboard_take_spec [OF wf] by blast
qed


section \<open>The decoder\<close>

text \<open>What a stream of scancodes means: the modifier state (shift, extended prefix) and the events.\<close>

definition arrow_event :: "u8 \<Rightarrow> input_event list" where
  "arrow_event sc =
     (if sc = 0x48 then [\<lparr>ev_type = INPUT_EVENT_UP, ch = 0\<rparr>]
      else if sc = 0x50 then [\<lparr>ev_type = INPUT_EVENT_DOWN, ch = 0\<rparr>]
      else if sc = 0x4B then [\<lparr>ev_type = INPUT_EVENT_LEFT, ch = 0\<rparr>]
      else if sc = 0x4D then [\<lparr>ev_type = INPUT_EVENT_RIGHT, ch = 0\<rparr>]
      else [])"

definition char_event :: "bool \<Rightarrow> u8 \<Rightarrow> input_event list" where
  "char_event shift sc =
     (let table = (if shift then scancode_to_ascii_shift else scancode_to_ascii) in
      if unat sc < 64 \<and> table ! unat sc \<noteq> 0 then [\<lparr>ev_type = INPUT_EVENT_CHAR, ch = table ! unat sc\<rparr>] else [])"

fun decode :: "bool \<times> bool \<Rightarrow> u8 \<Rightarrow> (bool \<times> bool) \<times> input_event list" where
  "decode (shift, ext) sc =
     (if sc = 0xE0 then ((shift, True), [])
      else if ext then ((shift, False), arrow_event sc)
      else if sc = 0x2A \<or> sc = 0x36 then ((True, False), [])
      else if sc = 0xAA \<or> sc = 0xB6 then ((False, False), [])
      else ((shift, False), char_event shift sc))"

fun decode_all :: "bool \<times> bool \<Rightarrow> u8 list \<Rightarrow> (bool \<times> bool) \<times> input_event list" where
  "decode_all m [] = (m, [])"
| "decode_all m (sc # scs) =
     (let (m1, es) = decode m sc; (m2, es') = decode_all m1 scs in (m2, es @ es'))"

definition modifiers :: "keyboard \<Rightarrow> bool \<times> bool" where
  "modifiers k = (shift_pressed k \<noteq> 0, extended_prefix k \<noteq> 0)"

lemma length_tables [simp]: "length scancode_to_ascii = 64" "length scancode_to_ascii_shift = 64"
  by (simp_all add: scancode_to_ascii_def scancode_to_ascii_shift_def)

lemma high_bit: "(sc :: u8) AND 0x80 \<noteq> 0 \<longleftrightarrow> 128 \<le> unat sc"
proof -
  have m: "(0x80 :: u8) = NOT (mask 7)" by (simp add: mask_numeral)
  have "unat (sc AND 0x80) = unat sc div 128 * 128" unfolding m unat_and_not_mask by simp
  then have "sc AND 0x80 = 0 \<longleftrightarrow> unat sc div 128 = 0" by (simp add: unat_eq_0 [symmetric])
  then show ?thesis by (auto simp: div_eq_0_iff)
qed

text \<open>Queueing one event keeps at most 255; the other fields stay.\<close>

lemma queue_event_take:
  assumes "keyboard_wf k"
  shows "\<exists>r. queue_event e k = Some r \<and> keyboard_wf r \<and> modifiers r = modifiers k \<and> pending r = take 255 (pending k @ [e])"
proof -
  obtain r where r: "queue_event e k = Some r" "keyboard_wf r"
      "pending r = (if length (pending k) < 255 then pending k @ [e] else pending k)"
      "shift_pressed r = shift_pressed k" "extended_prefix r = extended_prefix k"
    using queue_event_spec [OF assms] by blast
  have "length (pending k) \<le> 255" using kq.items_le [OF assms] .
  then have "pending r = take 255 (pending k @ [e])" using r(3) by (cases "length (pending k) < 255") simp_all
  then show ?thesis using r by (simp add: modifiers_def)
qed

lemma modifier_updates:
  assumes "keyboard_wf k"
  shows "keyboard_wf (k\<lparr>extended_prefix := p\<rparr>)" "pending (k\<lparr>extended_prefix := p\<rparr>) = pending k"
    "keyboard_wf (k\<lparr>shift_pressed := b\<rparr>)" "pending (k\<lparr>shift_pressed := b\<rparr>) = pending k" "take 255 (pending k) = pending k"
  using assms kq.items_le [OF assms] by (simp_all add: keyboard_wf_def pending_def ring_count_def)

text \<open>After the prefix byte only the codes of the arrow keys count.\<close>

lemma process_extended:
  assumes "sc \<noteq> 0xE0" and "extended_prefix k \<noteq> 0"
  shows "keyboard_process_scancode sc k =
    (case arrow_event sc of [] \<Rightarrow> Some (k\<lparr>extended_prefix := 0\<rparr>) | e # _ \<Rightarrow> queue_event e (k\<lparr>extended_prefix := 0\<rparr>))"
proof (cases "arrow_event sc = []")
  case True
  then show ?thesis using assms
    by (auto simp: keyboard_process_scancode_def key_codes arrow_event_def Let_def split: if_splits)
next
  case False
  then have "\<not> (sc AND 0x80 \<noteq> 0)" by (auto simp: arrow_event_def split: if_splits)
  then show ?thesis using assms False
    by (auto simp: keyboard_process_scancode_def key_codes arrow_event_def keyboard_event_special_def Let_def split: if_splits)
qed

text \<open>Without it, codes that are no shift key are looked up in the table of the shift state.\<close>

lemma process_plain:
  assumes "sc \<notin> {0xE0, 0x2A, 0x36, 0xAA, 0xB6}" and "extended_prefix k = 0"
  shows "keyboard_process_scancode sc k =
    (case char_event (shift_pressed k \<noteq> 0) sc of [] \<Rightarrow> Some k | e # _ \<Rightarrow> queue_event e k)"
proof -
  let ?t = "if shift_pressed k \<noteq> 0 then scancode_to_ascii_shift else scancode_to_ascii"
  have "keyboard_process_scancode sc k =
      (if unat sc < 64 \<and> ?t ! unat sc \<noteq> 0 then queue_event (keyboard_event_char (?t ! unat sc)) k else Some k)"
    using assms high_bit [of sc] by (cases "128 \<le> unat sc") (simp_all add: keyboard_process_scancode_def key_codes)
  then show ?thesis by (auto simp: char_event_def keyboard_event_char_def Let_def)
qed

text \<open>One scancode: the modifiers change as decoded and the decoded event, if any, is queued.\<close>

lemma process_scancode_spec:
  assumes "keyboard_wf k"
  shows "\<exists>r. keyboard_process_scancode sc k = Some r \<and> keyboard_wf r \<and>
    modifiers r = fst (decode (modifiers k) sc) \<and>
    pending r = take 255 (pending k @ snd (decode (modifiers k) sc))"
proof -
  note upd = modifier_updates [OF assms]
  consider (prefix) "sc = 0xE0" | (ext) "sc \<noteq> 0xE0" "extended_prefix k \<noteq> 0"
    | (shift) "sc \<in> {0x2A, 0x36, 0xAA, 0xB6}" "extended_prefix k = 0"
    | (plain) "sc \<notin> {0xE0, 0x2A, 0x36, 0xAA, 0xB6}" "extended_prefix k = 0" by blast
  then show ?thesis
  proof cases
    case prefix
    then show ?thesis using upd by (simp add: keyboard_process_scancode_def key_codes modifiers_def)
  next
    case ext
    have d: "decode (modifiers k) sc = (modifiers (k\<lparr>extended_prefix := 0\<rparr>), arrow_event sc)" using ext by (simp add: modifiers_def)
    show ?thesis
    proof (cases "arrow_event sc")
      case Nil
      then show ?thesis using process_extended [OF ext] d upd by simp
    next
      case (Cons e es)
      then have "arrow_event sc = [e]" by (auto simp: arrow_event_def split: if_splits)
      then show ?thesis using process_extended [OF ext] d queue_event_take [OF upd(1) [of 0], of e] upd(2) by simp
    qed
  next
    case shift
    then show ?thesis using upd by (auto simp: keyboard_process_scancode_def key_codes modifiers_def)
  next
    case plain
    have d: "decode (modifiers k) sc = (modifiers k, char_event (shift_pressed k \<noteq> 0) sc)" using plain by (auto simp: modifiers_def)
    show ?thesis
    proof (cases "char_event (shift_pressed k \<noteq> 0) sc")
      case Nil
      then show ?thesis using process_plain [OF plain] d upd assms by simp
    next
      case (Cons e es)
      then have "char_event (shift_pressed k \<noteq> 0) sc = [e]" by (auto simp: char_event_def Let_def split: if_splits)
      then show ?thesis using process_plain [OF plain] d queue_event_take [OF assms, of e] by simp
    qed
  qed
qed

fun process_all :: "u8 list \<Rightarrow> keyboard \<Rightarrow> keyboard option" where
  "process_all [] k = Some k"
| "process_all (sc # scs) k = do { r \<leftarrow> keyboard_process_scancode sc k; process_all scs r }"

lemma process_all_spec:
  assumes "keyboard_wf k"
  shows "\<exists>r. process_all scs k = Some r \<and> keyboard_wf r \<and> modifiers r = fst (decode_all (modifiers k) scs) \<and>
    pending r = take 255 (pending k @ snd (decode_all (modifiers k) scs))"
  using assms
proof (induction scs arbitrary: k)
  case Nil
  then show ?case using kq.items_le [OF Nil] by simp
next
  case (Cons sc scs)
  obtain r where r: "keyboard_process_scancode sc k = Some r" "keyboard_wf r"
      "modifiers r = fst (decode (modifiers k) sc)" "pending r = take 255 (pending k @ snd (decode (modifiers k) sc))"
    using process_scancode_spec [OF Cons.prems, of sc] by blast
  have "take 255 (pending r @ es) = take 255 (pending k @ snd (decode (modifiers k) sc) @ es)" for es
    unfolding r(4) take_take_append by simp
  then show ?case using Cons.IH [OF r(2)] r(1,3) by (auto simp: split_beta Let_def simp del: take_append)
qed

section \<open>Interleaving with the interrupt handler\<close>

text \<open>
  \<open>keyboard_getevent\<close> reads the slot and then advances the tail; the keyboard interrupt may come
  between the two.  A state is the keyboard, the event that was read but not yet removed, and a record
  of what should have happened, kept without looking at the keyboard: the modifiers of the reference
  decoder, the events returned so far, and the events that were typed while fewer than 255 of those
  before them were still waiting.
\<close>

definition keyboard_fetch :: "keyboard \<Rightarrow> input_event option" where
  "keyboard_fetch k = rd (input_queue k) (unat (input_queue_tail k))"

definition keyboard_advance :: "keyboard \<Rightarrow> keyboard" where
  "keyboard_advance k = k\<lparr>input_queue_tail := (input_queue_tail k + 1) mod of_nat INPUT_BUFFER_SIZE\<rparr>"

lemma keyboard_take_steps: "keyboard_take k = do { e \<leftarrow> keyboard_fetch k; Some (e, keyboard_advance k) }"
  by (simp add: keyboard_take_def keyboard_fetch_def keyboard_advance_def)

type_synonym kq_state = "keyboard \<times> input_event option \<times> (bool \<times> bool) \<times> input_event list \<times> input_event list"

definition admitted :: "bool \<times> bool \<Rightarrow> u8 \<Rightarrow> input_event list \<Rightarrow> input_event list \<Rightarrow> input_event list" where
  "admitted m sc out acc = (if length acc - length out < 255 then snd (decode m sc) else [])"

inductive kq_step :: "kq_state \<Rightarrow> kq_state \<Rightarrow> bool" where
  irq: "keyboard_process_scancode sc k = Some k' \<Longrightarrow>
     kq_step (k, got, m, out, acc) (k', got, fst (decode m sc), out, acc @ admitted m sc out acc)"
| fetch: "keyboard_has_input k \<Longrightarrow> keyboard_fetch k = Some e \<Longrightarrow> kq_step (k, None, m, out, acc) (k, Some e, m, out, acc)"
| advance: "kq_step (k, Some e, m, out, acc) (keyboard_advance k, None, m, out @ [e], acc)"

inductive_simps kq_step_iff: "kq_step (k, got, m, out, acc) (k', got', m', out', acc')"

text \<open>Events that were handed out or admitted are never taken back.\<close>

lemma kq_step_prefix: "kq_step (k, got, m, out, acc) (k', got', m', out', acc') \<Longrightarrow>
  (\<exists>xs. out' = out @ xs) \<and> (\<exists>ys. acc' = acc @ ys)"
  by (auto simp: kq_step_iff)

definition kq_inv :: "kq_state \<Rightarrow> bool" where
  "kq_inv s \<longleftrightarrow> (case s of (k, got, m, out, acc) \<Rightarrow> keyboard_wf k \<and> m = modifiers k \<and> acc = out @ pending k \<and>
     (\<forall>e. got = Some e \<longrightarrow> pending k \<noteq> [] \<and> hd (pending k) = e))"

lemma decode_one: "length (snd (decode m sc)) \<le> 1"
  by (cases m) (auto simp: arrow_event_def char_event_def Let_def)

lemma process_scancode_admits:
  assumes "keyboard_wf k" and "keyboard_process_scancode sc k = Some k'"
  shows "keyboard_wf k'" and "modifiers k' = fst (decode (modifiers k) sc)"
    and "pending k' = pending k @ admitted (modifiers k) sc out (out @ pending k)"
proof -
  let ?es = "snd (decode (modifiers k) sc)"
  have k': "keyboard_wf k'" "modifiers k' = fst (decode (modifiers k) sc)" "pending k' = take 255 (pending k @ ?es)"
    using process_scancode_spec [OF assms(1), of sc] assms(2) by auto
  show "keyboard_wf k'" and "modifiers k' = fst (decode (modifiers k) sc)" using k'(1,2) by simp_all
  have "length (pending k) \<le> 255" by (rule kq.items_le [OF assms(1)])
  moreover have "length ?es \<le> 1" by (rule decode_one)
  ultimately have "take 255 (pending k @ ?es) = pending k @ (if length (pending k) < 255 then ?es else [])"
    by (simp del: length_pending)
  then show "pending k' = pending k @ admitted (modifiers k) sc out (out @ pending k)"
    using k'(3) by (simp add: admitted_def del: length_pending)
qed

lemma keyboard_fetch_hd:
  assumes "keyboard_wf k" and "keyboard_has_input k" and "keyboard_fetch k = Some e"
  shows "pending k \<noteq> [] \<and> hd (pending k) = e"
proof -
  have "pending k \<noteq> []" using kq.nonempty_items [OF assms(1)] assms(2) by simp
  then show ?thesis using kq.deq_law [OF assms(1)] assms(3) by (auto simp: keyboard_take_steps)
qed

lemma kq_step_inv:
  assumes "kq_step s s'" and "kq_inv s"
  shows "kq_inv s'"
  using assms
proof (cases rule: kq_step.cases)
  case (irq sc k k' got m out acc)
  then have k: "keyboard_wf k" "m = modifiers k" "acc = out @ pending k"
      "\<forall>e. got = Some e \<longrightarrow> pending k \<noteq> [] \<and> hd (pending k) = e"
    using assms(2) by (simp_all add: kq_inv_def)
  show ?thesis unfolding irq(2) kq_inv_def
    using k(2-4) process_scancode_admits(1,2) [OF k(1) irq(3)] process_scancode_admits(3) [OF k(1) irq(3), of out] by simp
next
  case (fetch k e m out acc)
  then have k: "keyboard_wf k" "m = modifiers k" "acc = out @ pending k" using assms(2) by (simp_all add: kq_inv_def)
  then show ?thesis unfolding fetch(2) kq_inv_def using keyboard_fetch_hd [OF k(1) fetch(3,4)] by simp
next
  case (advance k e m out acc)
  then have k: "keyboard_wf k" "pending k \<noteq> []" "hd (pending k) = e" "acc = out @ pending k" "m = modifiers k"
    using assms(2) by (simp_all add: kq_inv_def)
  obtain r where "keyboard_take k = Some (e, r)" "keyboard_wf r" "pending r = tl (pending k)"
    using kq.deq_law [OF k(1,2)] k(3) by blast
  moreover then have "r = keyboard_advance k" by (auto simp: keyboard_take_steps Option.bind_eq_Some_conv)
  ultimately have "keyboard_wf (keyboard_advance k)" "pending (keyboard_advance k) = tl (pending k)" by simp_all
  moreover have "pending k = e # tl (pending k)" using k(2,3) by (cases "pending k") simp_all
  moreover have "modifiers (keyboard_advance k) = modifiers k" by (simp add: modifiers_def keyboard_advance_def)
  ultimately show ?thesis using advance(2) k(4,5) by (simp add: kq_inv_def)
qed

lemma kq_run_inv: "kq_step\<^sup>*\<^sup>* s s' \<Longrightarrow> kq_inv s \<Longrightarrow> kq_inv s'"
  by (induction rule: rtranclp_induct) (auto intro: kq_step_inv)

section \<open>Properties\<close>

definition fresh_keyboard :: keyboard where
  "fresh_keyboard = \<lparr>shift_pressed = 0, extended_prefix = 0,
     input_queue = replicate 256 \<lparr>ev_type = INPUT_EVENT_CHAR, ch = 0\<rparr>, input_queue_head = 0, input_queue_tail = 0\<rparr>"

lemma fresh_keyboard_simps:
  "keyboard_wf fresh_keyboard" "pending fresh_keyboard = []" "modifiers fresh_keyboard = (False, False)"
  by (simp_all add: fresh_keyboard_def keyboard_wf_def pending_def ring_count_def modifiers_def)

text \<open>C20: for every stream of scancodes the driver never leaves its tables or its ring, follows the
  shift and prefix keys, and queues exactly the decoded events in order, keeping the first 255 that
  were not yet read and dropping the rest.\<close>

theorem keyboard_refines_decoder:
  assumes "keyboard_wf k"
  shows "\<exists>r. process_all scs k = Some r \<and> keyboard_wf r \<and> modifiers r = fst (decode_all (modifiers k) scs) \<and>
    pending r = take 255 (pending k @ snd (decode_all (modifiers k) scs))"
  by (rule process_all_spec [OF assms])

theorem keyboard_refines_decoder_witness:
  "\<exists>r. process_all [0x2A, 0x23, 0xAA, 0x17, 0xE0, 0x48] fresh_keyboard = Some r \<and>
     map ch (pending r) = str ''Hi'' @ [0] \<and> map ev_type (pending r) = [INPUT_EVENT_CHAR, INPUT_EVENT_CHAR, INPUT_EVENT_UP]"
proof -
  have "snd (decode_all (False, False) [0x2A, 0x23, 0xAA, 0x17, 0xE0, 0x48]) =
      [\<lparr>ev_type = INPUT_EVENT_CHAR, ch = 72\<rparr>, \<lparr>ev_type = INPUT_EVENT_CHAR, ch = 105\<rparr>, \<lparr>ev_type = INPUT_EVENT_UP, ch = 0\<rparr>]"
    by code_simp
  then show ?thesis
    using keyboard_refines_decoder [OF fresh_keyboard_simps(1), of "[0x2A, 0x23, 0xAA, 0x17, 0xE0, 0x48]"]
    by (auto simp: fresh_keyboard_simps str_def)
qed

lemma decode_types_char:
  assumes "i < 64" and "scancode_to_ascii ! i \<noteq> 0"
  shows "decode_all (False, False) [of_nat i, of_nat i + 0x80] =
      ((False, False), [\<lparr>ev_type = INPUT_EVENT_CHAR, ch = scancode_to_ascii ! i\<rparr>]) \<and>
    decode_all (False, False) [KEY_LSHIFT, of_nat i, of_nat i + 0x80, KEY_LSHIFT_RELEASE] =
      ((False, False), [\<lparr>ev_type = INPUT_EVENT_CHAR, ch = scancode_to_ascii_shift ! i\<rparr>])"
proof -
  have z: "scancode_to_ascii ! 42 = 0" "scancode_to_ascii ! 54 = 0" by code_simp+
  have "list_all2 (\<lambda>a b. a \<noteq> 0 \<longrightarrow> b \<noteq> 0) scancode_to_ascii scancode_to_ascii_shift" by code_simp
  then have sh: "scancode_to_ascii_shift ! i \<noteq> 0" using assms by (simp add: list_all2_conv_all_nth)
  have i: "i \<noteq> 42" "i \<noteq> 54" using z assms(2) by auto
  have u: "unat (of_nat i :: u8) = i" "unat (of_nat i + 0x80 :: u8) = i + 128"
    using assms(1) by (simp_all add: unat_of_nat unat_plus_if' take_bit_eq_mod)
  have ne: "(of_nat i :: u8) \<noteq> 0xE0" "(of_nat i :: u8) \<noteq> 0x2A" "(of_nat i :: u8) \<noteq> 0x36" "(of_nat i :: u8) \<noteq> 0xAA"
      "(of_nat i :: u8) \<noteq> 0xB6" "(of_nat i + 0x80 :: u8) \<noteq> 0xE0" "(of_nat i + 0x80 :: u8) \<noteq> 0x2A"
      "(of_nat i + 0x80 :: u8) \<noteq> 0x36" "(of_nat i + 0x80 :: u8) \<noteq> 0xAA" "(of_nat i + 0x80 :: u8) \<noteq> 0xB6"
    using u i assms(1) by (simp_all add: word_eq_iff_unsigned [where 'a = nat])
  have down: "decode (b, False) (of_nat i) =
      ((b, False), [\<lparr>ev_type = INPUT_EVENT_CHAR, ch = (if b then scancode_to_ascii_shift else scancode_to_ascii) ! i\<rparr>])" for b
    using ne assms sh by (simp add: char_event_def u Let_def)
  have up: "decode (b, False) (of_nat i + 0x80) = ((b, False), [])" for b
    using ne assms(1) by (simp add: char_event_def u Let_def)
  have ls: "decode (False, False) KEY_LSHIFT = ((True, False), [])"
    "decode (True, False) KEY_LSHIFT_RELEASE = ((False, False), [])" by (simp_all add: key_codes)
  show ?thesis by (simp add: down up ls Let_def del: decode.simps)
qed

text \<open>Pressing and releasing a key that has a character in the table queues exactly that
  character, with shift held the shifted one, and the modifiers are as before.\<close>

lemma keyboard_types_char:
  assumes "keyboard_wf k" and "modifiers k = (False, False)" and "length (pending k) < 255"
    and "i < 64" and "scancode_to_ascii ! i \<noteq> 0"
  shows "(\<exists>r. process_all [of_nat i, of_nat i + 0x80] k = Some r \<and> modifiers r = (False, False) \<and>
      pending r = pending k @ [keyboard_event_char (scancode_to_ascii ! i)]) \<and>
    (\<exists>r. process_all [KEY_LSHIFT, of_nat i, of_nat i + 0x80, KEY_LSHIFT_RELEASE] k = Some r \<and>
      modifiers r = (False, False) \<and> pending r = pending k @ [keyboard_event_char (scancode_to_ascii_shift ! i)])"
proof (rule conjI)
  have fits: "take 255 (pending k @ [e]) = pending k @ [e]" for e using assms(3) by (cases "pending k") simp_all
  show "\<exists>r. process_all [of_nat i, of_nat i + 0x80] k = Some r \<and> modifiers r = (False, False) \<and>
      pending r = pending k @ [keyboard_event_char (scancode_to_ascii ! i)]"
    using process_all_spec [OF assms(1), of "[of_nat i, of_nat i + 0x80]"] decode_types_char [OF assms(4,5)] assms(2) fits
    by (auto simp: keyboard_event_char_def simp del: take_append decode_all.simps process_all.simps)
  show "\<exists>r. process_all [KEY_LSHIFT, of_nat i, of_nat i + 0x80, KEY_LSHIFT_RELEASE] k = Some r \<and>
      modifiers r = (False, False) \<and> pending r = pending k @ [keyboard_event_char (scancode_to_ascii_shift ! i)]"
    using process_all_spec [OF assms(1), of "[KEY_LSHIFT, of_nat i, of_nat i + 0x80, KEY_LSHIFT_RELEASE]"]
      decode_types_char [OF assms(4,5)] assms(2) fits
    by (auto simp: keyboard_event_char_def simp del: take_append decode_all.simps process_all.simps)
qed

text \<open>C22: whatever the interleaving of the interrupt handler with a reader, also between its read of
  the slot and its update of the tail, the events returned and then those pending are the events typed,
  in order and each once, except those that were typed while 255 were already waiting; no scancode
  makes the handler leave its ring, and a reader that finds input gets an event.\<close>

theorem keyboard_queue_fifo:
  assumes "kq_step\<^sup>*\<^sup>* (fresh_keyboard, None, (False, False), [], []) (k, got, m, out, acc)"
  shows "out @ pending k = acc \<and> m = modifiers k \<and> (\<forall>e. got = Some e \<longrightarrow> pending k \<noteq> [] \<and> hd (pending k) = e) \<and>
    (\<forall>sc. \<exists>k'. keyboard_process_scancode sc k = Some k') \<and>
    (keyboard_has_input k \<longleftrightarrow> pending k \<noteq> []) \<and> (pending k \<noteq> [] \<longrightarrow> keyboard_fetch k = Some (hd (pending k)))"
proof -
  have "kq_inv (fresh_keyboard, None, (False, False), [], [])" by (simp add: kq_inv_def fresh_keyboard_simps)
  from kq_run_inv [OF assms this] have k: "keyboard_wf k" "m = modifiers k" "acc = out @ pending k"
      "\<forall>e. got = Some e \<longrightarrow> pending k \<noteq> [] \<and> hd (pending k) = e" by (simp_all add: kq_inv_def)
  have "\<exists>k'. keyboard_process_scancode sc k = Some k'" for sc using process_scancode_spec [OF k(1)] by blast
  moreover have "pending k \<noteq> [] \<longrightarrow> keyboard_fetch k = Some (hd (pending k))"
    using kq.deq_law [OF k(1)] by (fastforce simp: keyboard_take_steps Option.bind_eq_Some_conv)
  ultimately show ?thesis using k(2-4) kq.nonempty_items [OF k(1)] by blast
qed

theorem keyboard_queue_fifo_witness:
  "\<exists>k. kq_step\<^sup>*\<^sup>* (fresh_keyboard, None, (False, False), [], [])
       (k, None, (False, False), [keyboard_event_char 97], [keyboard_event_char 97]) \<and> pending k = []"
proof -
  obtain k where k: "keyboard_process_scancode 0x1E fresh_keyboard = Some k" "keyboard_wf k"
      "pending k = take 255 (pending fresh_keyboard @ snd (decode (modifiers fresh_keyboard) 0x1E))"
    using process_scancode_spec [OF fresh_keyboard_simps(1)] by blast
  have d: "decode (False, False) 0x1E = ((False, False), [keyboard_event_char 97])" by code_simp
  then have p: "pending k \<noteq> []" "hd (pending k) = keyboard_event_char 97" using k(3) by (simp_all add: fresh_keyboard_simps)
  have h: "keyboard_has_input k" using p(1) kq.nonempty_items [OF k(2)] by simp
  have f: "keyboard_fetch k = Some (keyboard_event_char 97)"
    using kq.deq_law [OF k(2) p(1)] p(2) by (auto simp: keyboard_take_steps Option.bind_eq_Some_conv)
  have "kq_step (fresh_keyboard, None, (False, False), [], []) (k, None, (False, False), [], [keyboard_event_char 97])"
    using kq_step.irq [OF k(1), of None "(False, False)" "[]" "[]"] d by (simp add: admitted_def)
  then have run: "kq_step\<^sup>*\<^sup>* (fresh_keyboard, None, (False, False), [], [])
      (keyboard_advance k, None, (False, False), [] @ [keyboard_event_char 97], [keyboard_event_char 97])"
    using kq_step.fetch [OF h f, of "(False, False)" "[]"] kq_step.advance
    by (meson r_into_rtranclp rtranclp.rtrancl_into_rtrancl)
  from keyboard_queue_fifo [OF this] this show ?thesis by (intro exI [of _ "keyboard_advance k"]) simp
qed

end
