(* ===== verification/Descriptors.thy ===== *)
theory Descriptors
  imports Prelude
begin

text \<open>
  The descriptor tables of the processor: \<open>src/idt.c\<close> (interrupt gates) and \<open>src/gdt.c\<close> (segments
  and the task state segment).  The packed structures are records; \<open>bytes\<close> functions give their
  layout in memory, and the properties read those bytes back the way the processor does.  The
  addresses of the static tables are parameters, since the linker chooses them.  The assembly
  routines that load a table register store their operand.
\<close>

section \<open>The interrupt descriptor table (idt.c)\<close>

abbreviation (input) IDT_ENTRIES :: nat where "IDT_ENTRIES \<equiv> 256"

record idt_entry =
  offset_low :: u16
  selector :: u16
  ist :: u8
  type_attr :: u8
  offset_mid :: u16
  offset_high :: u32
  zero_field :: u32

record idt_ptr =
  idt_limit :: u16
  idt_base :: u64

text \<open>The statics of \<open>idt.c\<close>, and the register that \<open>lidt\<close> loads.\<close>

record idt_state =
  idt :: "idt_entry list"
  idtp :: idt_ptr
  idtr :: idt_ptr

definition sizeof_idt_entry :: nat where "sizeof_idt_entry = 16"

definition idt_set_gate :: "u8 \<Rightarrow> u64 \<Rightarrow> u16 \<Rightarrow> u8 \<Rightarrow> idt_state \<Rightarrow> idt_state option" where
  "idt_set_gate num handler sel flags s =
     do { t \<leftarrow> wr (idt s) (unat num)
            \<lparr>offset_low = ucast (handler AND 0xFFFF), selector = sel, ist = 0, type_attr = flags,
             offset_mid = ucast (drop_bit 16 handler AND 0xFFFF),
             offset_high = ucast (drop_bit 32 handler AND 0xFFFFFFFF), zero_field = 0\<rparr>;
          Some (s\<lparr>idt := t\<rparr>) }"

definition null_gate :: idt_entry where
  "null_gate = \<lparr>offset_low = 0, selector = 0, ist = 0, type_attr = 0, offset_mid = 0, offset_high = 0, zero_field = 0\<rparr>"

definition idt_init :: "u64 \<Rightarrow> idt_state \<Rightarrow> idt_state option" where
  "idt_init idt_addr s =
     do { let s1 = s\<lparr>idtp := \<lparr>idt_limit = of_nat (sizeof_idt_entry * IDT_ENTRIES) - 1, idt_base = idt_addr\<rparr>\<rparr>;
          for_range 0 IDT_ENTRIES (\<lambda>i s. do { t \<leftarrow> wr (idt s) i null_gate; Some (s\<lparr>idt := t\<rparr>) }) s1 }"

definition idt_load_current :: "idt_state \<Rightarrow> idt_state" where
  "idt_load_current s = s\<lparr>idtr := idtp s\<rparr>"

section \<open>The global descriptor table (gdt.c)\<close>

record gdt64_entry =
  limit_low :: u16
  base_low :: u16
  base_mid :: u8
  access :: u8
  granularity :: u8
  base_high :: u8

record tss_entry =
  reserved0 :: u32
  rsp0 :: u64
  rsp1 :: u64
  rsp2 :: u64
  reserved1 :: u64
  ist1 :: u64
  ist2 :: u64
  ist3 :: u64
  ist4 :: u64
  ist5 :: u64
  ist6 :: u64
  ist7 :: u64
  reserved2 :: u64
  reserved3 :: u16
  iomap_base :: u16

record gdt_ptr =
  gdt_limit :: u16
  gdt_base :: u64

text \<open>A \<open>tss_descriptor\<close> starts with the fields of a \<open>gdt64_entry\<close>.\<close>

record tss_descriptor = gdt64_entry +
  base_upper :: u32
  tss_reserved :: u32

record gdt_struct =
  null_seg :: gdt64_entry
  code_seg :: gdt64_entry
  data_seg :: gdt64_entry
  tss_seg :: tss_descriptor

record gdt_state =
  gdt :: gdt_struct
  tss :: tss_entry
  gdtr :: gdt_ptr
  task_register :: u16

definition zero_segment :: gdt64_entry where
  "zero_segment = \<lparr>limit_low = 0, base_low = 0, base_mid = 0, access = 0, granularity = 0, base_high = 0\<rparr>"

definition zero_tss_descriptor :: tss_descriptor where
  "zero_tss_descriptor =
     \<lparr>limit_low = 0, base_low = 0, base_mid = 0, access = 0, granularity = 0, base_high = 0, base_upper = 0, tss_reserved = 0\<rparr>"

definition zero_tss :: tss_entry where
  "zero_tss = \<lparr>reserved0 = 0, rsp0 = 0, rsp1 = 0, rsp2 = 0, reserved1 = 0,
     ist1 = 0, ist2 = 0, ist3 = 0, ist4 = 0, ist5 = 0, ist6 = 0, ist7 = 0, reserved2 = 0,
     reserved3 = 0, iomap_base = 0\<rparr>"

definition sizeof_tss :: u32 where "sizeof_tss = 104"
definition sizeof_gdt :: u16 where "sizeof_gdt = 40"

definition gdt_init :: "u64 \<Rightarrow> u64 \<Rightarrow> gdt_state \<Rightarrow> gdt_state" where
  "gdt_init gdt_addr tss_addr s =
     (let limit = sizeof_tss - 1; bas = tss_addr;
          code = zero_segment\<lparr>access := 0x9A, granularity := 0x20\<rparr>;
          data = zero_segment\<lparr>access := 0x92\<rparr>;
          desc = zero_tss_descriptor
            \<lparr>limit_low := ucast (limit AND 0xFFFF), base_low := ucast (bas AND 0xFFFF),
             base_mid := ucast (drop_bit 16 bas AND 0xFF), access := 0x89,
             granularity := ucast (drop_bit 16 limit AND 0x0F), base_high := ucast (drop_bit 24 bas AND 0xFF),
             base_upper := ucast (drop_bit 32 bas AND 0xFFFFFFFF)\<rparr>
      in s\<lparr>gdt := \<lparr>null_seg = zero_segment, code_seg = code, data_seg = data, tss_seg = desc\<rparr>, tss := zero_tss,
           gdtr := \<lparr>gdt_limit = sizeof_gdt - 1, gdt_base = gdt_addr\<rparr>, task_register := 0x18\<rparr>)"


section \<open>Layout in memory\<close>

definition gate_bytes :: "idt_entry \<Rightarrow> u8 list" where
  "gate_bytes e = le 2 (offset_low e) @ le 2 (selector e) @ [ist e, type_attr e] @ le 2 (offset_mid e) @
     le 4 (offset_high e) @ le 4 (zero_field e)"

definition idt_bytes :: "idt_state \<Rightarrow> u8 list" where
  "idt_bytes s = concat (map gate_bytes (idt s))"

definition segment_bytes :: "('z) gdt64_entry_scheme \<Rightarrow> u8 list" where
  "segment_bytes e = le 2 (limit_low e) @ le 2 (base_low e) @ [base_mid e, access e, granularity e, base_high e]"

definition gdt_bytes :: "gdt_state \<Rightarrow> u8 list" where
  "gdt_bytes s = segment_bytes (null_seg (gdt s)) @ segment_bytes (code_seg (gdt s)) @ segment_bytes (data_seg (gdt s)) @
     segment_bytes (tss_seg (gdt s)) @ le 4 (base_upper (tss_seg (gdt s))) @ le 4 (tss_reserved (tss_seg (gdt s)))"

definition tss_bytes :: "tss_entry \<Rightarrow> u8 list" where
  "tss_bytes t = le 4 (reserved0 t) @ le 8 (rsp0 t) @ le 8 (rsp1 t) @ le 8 (rsp2 t) @ le 8 (reserved1 t) @
     le 8 (ist1 t) @ le 8 (ist2 t) @ le 8 (ist3 t) @ le 8 (ist4 t) @ le 8 (ist5 t) @ le 8 (ist6 t) @ le 8 (ist7 t) @
     le 8 (reserved2 t) @ le 2 (reserved3 t) @ le 2 (iomap_base t)"

lemma length_gate_bytes [simp]: "length (gate_bytes e) = sizeof_idt_entry"
  by (simp add: gate_bytes_def sizeof_idt_entry_def)

lemma length_gdt_bytes: "length (gdt_bytes s) = unat sizeof_gdt"
  by (simp add: gdt_bytes_def segment_bytes_def sizeof_gdt_def)

lemma length_tss_bytes: "length (tss_bytes t) = unat sizeof_tss"
  by (simp add: tss_bytes_def sizeof_tss_def)

section \<open>How the processor reads the tables\<close>

text \<open>The field at byte offset \<open>i\<close> of width \<open>n\<close>.\<close>

definition field :: "nat \<Rightarrow> nat \<Rightarrow> u8 list \<Rightarrow> nat" where
  "field i n bs = of_le (take n (drop i bs))"

record hw_gate =
  hw_offset :: nat
  hw_selector :: nat
  hw_ist :: nat
  hw_type :: nat

definition read_gate :: "u8 list \<Rightarrow> nat \<Rightarrow> hw_gate" where
  "read_gate bs vector =
     (let g = drop (16 * vector) bs in
      \<lparr>hw_offset = field 0 2 g + 2 ^ 16 * field 6 2 g + 2 ^ 32 * field 8 4 g,
       hw_selector = field 2 2 g, hw_ist = field 4 1 g mod 8, hw_type = field 5 1 g\<rparr>)"

definition present :: "hw_gate \<Rightarrow> bool" where
  "present g \<longleftrightarrow> 128 \<le> hw_type g"

definition seg_access :: "u8 list \<Rightarrow> nat \<Rightarrow> nat" where
  "seg_access bs sel = field 5 1 (drop sel bs)"

definition seg_flags :: "u8 list \<Rightarrow> nat \<Rightarrow> nat" where
  "seg_flags bs sel = field 6 1 (drop sel bs) div 16"

definition seg_limit :: "u8 list \<Rightarrow> nat \<Rightarrow> nat" where
  "seg_limit bs sel = field 0 2 (drop sel bs) + 2 ^ 16 * (field 6 1 (drop sel bs) mod 16)"

definition tss_base :: "u8 list \<Rightarrow> nat \<Rightarrow> nat" where
  "tss_base bs sel = field 2 3 (drop sel bs) + 2 ^ 24 * field 7 1 (drop sel bs) + 2 ^ 32 * field 8 4 (drop sel bs)"

section \<open>Encoding and decoding\<close>

lemma take_le_append [simp]: "take n (le n w @ xs) = le n w" "drop n (le n w @ xs) = xs"
  by simp_all

lemma ucast_field:
  fixes h :: u64
  assumes "n \<le> LENGTH('b::len)"
  shows "unat (ucast (drop_bit k h AND mask n) :: 'b word) = unat h div 2 ^ k mod 2 ^ n"
proof -
  have "unat (ucast (drop_bit k h AND mask n) :: 'b word) = take_bit LENGTH('b) (unat (drop_bit k h AND mask n))"
    by (rule unsigned_ucast_eq)
  also have "\<dots> = unat h div 2 ^ k mod 2 ^ n mod 2 ^ LENGTH('b)"
    unfolding unat_and_mask unat_drop_bit_eq by (simp add: take_bit_eq_mod drop_bit_eq_div)
  also have "\<dots> = unat h div 2 ^ k mod 2 ^ n" using assms by (simp add: mod_exp_eq min_absorb2)
  finally show ?thesis .
qed

lemma ucast_parts:
  fixes h :: u64
  shows "unat (ucast (h AND 0xFFFF) :: u16) = unat h mod 2 ^ 16"
    and "unat (ucast (drop_bit 16 h AND 0xFFFF) :: u16) = unat h div 2 ^ 16 mod 2 ^ 16"
    and "unat (ucast (drop_bit 32 h AND 0xFFFFFFFF) :: u32) = unat h div 2 ^ 32"
    and "unat (ucast (drop_bit 16 h AND 0xFF) :: u8) = unat h div 2 ^ 16 mod 2 ^ 8"
    and "unat (ucast (drop_bit 24 h AND 0xFF) :: u8) = unat h div 2 ^ 24 mod 2 ^ 8"
proof -
  have m: "(0xFFFF :: u64) = mask 16" "(0xFFFFFFFF :: u64) = mask 32" "(0xFF :: u64) = mask 8" by (simp_all add: mask_numeral)
  have "unat h div 2 ^ 32 < 2 ^ 32" using unat_lt64 [of h] by (simp add: div_less_iff_less_mult)
  then show "unat (ucast (drop_bit 32 h AND 0xFFFFFFFF) :: u32) = unat h div 2 ^ 32"
    unfolding m by (subst ucast_field) simp_all
  show "unat (ucast (h AND 0xFFFF) :: u16) = unat h mod 2 ^ 16"
    using ucast_field [of 16 0 h, where 'b = 16] unfolding m by simp
  show "unat (ucast (drop_bit 16 h AND 0xFFFF) :: u16) = unat h div 2 ^ 16 mod 2 ^ 16"
    unfolding m by (rule ucast_field) simp
  show "unat (ucast (drop_bit 16 h AND 0xFF) :: u8) = unat h div 2 ^ 16 mod 2 ^ 8"
    unfolding m by (rule ucast_field) simp
  show "unat (ucast (drop_bit 24 h AND 0xFF) :: u8) = unat h div 2 ^ 24 mod 2 ^ 8"
    unfolding m by (rule ucast_field) simp
qed

lemma join_halves:
  "(n :: nat) mod 2 ^ 16 + 2 ^ 16 * (n div 2 ^ 16 mod 2 ^ 16) + 2 ^ 32 * (n div 2 ^ 32) = n"
proof -
  have "n mod 2 ^ 32 = n mod 2 ^ 16 + 2 ^ 16 * (n div 2 ^ 16 mod 2 ^ 16)"
    using mod_mult2_eq [of n "2 ^ 16" "2 ^ 16"] by simp
  then show ?thesis using div_mult_mod_eq [of n "2 ^ 32"] by (simp add: mult.commute)
qed

lemma join_base:
  "(n :: nat) mod 2 ^ 16 + 2 ^ 16 * (n div 2 ^ 16 mod 2 ^ 8) + 2 ^ 24 * (n div 2 ^ 24 mod 2 ^ 8) + 2 ^ 32 * (n div 2 ^ 32) = n"
proof -
  have "n div 2 ^ 16 mod 2 ^ 16 = n div 2 ^ 16 mod 2 ^ 8 + 2 ^ 8 * (n div 2 ^ 24 mod 2 ^ 8)"
    using mod_mult2_eq [of "n div 2 ^ 16" "2 ^ 8" "2 ^ 8"] by (simp add: div_mult2_eq [symmetric])
  then show ?thesis using join_halves [of n] by simp
qed

lemma gate_fields:
  "read_gate (gate_bytes e @ bs) 0 =
     \<lparr>hw_offset = unat (offset_low e) + 2 ^ 16 * unat (offset_mid e) + 2 ^ 32 * unat (offset_high e),
      hw_selector = unat (selector e), hw_ist = unat (ist e) mod 8, hw_type = unat (type_attr e)\<rparr>"
  by (simp add: read_gate_def field_def gate_bytes_def of_le_words Let_def)

lemma read_gate_nth:
  assumes "i < length (idt s)"
  shows "read_gate (idt_bytes s) i = read_gate (gate_bytes (idt s ! i)) 0"
proof -
  have g: "take 16 (drop (16 * i) (idt_bytes s)) = gate_bytes (idt s ! i)"
    using concat_uniform_nth [of "idt s" gate_bytes 16 i] assms by (simp add: idt_bytes_def sizeof_idt_entry_def)
  obtain r where r: "drop (16 * i) (idt_bytes s) = gate_bytes (idt s ! i) @ r"
    unfolding g [symmetric] by (metis append_take_drop_id)
  have "read_gate (idt_bytes s) i = read_gate (drop (16 * i) (idt_bytes s)) 0" by (simp add: read_gate_def)
  then show ?thesis unfolding r using gate_fields [of "idt s ! i" r] gate_fields [of "idt s ! i" "[]"] by simp
qed

definition gate_for :: "u64 \<Rightarrow> u16 \<Rightarrow> u8 \<Rightarrow> hw_gate" where
  "gate_for handler sel flags =
     \<lparr>hw_offset = unat handler, hw_selector = unat sel, hw_ist = 0, hw_type = unat flags\<rparr>"

lemma idt_set_gate_spec:
  assumes "length (idt s) = 256"
  shows "\<exists>t. idt_set_gate num handler sel flags s = Some (s\<lparr>idt := t\<rparr>) \<and> length t = 256 \<and>
    read_gate (idt_bytes (s\<lparr>idt := t\<rparr>)) (unat num) = gate_for handler sel flags \<and>
    (\<forall>v < 256. v \<noteq> unat num \<longrightarrow> read_gate (idt_bytes (s\<lparr>idt := t\<rparr>)) v = read_gate (idt_bytes s) v)"
proof -
  have n: "unat num < length (idt s)" using unsigned_less [of num, where 'a = nat] assms by simp
  let ?e = "\<lparr>offset_low = ucast (handler AND 0xFFFF), selector = sel, ist = 0, type_attr = flags,
             offset_mid = ucast (drop_bit 16 handler AND 0xFFFF),
             offset_high = ucast (drop_bit 32 handler AND 0xFFFFFFFF), zero_field = 0\<rparr>"
  let ?t = "(idt s)[unat num := ?e]"
  have "read_gate (gate_bytes ?e) 0 = gate_for handler sel flags"
  proof -
    have off: "unat (ucast (handler AND 0xFFFF) :: u16) + 2 ^ 16 * unat (ucast (drop_bit 16 handler AND 0xFFFF) :: u16) +
        2 ^ 32 * unat (ucast (drop_bit 32 handler AND 0xFFFFFFFF) :: u32) = unat handler"
      unfolding ucast_parts(2,3) unfolding ucast_parts(1) by (rule join_halves)
    show ?thesis
      using gate_fields [of ?e "[]"] unfolding idt_entry.select_convs off append_Nil2 gate_for_def by simp
  qed
  then have "read_gate (idt_bytes (s\<lparr>idt := ?t\<rparr>)) (unat num) = gate_for handler sel flags"
    using read_gate_nth [of "unat num" "s\<lparr>idt := ?t\<rparr>"] n by simp
  moreover have "read_gate (idt_bytes (s\<lparr>idt := ?t\<rparr>)) v = read_gate (idt_bytes s) v" if "v < 256" "v \<noteq> unat num" for v
    using read_gate_nth [of v "s\<lparr>idt := ?t\<rparr>"] read_gate_nth [of v s] that assms by simp
  ultimately show ?thesis using n assms by (intro exI [of _ ?t]) (simp add: idt_set_gate_def)
qed

lemma idt_init_spec:
  assumes "length (idt s) = 256"
  shows "idt_init a s = Some (s\<lparr>idt := replicate 256 null_gate, idtp := \<lparr>idt_limit = 4095, idt_base = a\<rparr>\<rparr>)"
proof -
  let ?s1 = "s\<lparr>idtp := \<lparr>idt_limit = of_nat (sizeof_idt_entry * IDT_ENTRIES) - 1, idt_base = a\<rparr>\<rparr>"
  let ?f = "\<lambda>i s. do { t \<leftarrow> wr (idt s) i null_gate; Some (s\<lparr>idt := t\<rparr>) }"
  let ?I = "\<lambda>i r. r = ?s1\<lparr>idt := replicate i null_gate @ drop i (idt s)\<rparr>"
  have "\<exists>r. for_range 0 256 ?f ?s1 = Some r \<and> ?I 256 r"
  proof (rule for_range_invariant [where I = ?I])
    fix j r assume "j < (256::nat)" and r: "?I j r"
    moreover then have "(replicate j null_gate @ drop j (idt s))[j := null_gate] = replicate (Suc j) null_gate @ drop (Suc j) (idt s)"
      using assms by (simp add: list_update_append replicate_append_same [symmetric] Cons_nth_drop_Suc [symmetric])
    ultimately show "\<exists>s'. ?f j r = Some s' \<and> ?I (Suc j) s'" using assms by simp
  qed simp_all
  then show ?thesis using assms by (simp add: idt_init_def sizeof_idt_entry_def)
qed

section \<open>Properties\<close>

definition example_idt :: idt_state where
  "example_idt = \<lparr>idt = replicate 256 null_gate, idtp = \<lparr>idt_limit = 0, idt_base = 0\<rparr>, idtr = \<lparr>idt_limit = 0, idt_base = 0\<rparr>\<rparr>"

text \<open>An interrupt gate that \<open>idt_set_gate\<close> writes is read back by the processor, from the 16
  bytes of its vector, as exactly the given handler, selector and type without a separate stack;
  the other 255 gates are as before.\<close>

lemma idt_gate_roundtrip:
  assumes "length (idt s) = 256"
  shows "\<exists>t. idt_set_gate num handler sel flags s = Some (s\<lparr>idt := t\<rparr>) \<and> length t = 256 \<and>
    read_gate (idt_bytes (s\<lparr>idt := t\<rparr>)) (unat num) = gate_for handler sel flags \<and>
    (\<forall>v < 256. v \<noteq> unat num \<longrightarrow> read_gate (idt_bytes (s\<lparr>idt := t\<rparr>)) v = read_gate (idt_bytes s) v)"
  by (rule idt_set_gate_spec [OF assms])

text \<open>The table that \<open>gdt_init\<close> builds is 40 bytes, the register holds its address and limit, and
  the processor finds at 0x08 a present 64-bit code segment, at 0x10 a present writable data segment
  and at 0x18, where the task register points, an available task state segment with the address and
  the size of the static one.\<close>

lemma gdt_init_correct:
  "let g = gdt_init gdt_addr tss_addr s; bs = gdt_bytes g in
     length bs = 40 \<and> gdtr g = \<lparr>gdt_limit = 39, gdt_base = gdt_addr\<rparr> \<and> of_le (take 8 bs) = 0 \<and>
     seg_access bs 0x08 = 0x9A \<and> seg_flags bs 0x08 = 2 \<and> seg_access bs 0x10 = 0x92 \<and>
     task_register g = 0x18 \<and> seg_access bs 0x18 = 0x89 \<and> tss_base bs 0x18 = unat tss_addr \<and>
     seg_limit bs 0x18 = length (tss_bytes (tss g)) - 1"
proof -
  let ?g = "gdt_init gdt_addr tss_addr s" and ?d = "tss_seg (gdt (gdt_init gdt_addr tss_addr s))"
  let ?z = "segment_bytes zero_segment" and ?c = "segment_bytes (code_seg (gdt ?g))" and ?e = "segment_bytes (data_seg (gdt ?g))"
  let ?t = "segment_bytes ?d @ le 4 (base_upper ?d) @ le 4 (tss_reserved ?d)"
  have bs: "gdt_bytes ?g = ?z @ ?c @ ?e @ ?t" by (simp add: gdt_bytes_def gdt_init_def Let_def)
  have len: "length ?z = 8" "length ?c = 8" "length ?e = 8" by (simp_all add: segment_bytes_def)
  have at: "drop 8 (gdt_bytes ?g) = ?c @ ?e @ ?t" "drop 16 (gdt_bytes ?g) = ?e @ ?t" "drop 24 (gdt_bytes ?g) = ?t"
    unfolding bs using len by simp_all
  have null: "of_le (take 8 (gdt_bytes ?g)) = 0"
    unfolding bs by (simp add: segment_bytes_def zero_segment_def of_le_append of_le_words)
  have code: "seg_access (gdt_bytes ?g) 8 = 0x9A" "seg_flags (gdt_bytes ?g) 8 = 2"
    unfolding seg_access_def seg_flags_def at
    by (simp_all add: field_def segment_bytes_def gdt_init_def zero_segment_def Let_def)
  have data: "seg_access (gdt_bytes ?g) 16 = 0x92"
    unfolding seg_access_def at
    by (simp add: field_def segment_bytes_def gdt_init_def zero_segment_def Let_def)
  have ty: "access ?d = 0x89" "granularity ?d = 0" "limit_low ?d = 103"
    by (simp_all add: gdt_init_def Let_def sizeof_tss_def)
  have t3: "take 3 (drop 2 (segment_bytes ?d @ xs)) = le 2 (base_low ?d) @ [base_mid ?d]" for xs
    by (simp add: segment_bytes_def)
  have lim: "seg_access (gdt_bytes ?g) 24 = 0x89" "seg_limit (gdt_bytes ?g) 24 = 103"
    unfolding seg_access_def seg_limit_def at field_def
    by (simp_all add: segment_bytes_def ty of_le_words)
  have parts: "unat (base_low ?d) = unat tss_addr mod 2 ^ 16"
    "unat (base_mid ?d) = unat tss_addr div 2 ^ 16 mod 2 ^ 8"
    "unat (base_high ?d) = unat tss_addr div 2 ^ 24 mod 2 ^ 8"
    "unat (base_upper ?d) = unat tss_addr div 2 ^ 32"
    unfolding ucast_parts [symmetric] by (simp_all add: gdt_init_def Let_def)
  have "tss_base (gdt_bytes ?g) 24 = unat (base_low ?d) + 2 ^ 16 * unat (base_mid ?d) + 2 ^ 24 * unat (base_high ?d) +
      2 ^ 32 * unat (base_upper ?d)"
    unfolding tss_base_def at field_def t3
    by (simp add: segment_bytes_def of_le_words of_le_append)
  also have "\<dots> = unat tss_addr" unfolding parts by (rule join_base)
  finally have base: "tss_base (gdt_bytes ?g) 24 = unat tss_addr" .
  have "length (gdt_bytes ?g) = 40" using length_gdt_bytes [of ?g] by (simp add: sizeof_gdt_def)
  moreover have "length (tss_bytes (tss ?g)) - 1 = 103" using length_tss_bytes [of "tss ?g"] by (simp add: sizeof_tss_def)
  moreover have "gdtr ?g = \<lparr>gdt_limit = 39, gdt_base = gdt_addr\<rparr>" "task_register ?g = 0x18"
    by (simp_all add: gdt_init_def Let_def sizeof_gdt_def)
  ultimately show ?thesis using null code data lim base by (simp add: Let_def)
qed


end
