(* ===== verification/Machine.thy ===== *)
theory Machine
  imports Output Keyboard Descriptors
begin

text \<open>
  The running machine: \<open>src/system.c\<close>, \<open>src/panic.c\<close>, \<open>src/trap.c\<close>, \<open>src/input.c\<close>, and the parts of
  \<open>src/keyboard.c\<close> that wait.  The state adds the keyboard, the timer, the descriptor tables and the
  interrupt flag to the console.  The environment is a parameter: the ports, the interrupts that
  arrive while the processor is halted, and the page fault address register.

  An operation returns, or it stops the processor for good: the result is an \<open>outcome\<close>, or \<open>None\<close>
  for a busy loop that never ends.  Interrupts may come anywhere while they are enabled.  Their handlers
  share only the keyboard ring and the tick counter with the code they interrupt, so they are taken where
  the code looks at these: when it halts, between the test of a waiting loop and the halt, and before the
  deadline of a sleep is computed (\<open>catch_up\<close>; how many there are, the environment says).  The ring is safe
  under any interleaving (\<open>keyboard_queue_fifo\<close>).
\<close>

section \<open>State and environment\<close>

record trap_frame =
  f_r15 :: u64
  f_r14 :: u64
  f_r13 :: u64
  f_r12 :: u64
  f_r11 :: u64
  f_r10 :: u64
  f_r9 :: u64
  f_r8 :: u64
  f_rbp :: u64
  f_rdi :: u64
  f_rsi :: u64
  f_rdx :: u64
  f_rcx :: u64
  f_rbx :: u64
  f_rax :: u64
  f_vector :: u64
  f_error_code :: u64
  f_rip :: u64
  f_cs :: u64
  f_rflags :: u64

record 'd machine = "'d con" +
  kbd :: keyboard
  timer_ticks :: u64
  idt_st :: idt_state
  interrupts :: bool

record 'd env =
  io :: "'d ports"
  next_irq :: "'d \<Rightarrow> (trap_frame \<times> 'd) option"
  irq_burst :: "'d \<Rightarrow> nat"
  read_cr2 :: "'d \<Rightarrow> u64"

datatype ('a, 's) outcome = Returns 'a 's | Halts 's

primrec final_state :: "('a, 's) outcome \<Rightarrow> 's" where
  "final_state (Returns a s) = s"
| "final_state (Halts s) = s"

text \<open>Continue after an operation, when it returns.\<close>

definition and_then :: "('a, 's) outcome option \<Rightarrow> ('a \<Rightarrow> 's \<Rightarrow> ('b, 's) outcome option) \<Rightarrow> ('b, 's) outcome option" where
  "and_then m f = do { r \<leftarrow> m; case r of Returns a s \<Rightarrow> f a s | Halts s \<Rightarrow> Some (Halts s) }"

definition returns :: "'s option \<Rightarrow> (unit, 's) outcome option" where
  "returns m = do { s \<leftarrow> m; Some (Returns () s) }"

lemma and_then_simps [simp]:
  "and_then (Some (Returns a s)) f = f a s"
  "and_then (Some (Halts s)) f = Some (Halts s)"
  "and_then None f = None"
  by (simp_all add: and_then_def)

lemma returns_simps [simp]: "returns (Some s) = Some (Returns () s)" "returns None = None"
  by (simp_all add: returns_def)

section \<open>system.c\<close>

definition out8 :: "'d env \<Rightarrow> u16 \<Rightarrow> u8 \<Rightarrow> ('d, 'z) machine_scheme \<Rightarrow> ('d, 'z) machine_scheme" where
  "out8 E port v s = s\<lparr>dev := outb (io E) port v (dev s)\<rparr>"

definition cpu_cli :: "('d, 'z) machine_scheme \<Rightarrow> ('d, 'z) machine_scheme" where
  "cpu_cli s = s\<lparr>interrupts := False\<rparr>"

definition cpu_sti :: "('d, 'z) machine_scheme \<Rightarrow> ('d, 'z) machine_scheme" where
  "cpu_sti s = s\<lparr>interrupts := True\<rparr>"

text \<open>The loop of \<open>system_reboot\<close>: drain the keyboard controller until its input buffer is empty.\<close>

definition reboot_drain :: "'d ports \<Rightarrow> 'd \<Rightarrow> bool \<times> 'd" where
  "reboot_drain P d =
     (let (temp, d1) = inb P 0x64 d;
          d2 = (if temp AND 0x01 \<noteq> 0 then snd (inb P 0x60 d1) else d1)
      in (temp AND 0x02 = 0, d2))"

definition system_reboot :: "'d env \<Rightarrow> ('d, 'z) machine_scheme \<Rightarrow> ('a, ('d, 'z) machine_scheme) outcome option" where
  "system_reboot E s =
     do { let s1 = cpu_cli s;
          d \<leftarrow> poll (reboot_drain (io E)) (dev s1);
          Some (Halts (out8 E 0x64 0xFE (s1\<lparr>dev := d\<rparr>))) }"

definition system_halt :: "('d, 'z) machine_scheme \<Rightarrow> ('a, ('d, 'z) machine_scheme) outcome option" where
  "system_halt s = Some (Halts (cpu_cli s))"

definition system_timer_tick :: "('d, 'z) machine_scheme \<Rightarrow> ('d, 'z) machine_scheme" where
  "system_timer_tick s = s\<lparr>timer_ticks := timer_ticks s + 1\<rparr>"

definition system_init_timer :: "'d env \<Rightarrow> ('d, 'z) machine_scheme \<Rightarrow> ('d, 'z) machine_scheme" where
  "system_init_timer E s =
     (let divisor = 1193 :: u16;
          s1 = out8 E 0x43 0x36 s;
          s2 = out8 E 0x40 (ucast (divisor AND 0xFF)) s1;
          s3 = out8 E 0x40 (ucast (drop_bit 8 divisor AND 0xFF)) s2
      in s3\<lparr>timer_ticks := 0\<rparr>)"

definition system_get_uptime_ms :: "('d, 'z) machine_scheme \<Rightarrow> u64" where
  "system_get_uptime_ms s = timer_ticks s"

definition system_qemu_exit :: "'d env \<Rightarrow> u16 \<Rightarrow> ('d, 'z) machine_scheme \<Rightarrow> ('d, 'z) machine_scheme" where
  "system_qemu_exit E code s = out8 E 0xF4 (ucast code) s"

section \<open>panic.c\<close>

definition panic :: "'d env \<Rightarrow> u8 list \<Rightarrow> ('d, 'z) machine_scheme \<Rightarrow> ('a, ('d, 'z) machine_scheme) outcome option" where
  "panic E message s =
     do { s \<leftarrow> kprint_colored (io E) (lit ''\<newline>PANIC: '') VGA_COLOR_LIGHT_RED VGA_COLOR_BLACK s;
          s \<leftarrow> kprint (io E) message s;
          s \<leftarrow> kprint (io E) (lit ''\<newline>'') s;
          Some (Halts (cpu_cli (system_qemu_exit E 0x21 s))) }"

definition panicf :: "'d env \<Rightarrow> u8 list \<Rightarrow> u64 \<Rightarrow> ('d, 'z) machine_scheme \<Rightarrow> ('a, ('d, 'z) machine_scheme) outcome option" where
  "panicf E prefix value s =
     do { s \<leftarrow> kprint_colored (io E) (lit ''\<newline>PANIC: '') VGA_COLOR_LIGHT_RED VGA_COLOR_BLACK s;
          s \<leftarrow> kprint (io E) prefix s;
          s \<leftarrow> kprint_hex (io E) value s;
          s \<leftarrow> kprint (io E) (lit ''\<newline>'') s;
          Some (Halts (cpu_cli (system_qemu_exit E 0x21 s))) }"

section \<open>trap.c\<close>

definition exception_names :: "string list" where
  "exception_names =
     [''Divide Error'', ''Debug'', ''NMI'',
      ''Breakpoint'', ''Overflow'', ''Bound Range'',
      ''Invalid Opcode'', ''Device Not Available'', ''Double Fault'',
      ''Coprocessor Segment'', ''Invalid TSS'', ''Segment Not Present'',
      ''Stack Fault'', ''General Protection'', ''Page Fault'',
      ''Reserved'', ''x87 Floating Point'', ''Alignment Check'',
      ''Machine Check'', ''SIMD Floating Point'', ''Virtualization'',
      ''Control Protection'', ''Reserved'', ''Reserved'',
      ''Reserved'', ''Reserved'', ''Reserved'',
      ''Reserved'', ''Hypervisor Injection'', ''VMM Communication'',
      ''Security'', ''Reserved'']"

abbreviation (input) PIC1_COMMAND :: u16 where "PIC1_COMMAND \<equiv> 0x20"
abbreviation (input) PIC1_DATA :: u16 where "PIC1_DATA \<equiv> 0x21"
abbreviation (input) PIC2_COMMAND :: u16 where "PIC2_COMMAND \<equiv> 0xA0"
abbreviation (input) PIC2_DATA :: u16 where "PIC2_DATA \<equiv> 0xA1"

definition pic_remap :: "'d ports \<Rightarrow> 'd \<Rightarrow> 'd" where
  "pic_remap P d =
     outbs P [(PIC1_COMMAND, 0x11), (PIC2_COMMAND, 0x11), (PIC1_DATA, 0x20), (PIC2_DATA, 0x28), (PIC1_DATA, 0x04),
              (PIC2_DATA, 0x02), (PIC1_DATA, 0x01), (PIC2_DATA, 0x01), (PIC1_DATA, 0xF8), (PIC2_DATA, 0xFF)] d"

definition pic_send_eoi :: "'d ports \<Rightarrow> u8 \<Rightarrow> 'd \<Rightarrow> 'd" where
  "pic_send_eoi P irq d = outb P PIC1_COMMAND 0x20 (if irq \<ge> 8 then outb P PIC2_COMMAND 0x20 d else d)"

text \<open>\<open>stubs\<close> is the table of the assembly stubs, \<open>idt_addr\<close> the address of the static table.\<close>

definition trap_init ::
    "'d env \<Rightarrow> u64 list \<Rightarrow> u64 \<Rightarrow> ('d, 'z) machine_scheme \<Rightarrow> ('d, 'z) machine_scheme option" where
  "trap_init E stubs idt_addr s =
     do { t \<leftarrow> idt_init idt_addr (idt_st s);
          let d = pic_remap (io E) (dev s);
          t \<leftarrow> for_range 0 48 (\<lambda>v t. do { h \<leftarrow> rd stubs v; idt_set_gate (of_nat v) h 0x08 0x8E t }) t;
          Some (s\<lparr>dev := d, idt_st := idt_load_current t\<rparr>) }"

definition dump_frame :: "'d env \<Rightarrow> trap_frame \<Rightarrow> ('d, 'z) machine_scheme \<Rightarrow> ('d, 'z) machine_scheme option" where
  "dump_frame E frame s = (let P = io E in
     do { s \<leftarrow> kprint P (lit '' vector='') s;
          s \<leftarrow> kprint_u64 P (f_vector frame) s;
          s \<leftarrow> kprint P (lit '' err='') s;
          s \<leftarrow> kprint_hex P (f_error_code frame) s;
          s \<leftarrow> kprint P (lit '' rip='') s;
          s \<leftarrow> kprint_hex P (f_rip frame) s;
          s \<leftarrow> kprint P (lit '' cs='') s;
          s \<leftarrow> kprint_hex P (f_cs frame) s;
          s \<leftarrow> kprint P (lit '' rflags='') s;
          s \<leftarrow> kprint_hex P (f_rflags frame) s;
          s \<leftarrow> (if f_vector frame = 14
               then do { s \<leftarrow> kprint P (lit '' cr2='') s; kprint_hex P (read_cr2 E (dev s)) s }
               else Some s);
          s \<leftarrow> kprint P (lit ''\<newline> rax='') s;
          s \<leftarrow> kprint_hex P (f_rax frame) s;
          s \<leftarrow> kprint P (lit '' rbx='') s;
          s \<leftarrow> kprint_hex P (f_rbx frame) s;
          s \<leftarrow> kprint P (lit '' rcx='') s;
          s \<leftarrow> kprint_hex P (f_rcx frame) s;
          s \<leftarrow> kprint P (lit '' rdx='') s;
          s \<leftarrow> kprint_hex P (f_rdx frame) s;
          s \<leftarrow> kprint P (lit ''\<newline> rsi='') s;
          s \<leftarrow> kprint_hex P (f_rsi frame) s;
          s \<leftarrow> kprint P (lit '' rdi='') s;
          s \<leftarrow> kprint_hex P (f_rdi frame) s;
          s \<leftarrow> kprint P (lit '' rbp='') s;
          s \<leftarrow> kprint_hex P (f_rbp frame) s;
          s \<leftarrow> kprint P (lit ''\<newline> r8='') s;
          s \<leftarrow> kprint_hex P (f_r8 frame) s;
          s \<leftarrow> kprint P (lit '' r9='') s;
          s \<leftarrow> kprint_hex P (f_r9 frame) s;
          s \<leftarrow> kprint P (lit '' r10='') s;
          s \<leftarrow> kprint_hex P (f_r10 frame) s;
          s \<leftarrow> kprint P (lit '' r11='') s;
          s \<leftarrow> kprint_hex P (f_r11 frame) s;
          s \<leftarrow> kprint P (lit ''\<newline> r12='') s;
          s \<leftarrow> kprint_hex P (f_r12 frame) s;
          s \<leftarrow> kprint P (lit '' r13='') s;
          s \<leftarrow> kprint_hex P (f_r13 frame) s;
          s \<leftarrow> kprint P (lit '' r14='') s;
          s \<leftarrow> kprint_hex P (f_r14 frame) s;
          s \<leftarrow> kprint P (lit '' r15='') s;
          s \<leftarrow> kprint_hex P (f_r15 frame) s;
          kprint P (lit ''\<newline>'') s })"

definition trap_dispatch ::
    "'d env \<Rightarrow> trap_frame \<Rightarrow> ('d, 'z) machine_scheme \<Rightarrow> (unit, ('d, 'z) machine_scheme) outcome option" where
  "trap_dispatch E frame s =
     (if f_vector frame < 32 then
        do { s \<leftarrow> kprint_colored (io E) (lit ''\<newline>EXCEPTION: '') VGA_COLOR_LIGHT_RED VGA_COLOR_BLACK s;
             name \<leftarrow> rd exception_names (unat (f_vector frame));
             s \<leftarrow> kprint (io E) (lit name) s;
             s \<leftarrow> dump_frame E frame s;
             Some (Halts (cpu_cli (system_qemu_exit E 0x22 s))) }
      else if f_vector frame = 32 then
        let s1 = system_timer_tick s in
        Some (Returns () (s1\<lparr>dev := pic_send_eoi (io E) 0 (dev s1)\<rparr>))
      else if f_vector frame = 33 then
        do { (k, d) \<leftarrow> keyboard_handler (io E) (kbd s, dev s);
             Some (Returns () (s\<lparr>kbd := k, dev := pic_send_eoi (io E) 1 d\<rparr>)) }
      else if f_vector frame = 39 then
        Some (Returns () (s\<lparr>dev := pic_send_eoi (io E) 7 (dev s)\<rparr>))
      else panicf E (lit ''Unhandled IRQ vector '') (f_vector frame) s)"

section \<open>Halting\<close>

text \<open>An interrupt: its handler runs to its end with interrupts disabled; \<open>iretq\<close> restores the flag.\<close>

definition handle_irq ::
    "'d env \<Rightarrow> trap_frame \<Rightarrow> 'd \<Rightarrow> ('d, 'z) machine_scheme \<Rightarrow> (unit, ('d, 'z) machine_scheme) outcome option" where
  "handle_irq E frame d s =
     and_then (trap_dispatch E frame (s\<lparr>dev := d, interrupts := False\<rparr>)) (\<lambda>_ s'. Some (Returns () (s'\<lparr>interrupts := True\<rparr>)))"

text \<open>
  \<open>hlt\<close>: with interrupts enabled the processor sleeps until the next interrupt.  With interrupts disabled,
  or when no interrupt ever comes, the processor stays where it is.
\<close>

definition cpu_hlt :: "'d env \<Rightarrow> ('d, 'z) machine_scheme \<Rightarrow> (unit, ('d, 'z) machine_scheme) outcome option" where
  "cpu_hlt E s =
     (if \<not> interrupts s then Some (Halts s)
      else case next_irq E (dev s) of
        None \<Rightarrow> Some (Halts s)
      | Some (frame, d) \<Rightarrow> handle_irq E frame d s)"

text \<open>The interrupts that came while the code was running: \<open>irq_burst\<close> says how many.\<close>

primrec take_irqs :: "'d env \<Rightarrow> nat \<Rightarrow> ('d, 'z) machine_scheme \<Rightarrow> (unit, ('d, 'z) machine_scheme) outcome option" where
  "take_irqs E 0 s = Some (Returns () s)"
| "take_irqs E (Suc n) s =
     (case next_irq E (dev s) of
        None \<Rightarrow> Some (Returns () s)
      | Some (frame, d) \<Rightarrow> and_then (handle_irq E frame d s) (\<lambda>_ s. take_irqs E n s))"

definition catch_up :: "'d env \<Rightarrow> ('d, 'z) machine_scheme \<Rightarrow> (unit, ('d, 'z) machine_scheme) outcome option" where
  "catch_up E s = (if interrupts s then take_irqs E (irq_burst E (dev s)) s else Some (Returns () s))"

text \<open>A loop that tries something and halts between the attempts; interrupts may come between the two.\<close>

definition hlt_step ::
    "'d env \<Rightarrow> ('d, 'z) machine_scheme \<Rightarrow> (('a, ('d, 'z) machine_scheme) outcome option \<times> ('d, 'z) machine_scheme) option" where
  "hlt_step E s =
     do { r \<leftarrow> and_then (catch_up E s) (\<lambda>_ s. cpu_hlt E s);
          Some (case r of Returns _ s' \<Rightarrow> (None, s') | Halts s' \<Rightarrow> (Some (Halts s'), s')) }"

definition hlt_until ::
    "'d env \<Rightarrow> (('d, 'z) machine_scheme \<Rightarrow> bool) \<Rightarrow> ('d, 'z) machine_scheme \<Rightarrow> (unit, ('d, 'z) machine_scheme) outcome option" where
  "hlt_until E c s =
     do { (r, _) \<leftarrow> repeat_until (\<lambda>s. if c s then Some (Some (Returns () s), s) else hlt_step E s) s; Some r }"

definition system_sleep_ms ::
    "'d env \<Rightarrow> u64 \<Rightarrow> ('d, 'z) machine_scheme \<Rightarrow> (unit, ('d, 'z) machine_scheme) outcome option" where
  "system_sleep_ms E delay_ms s =
     and_then (catch_up E s) (\<lambda>_ s.
       let deadline = system_get_uptime_ms s + delay_ms in
       hlt_until E (\<lambda>s. \<not> system_get_uptime_ms s < deadline) s)"

section \<open>The waiting readers of keyboard.c\<close>

definition keyboard_getevent ::
    "'d env \<Rightarrow> ('d, 'z) machine_scheme \<Rightarrow> (input_event, ('d, 'z) machine_scheme) outcome option" where
  "keyboard_getevent E s =
     and_then (hlt_until E (\<lambda>s. keyboard_has_input (kbd s)) s)
       (\<lambda>_ s. do { (event, k) \<leftarrow> keyboard_take (kbd s); Some (Returns event (s\<lparr>kbd := k\<rparr>)) })"

text \<open>\<open>for (;;)\<close> until an event is a character, for both sources of events.\<close>

definition until_char ::
    "(('d, 'z) machine_scheme \<Rightarrow> (input_event, ('d, 'z) machine_scheme) outcome option) \<Rightarrow>
     ('d, 'z) machine_scheme \<Rightarrow> (u8, ('d, 'z) machine_scheme) outcome option" where
  "until_char getevent s =
     do { (r, _) \<leftarrow> repeat_until (\<lambda>s. do { r \<leftarrow> getevent s;
            Some (case r of Returns event s' \<Rightarrow>
                    (if ev_type event = INPUT_EVENT_CHAR then Some (Returns (ch event) s') else None, s')
                  | Halts s' \<Rightarrow> (Some (Halts s'), s')) }) s;
          Some r }"

definition keyboard_getchar :: "'d env \<Rightarrow> ('d, 'z) machine_scheme \<Rightarrow> (u8, ('d, 'z) machine_scheme) outcome option" where
  "keyboard_getchar E s = until_char (keyboard_getevent E) s"

text \<open>One iteration of \<open>keyboard_get_line\<close>: the buffer, the position, the machine.\<close>

definition get_line_step ::
    "'d env \<Rightarrow> u16 \<Rightarrow> u8 list \<times> u16 \<times> ('d, 'z) machine_scheme \<Rightarrow>
     ((u8 list, ('d, 'z) machine_scheme) outcome option \<times> u8 list \<times> u16 \<times> ('d, 'z) machine_scheme) option" where
  "get_line_step E max_len = (\<lambda>(buffer, pos, s).
     if int (unat pos) < int (unat max_len) - 1 then
       do { r \<leftarrow> keyboard_getchar E s;
            case r of
              Halts s' \<Rightarrow> Some (Some (Halts s'), buffer, pos, s')
            | Returns c s' \<Rightarrow>
                if c = 10 then do { b \<leftarrow> wr buffer (unat pos) 0; Some (Some (Returns b s'), b, pos, s') }
                else if c = 8 \<and> pos > 0 then Some (None, buffer, pos - 1, s')
                else if c \<noteq> 8 then do { b \<leftarrow> wr buffer (unat pos) c; Some (None, b, pos + 1, s') }
                else Some (None, buffer, pos, s') }
     else do { b \<leftarrow> wr buffer (unat pos) 0; Some (Some (Returns b s), b, pos, s) })"

definition keyboard_get_line ::
    "'d env \<Rightarrow> u8 list \<Rightarrow> u16 \<Rightarrow> ('d, 'z) machine_scheme \<Rightarrow> (u8 list, ('d, 'z) machine_scheme) outcome option" where
  "keyboard_get_line E buffer max_len s =
     do { (r, _) \<leftarrow> repeat_until (get_line_step E max_len) (buffer, 0, s); Some r }"

section \<open>input.c\<close>

definition input_event_char :: "u8 \<Rightarrow> input_event" where
  "input_event_char c = \<lparr>ev_type = INPUT_EVENT_CHAR, ch = c\<rparr>"

definition input_event_special :: "input_event_type \<Rightarrow> input_event" where
  "input_event_special t = \<lparr>ev_type = t, ch = 0\<rparr>"

definition input_read_serial_event ::
    "'d ports \<Rightarrow> ('d, 'z) con_scheme \<Rightarrow> (input_event \<times> ('d, 'z) con_scheme) option" where
  "input_read_serial_event P s =
     do { (c0, s) \<leftarrow> serial_read_char P s;
          let c = (if c0 = 13 then 10 else c0);
          if c \<noteq> 0x1B then Some (input_event_char c, s)
          else let (has, s) = serial_has_input P s in
            if \<not> has then Some (input_event_char c, s)
            else do {
              (c1, s) \<leftarrow> serial_read_char P s;
              if c1 \<noteq> 91 then Some (input_event_char c, s)
              else do {
                (c2, s) \<leftarrow> serial_read_char P s;
                Some (if c2 = 65 then input_event_special INPUT_EVENT_UP
                      else if c2 = 66 then input_event_special INPUT_EVENT_DOWN
                      else if c2 = 67 then input_event_special INPUT_EVENT_RIGHT
                      else if c2 = 68 then input_event_special INPUT_EVENT_LEFT
                      else input_event_char c, s) } } }"

definition input_step ::
    "'d env \<Rightarrow> ('d, 'z) machine_scheme \<Rightarrow>
     ((input_event, ('d, 'z) machine_scheme) outcome option \<times> ('d, 'z) machine_scheme) option" where
  "input_step E s =
     (let (has, s) = serial_has_input (io E) s in
      if has then do { (e, s) \<leftarrow> input_read_serial_event (io E) s; Some (Some (Returns e s), s) }
      else if keyboard_has_input (kbd s) then
        do { r \<leftarrow> keyboard_getevent E s; Some (Some r, s) }
      else hlt_step E s)"

definition input_getevent ::
    "'d env \<Rightarrow> ('d, 'z) machine_scheme \<Rightarrow> (input_event, ('d, 'z) machine_scheme) outcome option" where
  "input_getevent E s = do { (r, _) \<leftarrow> repeat_until (input_step E) s; Some r }"

definition input_getchar :: "'d env \<Rightarrow> ('d, 'z) machine_scheme \<Rightarrow> (u8, ('d, 'z) machine_scheme) outcome option" where
  "input_getchar E s = until_char (input_getevent E) s"

end
