(* ===== verification/Interrupts.thy ===== *)
theory Interrupts
  imports Machine
begin

text \<open>
  Exceptions, panics, interrupts and sleeping: what \<open>trap_dispatch\<close> does for every vector, that the
  gates lead to the stubs, and that waiting for the timer ends.
\<close>


section \<open>Exceptions and panics\<close>

text \<open>Ports whose writes leave what was sent alone, and a device that stays usable under them.\<close>

definition quiet_port :: "'d ports \<Rightarrow> ('d \<Rightarrow> u8 list) \<Rightarrow> ('d \<Rightarrow> bool) \<Rightarrow> u16 \<Rightarrow> bool" where
  "quiet_port P sent okd port \<longleftrightarrow> (\<forall>d c. okd d \<longrightarrow> okd (outb P port c d) \<and> sent (outb P port c d) = sent d)"

definition hex_text :: "u64 \<Rightarrow> u8 list" where
  "hex_text v = str ''0x'' @ digit_string 16 (unat v)"

definition labelled :: "(string \<times> u64) list \<Rightarrow> u8 list" where
  "labelled xs = concat (map (\<lambda>(l, v). str l @ hex_text v) xs)"

definition dump_text :: "trap_frame \<Rightarrow> u64 \<Rightarrow> u8 list" where
  "dump_text f cr2 =
     str '' vector='' @ digit_string 10 (unat (f_vector f)) @
     labelled [('' err='', f_error_code f), ('' rip='', f_rip f), ('' cs='', f_cs f), ('' rflags='', f_rflags f)] @
     (if f_vector f = 14 then labelled [('' cr2='', cr2)] else []) @
     labelled [(''\<newline> rax='', f_rax f), ('' rbx='', f_rbx f), ('' rcx='', f_rcx f), ('' rdx='', f_rdx f),
       (''\<newline> rsi='', f_rsi f), ('' rdi='', f_rdi f), ('' rbp='', f_rbp f),
       (''\<newline> r8='', f_r8 f), ('' r9='', f_r9 f), ('' r10='', f_r10 f), ('' r11='', f_r11 f),
       (''\<newline> r12='', f_r12 f), ('' r13='', f_r13 f), ('' r14='', f_r14 f), ('' r15='', f_r15 f)] @
     str ''\<newline>''"

lemma prints_as: "prints sent okd s0 f xs \<Longrightarrow> xs = ys \<Longrightarrow> prints sent okd s0 f ys"
  by simp

lemma prints_dump_frame:
  assumes "uart (io E) sent okd" and "\<And>d. read_cr2 E d = cr2"
  shows "prints sent okd s0 (dump_frame E f) (map Put (dump_text f cr2))"
  unfolding dump_frame_def Let_def assms(2)
  apply (rule prints_as)
  apply (rule script_rules assms(1) | (simp; fail))+
  apply (simp add: dump_text_def labelled_def hex_text_def if_distrib [of "map Put"])
  done

lemma nonzero_names: "list_all (list_all (\<lambda>c. c \<noteq> CHR 0x00)) exception_names"
  by (simp add: exception_names_def)

definition exception_text :: "trap_frame \<Rightarrow> u64 \<Rightarrow> u8 list" where
  "exception_text f cr2 = str ''\<newline>EXCEPTION: '' @ str (exception_names ! unat (f_vector f)) @ dump_text f cr2"

definition panic_text :: "u8 list \<Rightarrow> u8 list" where
  "panic_text message = str ''\<newline>PANIC: '' @ message @ str ''\<newline>''"

lemma con_ready_machine [simp]: "con_ready okd (s\<lparr>interrupts := b\<rparr>) \<longleftrightarrow> con_ready okd s"
  by (simp add: con_ready_def)

text \<open>The common end of exceptions and panics: what was printed, the exit code, and a stopped processor.\<close>

lemma print_and_stop:
  assumes "prints sent okd s f xs" and "con_ready okd s" and "quiet_port (io E) sent okd 0xF4"
  shows "\<exists>s'. do { s \<leftarrow> f s; Some (Halts (cpu_cli (system_qemu_exit E code s))) } = Some (Halts s') \<and> \<not> interrupts s' \<and>
    sent (dev s') = sent (dev s) @ crlf (put_bytes xs) \<and> (\<exists>d. dev s' = outb (io E) 0xF4 (ucast code) d)"
proof -
  obtain d v where d: "f s = Some (s\<lparr>con_vga := v, dev := d\<rparr>)" "con_ready okd (s\<lparr>con_vga := v, dev := d\<rparr>)"
      "sent d = sent (dev s) @ crlf (put_bytes xs)"
    using printsD [OF assms(1,2)] by blast
  have "okd d" using d(2) by (simp add: con_ready_def)
  then have "sent (outb (io E) 0xF4 (ucast code) d) = sent d" using assms(3) by (simp add: quiet_port_def)
  then show ?thesis using d by (auto simp: system_qemu_exit_def out8_def cpu_cli_def)
qed

lemma trap_exception:
  assumes "uart (io E) sent okd" and "quiet_port (io E) sent okd 0xF4" and "\<And>d. read_cr2 E d = cr2"
    and "con_ready okd s" and "f_vector f < 32"
  shows "\<exists>s'. trap_dispatch E f s = Some (Halts s') \<and> \<not> interrupts s' \<and>
    sent (dev s') = sent (dev s) @ crlf (exception_text f cr2) \<and> (\<exists>d. dev s' = outb (io E) 0xF4 0x22 d)"
proof -
  have "unat (f_vector f) < length exception_names" using assms(5) by (simp add: word_less_nat_alt exception_names_def)
  then have name: "rd exception_names (unat (f_vector f)) = Some (exception_names ! unat (f_vector f))"
    "list_all (\<lambda>c. c \<noteq> CHR 0x00) (exception_names ! unat (f_vector f))"
    using nonzero_names by (simp_all add: list_all_length)
  let ?g = "\<lambda>s. Option.bind (Option.bind (kprint_colored (io E) (lit ''\<newline>EXCEPTION: '') VGA_COLOR_LIGHT_RED VGA_COLOR_BLACK s)
      (kprint (io E) (lit (exception_names ! unat (f_vector f))))) (dump_frame E f)"
  have p: "prints sent okd s ?g ((coloured VGA_COLOR_LIGHT_RED VGA_COLOR_BLACK (str ''\<newline>EXCEPTION: '') @
      map Put (str (exception_names ! unat (f_vector f)))) @ map Put (dump_text f cr2))"
    by (intro prints_bind prints_colored_lit prints_lit prints_dump_frame assms name) simp
  have "trap_dispatch E f s = do { s \<leftarrow> ?g s; Some (Halts (cpu_cli (system_qemu_exit E 0x22 s))) }"
    using assms(5) by (simp add: trap_dispatch_def name)
  then show ?thesis
    using print_and_stop [OF p assms(4,2), of "0x22"] by (simp add: exception_text_def)
qed

lemma panicf_spec:
  assumes "uart (io E) sent okd" and "quiet_port (io E) sent okd 0xF4" and "con_ready okd s"
    and "list_all (\<lambda>c. c \<noteq> CHR 0x00) t"
  shows "\<exists>s'. panicf E (lit t) x s = Some (Halts s') \<and> \<not> interrupts s' \<and>
    sent (dev s') = sent (dev s) @ crlf (panic_text (str t @ hex_text x)) \<and> (\<exists>d. dev s' = outb (io E) 0xF4 0x21 d)"
proof -
  let ?g = "\<lambda>s. Option.bind (Option.bind (Option.bind (kprint_colored (io E) (lit ''\<newline>PANIC: '') VGA_COLOR_LIGHT_RED VGA_COLOR_BLACK s)
      (kprint (io E) (lit t))) (kprint_hex (io E) x)) (kprint (io E) (lit ''\<newline>''))"
  have p: "prints sent okd s ?g (((coloured VGA_COLOR_LIGHT_RED VGA_COLOR_BLACK (str ''\<newline>PANIC: '') @ map Put (str t)) @
      map Put (str ''0x'' @ digit_string 16 (unat x))) @ map Put (str ''\<newline>''))"
    by (intro prints_bind prints_colored_lit prints_lit prints_numbers assms) simp_all
  then show ?thesis
    using print_and_stop [OF p assms(3,2), of "0x21"] by (simp add: panicf_def panic_text_def hex_text_def)
qed

lemma panic_spec:
  assumes "uart (io E) sent okd" and "quiet_port (io E) sent okd 0xF4" and "con_ready okd s" and "0 \<in> set message"
  shows "\<exists>s'. panic E message s = Some (Halts s') \<and> \<not> interrupts s' \<and>
    sent (dev s') = sent (dev s) @ crlf (panic_text (cstr message)) \<and> (\<exists>d. dev s' = outb (io E) 0xF4 0x21 d)"
proof -
  let ?g = "\<lambda>s. Option.bind (Option.bind (kprint_colored (io E) (lit ''\<newline>PANIC: '') VGA_COLOR_LIGHT_RED VGA_COLOR_BLACK s)
      (kprint (io E) message)) (kprint (io E) (lit ''\<newline>''))"
  have p: "prints sent okd s ?g ((coloured VGA_COLOR_LIGHT_RED VGA_COLOR_BLACK (str ''\<newline>PANIC: '') @ map Put (cstr message)) @
      map Put (str ''\<newline>''))"
    by (intro prints_bind prints_colored_lit prints_lit prints_kprint assms) simp_all
  then show ?thesis
    using print_and_stop [OF p assms(3,2), of "0x21"] by (simp add: panic_def panic_text_def)
qed

section \<open>Interrupts\<close>

text \<open>The devices behind the interrupts: which handler effect, by vector.\<close>

definition irq_device :: "'d ports \<Rightarrow> u64 \<Rightarrow> 'd \<Rightarrow> 'd" where
  "irq_device P v d = outb P 0x20 0x20 (if v = 33 then snd (inb P 0x60 d) else d)"

definition irq_keyboard :: "'d ports \<Rightarrow> u64 \<Rightarrow> 'd \<Rightarrow> keyboard \<Rightarrow> keyboard option" where
  "irq_keyboard P v d k = (if v = 33 then keyboard_process_scancode (fst (inb P 0x60 d)) k else Some k)"

lemma eoi_simps [simp]:
  "pic_send_eoi P 0 d = outb P 0x20 0x20 d" "pic_send_eoi P 1 d = outb P 0x20 0x20 d"
  "pic_send_eoi P 7 d = outb P 0x20 0x20 d"
  by (simp_all add: pic_send_eoi_def word_le_nat_alt)

lemma trap_irq:
  assumes "f_vector f \<in> {32, 33, 39}" and "keyboard_wf (kbd s)"
  shows "\<exists>k. irq_keyboard (io E) (f_vector f) (dev s) (kbd s) = Some k \<and> keyboard_wf k \<and>
    trap_dispatch E f s = Some (Returns () (s\<lparr>kbd := k,
      timer_ticks := timer_ticks s + (if f_vector f = 32 then 1 else 0),
      dev := irq_device (io E) (f_vector f) (dev s)\<rparr>))"
proof -
  consider "f_vector f = 32" | "f_vector f = 33" | "f_vector f = 39" using assms(1) by auto
  then show ?thesis
  proof cases
    case 2
    obtain k where k: "keyboard_process_scancode (fst (inb (io E) 0x60 (dev s))) (kbd s) = Some k" "keyboard_wf k"
      using process_scancode_spec [OF assms(2), of "fst (inb (io E) 0x60 (dev s))"] by blast
    then show ?thesis using 2
      by (simp add: trap_dispatch_def irq_keyboard_def irq_device_def keyboard_handler_def split_beta Let_def)
  qed (use assms(2) in \<open>simp_all add: trap_dispatch_def irq_keyboard_def irq_device_def system_timer_tick_def Let_def\<close>)
qed

section \<open>Waiting for interrupts\<close>

text \<open>
  Interrupts that keep coming: from the states in \<open>okd\<close> the next interrupt has a handler that
  returns, and the number of interrupts before the next tick, \<open>before_tick\<close>, decreases.
\<close>

definition irq_source :: "'d env \<Rightarrow> ('d \<Rightarrow> bool) \<Rightarrow> ('d \<Rightarrow> nat) \<Rightarrow> bool" where
  "irq_source E okd before_tick \<longleftrightarrow>
     (\<forall>d. okd d \<longrightarrow> (\<exists>f d'. next_irq E d = Some (f, d') \<and> f_vector f \<in> {32, 33, 39} \<and>
        okd (irq_device (io E) (f_vector f) d') \<and>
        (f_vector f = 32 \<or> before_tick (irq_device (io E) (f_vector f) d') < before_tick d)))"

definition machine_ok :: "('d \<Rightarrow> bool) \<Rightarrow> ('d, 'z) machine_scheme \<Rightarrow> bool" where
  "machine_ok okd s \<longleftrightarrow> okd (dev s) \<and> keyboard_wf (kbd s) \<and> interrupts s"

definition burst_bound :: "'d env \<Rightarrow> ('d \<Rightarrow> bool) \<Rightarrow> nat \<Rightarrow> bool" where
  "burst_bound E okd B \<longleftrightarrow> (\<forall>d. okd d \<longrightarrow> irq_burst E d \<le> B)"

text \<open>The state after interrupts with \<open>j\<close> ticks among them.\<close>

definition ticked :: "('d \<Rightarrow> bool) \<Rightarrow> nat \<Rightarrow> ('d, 'z) machine_scheme \<Rightarrow> ('d, 'z) machine_scheme \<Rightarrow> bool" where
  "ticked okd j s t \<longleftrightarrow>
     (\<exists>k d. t = s\<lparr>kbd := k, dev := d, timer_ticks := timer_ticks s + of_nat j\<rparr> \<and> keyboard_wf k \<and> okd d)"

lemma ticked_refl: "machine_ok okd s \<Longrightarrow> ticked okd 0 s s"
  unfolding ticked_def machine_ok_def by (intro exI [of _ "kbd s"] exI [of _ "dev s"]) simp

lemma ticked_trans:
  assumes "ticked okd i s t" and "ticked okd j t u"
  shows "ticked okd (i + j) s u"
proof -
  obtain k d where t: "t = s\<lparr>kbd := k, dev := d, timer_ticks := timer_ticks s + of_nat i\<rparr>" using assms(1) by (auto simp: ticked_def)
  obtain k' d' where u: "u = t\<lparr>kbd := k', dev := d', timer_ticks := timer_ticks t + of_nat j\<rparr>" "keyboard_wf k'" "okd d'"
    using assms(2) by (auto simp: ticked_def)
  have "u = s\<lparr>kbd := k', dev := d', timer_ticks := timer_ticks s + of_nat (i + j)\<rparr>"
    using u(1) t by (simp add: add.assoc)
  then show ?thesis using u(2,3) by (auto simp: ticked_def)
qed

lemma ticked_ok: "ticked okd j s t \<Longrightarrow> machine_ok okd s \<Longrightarrow> machine_ok okd t"
  by (auto simp: ticked_def machine_ok_def)

lemma ticked_count: "ticked okd j s t \<Longrightarrow> unat (timer_ticks s) + j < 2 ^ 64 \<Longrightarrow> unat (timer_ticks t) = unat (timer_ticks s) + j"
  by (auto simp: ticked_def unat_add64 unat_of_nat take_bit_eq_mod)

text \<open>One interrupt, a burst of them, and a wait.  Without a tick, the next one comes closer.\<close>

lemma handle_irq_returns:
  assumes "irq_source E okd before_tick" and "machine_ok okd s"
  shows "\<exists>f d j t. next_irq E (dev s) = Some (f, d) \<and> handle_irq E f d s = Some (Returns () t) \<and> j \<le> 1 \<and> ticked okd j s t \<and>
    (j = 0 \<longrightarrow> before_tick (dev t) < before_tick (dev s))"
proof -
  have ok: "okd (dev s)" "keyboard_wf (kbd s)" "interrupts s" using assms(2) by (simp_all add: machine_ok_def)
  obtain f d' where f: "next_irq E (dev s) = Some (f, d')" "f_vector f \<in> {32, 33, 39}"
      "okd (irq_device (io E) (f_vector f) d')"
      "f_vector f = 32 \<or> before_tick (irq_device (io E) (f_vector f) d') < before_tick (dev s)"
    using assms(1) ok(1) unfolding irq_source_def by blast
  let ?s = "s\<lparr>dev := d', interrupts := False\<rparr>" and ?j = "if f_vector f = 32 then 1 else 0 :: nat"
  obtain k where k: "keyboard_wf k" "trap_dispatch E f ?s = Some (Returns () (?s\<lparr>kbd := k,
      timer_ticks := timer_ticks ?s + (if f_vector f = 32 then 1 else 0), dev := irq_device (io E) (f_vector f) (dev ?s)\<rparr>))"
    using trap_irq [of f ?s E] f(2) ok(2) by auto
  let ?t = "s\<lparr>kbd := k, dev := irq_device (io E) (f_vector f) d', timer_ticks := timer_ticks s + of_nat ?j\<rparr>"
  have "handle_irq E f d' s = Some (Returns () ?t)" using ok(3) k(2) by (simp add: handle_irq_def)
  moreover have "ticked okd ?j s ?t"
    unfolding ticked_def using k(1) f(3) by (intro exI [of _ k] exI [of _ "irq_device (io E) (f_vector f) d'"]) simp
  ultimately show ?thesis using f(1,4) by (intro exI [of _ f] exI [of _ d'] exI [of _ ?j] exI [of _ ?t]) auto
qed

lemma take_irqs_returns:
  assumes "irq_source E okd before_tick" and "machine_ok okd s"
  shows "\<exists>j t. take_irqs E n s = Some (Returns () t) \<and> j \<le> n \<and> ticked okd j s t \<and>
    (j = 0 \<longrightarrow> before_tick (dev t) \<le> before_tick (dev s))"
  using assms(2)
proof (induction n arbitrary: s)
  case 0
  then show ?case using ticked_refl by auto
next
  case (Suc n)
  obtain f d i u where u: "next_irq E (dev s) = Some (f, d)" "handle_irq E f d s = Some (Returns () u)" "i \<le> 1"
      "ticked okd i s u" "i = 0 \<longrightarrow> before_tick (dev u) < before_tick (dev s)"
    using handle_irq_returns [OF assms(1) Suc.prems] by blast
  obtain j t where t: "take_irqs E n u = Some (Returns () t)" "j \<le> n" "ticked okd j u t"
      "j = 0 \<longrightarrow> before_tick (dev t) \<le> before_tick (dev u)"
    using Suc.IH [OF ticked_ok [OF u(4) Suc.prems]] by blast
  show ?case using u t ticked_trans [OF u(4) t(3)] by (intro exI [of _ "i + j"] exI [of _ t]) (simp, linarith)
qed

lemma catch_up_returns:
  assumes "irq_source E okd before_tick" and "burst_bound E okd B" and "machine_ok okd s"
  shows "\<exists>j t. catch_up E s = Some (Returns () t) \<and> j \<le> B \<and> ticked okd j s t \<and>
    (j = 0 \<longrightarrow> before_tick (dev t) \<le> before_tick (dev s))"
proof -
  have b: "irq_burst E (dev s) \<le> B" "interrupts s" using assms(2,3) by (simp_all add: burst_bound_def machine_ok_def)
  obtain j t where t: "take_irqs E (irq_burst E (dev s)) s = Some (Returns () t)" "j \<le> irq_burst E (dev s)" "ticked okd j s t"
      "j = 0 \<longrightarrow> before_tick (dev t) \<le> before_tick (dev s)"
    using take_irqs_returns [OF assms(1,3)] by blast
  have "catch_up E s = Some (Returns () t)" "j \<le> B" using b t(1,2) by (simp_all add: catch_up_def)
  then show ?thesis using t(3,4) by blast
qed

lemma hlt_step_returns:
  assumes "irq_source E okd before_tick" and "burst_bound E okd B" and "machine_ok okd s"
  shows "\<exists>j t. hlt_step E s = Some (None, t) \<and> j \<le> Suc B \<and> ticked okd j s t \<and>
    (j = 0 \<longrightarrow> before_tick (dev t) < before_tick (dev s))"
proof -
  obtain i u where u: "catch_up E s = Some (Returns () u)" "i \<le> B" "ticked okd i s u"
      "i = 0 \<longrightarrow> before_tick (dev u) \<le> before_tick (dev s)"
    using catch_up_returns [OF assms] by blast
  have ok: "machine_ok okd u" by (rule ticked_ok [OF u(3) assms(3)])
  obtain f d j t where t: "next_irq E (dev u) = Some (f, d)" "handle_irq E f d u = Some (Returns () t)" "j \<le> 1"
      "ticked okd j u t" "j = 0 \<longrightarrow> before_tick (dev t) < before_tick (dev u)"
    using handle_irq_returns [OF assms(1) ok] by blast
  have "hlt_step E s = Some (None, t)" using u(1) t(1,2) ok by (simp add: hlt_step_def cpu_hlt_def machine_ok_def)
  then show ?thesis using u(2,4) t(3,5) ticked_trans [OF u(3) t(4)] by (intro exI [of _ "i + j"] exI [of _ t]) auto
qed

lemma hlt_until_now: "c s \<Longrightarrow> hlt_until E c s = Some (Returns () s)"
  by (simp add: hlt_until_def repeat_until_hit)

text \<open>Waiting for a deadline ends, at most a burst late.\<close>

lemma wait_until_returns:
  assumes "irq_source E okd before_tick" and "burst_bound E okd B" and "machine_ok okd s"
    and "unat (timer_ticks s) + unat delay + B < 2 ^ 64"
  shows "\<exists>j t. hlt_until E (\<lambda>t. \<not> timer_ticks t < timer_ticks s + delay) s = Some (Returns () t) \<and>
    unat delay \<le> j \<and> j \<le> unat delay + B \<and> ticked okd j s t"
proof -
  let ?dl = "timer_ticks s + delay" and ?D = "unat delay"
  let ?f = "\<lambda>t. if \<not> timer_ticks t < ?dl then Some (Some (Returns () t), t) else hlt_step E t"
  let ?I = "\<lambda>t. \<exists>j \<le> ?D + B. ticked okd j s t"
  let ?Q = "\<lambda>r t. r = Returns () t \<and> (\<exists>j. ?D \<le> j \<and> j \<le> ?D + B \<and> ticked okd j s t)"
  let ?R = "inv_image (less_than <*lex*> less_than) (\<lambda>t. (unat ?dl - unat (timer_ticks t), before_tick (dev t)))"
  have dl: "unat ?dl = unat (timer_ticks s) + ?D" using assms(4) by (intro unat_add64) simp
  have "\<exists>r t. repeat_until ?f s = Some (r, t) \<and> ?Q r t"
  proof (rule repeat_until_total [where I = ?I and R = ?R])
    show "?I s" using ticked_refl [OF assms(3)] by blast
    show "wf ?R" by (intro wf_inv_image wf_lex_prod wf_less_than)
  next
    fix t assume "?I t"
    then obtain j where j: "j \<le> ?D + B" "ticked okd j s t" by blast
    have n: "unat (timer_ticks t) = unat (timer_ticks s) + j" by (rule ticked_count [OF j(2)]) (use j(1) assms(4) in simp)
    show "\<exists>r t'. ?f t = Some (r, t') \<and> (case r of Some v \<Rightarrow> ?Q v t' | None \<Rightarrow> ?I t' \<and> (t', t) \<in> ?R)"
    proof (cases "timer_ticks t < ?dl")
      case False
      then have "?D \<le> j" using n dl by (simp add: word_less_nat_alt)
      then have "?Q (Returns () t) t" using j by blast
      then show ?thesis using False by (intro exI [of _ "Some (Returns () t)"] exI [of _ t]) simp
    next
      case True
      then have lt: "j < ?D" using n dl by (simp add: word_less_nat_alt)
      obtain i u where u: "hlt_step E t = Some (None :: (unit, _) outcome option, u)" "i \<le> Suc B" "ticked okd i t u"
          "i = 0 \<longrightarrow> before_tick (dev u) < before_tick (dev t)"
        using hlt_step_returns [OF assms(1,2) ticked_ok [OF j(2) assms(3)]] by blast
      have m: "unat (timer_ticks u) = unat (timer_ticks t) + i"
        by (rule ticked_count [OF u(3)]) (use n lt u(2) assms(4) in simp)
      have "?I u" using ticked_trans [OF j(2) u(3)] lt u(2) by (intro exI [of _ "j + i"]) simp
      moreover have "(u, t) \<in> ?R" using m n dl lt u(4) by (cases "i = 0") auto
      moreover have "?f t = Some (None, u)" using True u(1) by simp
      ultimately show ?thesis by (intro exI [of _ None] exI [of _ u]) simp
    qed
  qed
  then obtain t j where "repeat_until ?f s = Some (Returns () t, t)" "?D \<le> j" "j \<le> ?D + B" "ticked okd j s t" by blast
  then show ?thesis by (intro exI [of _ j] exI [of _ t]) (simp add: hlt_until_def)
qed

lemma sleep_returns:
  assumes "irq_source E okd before_tick" and "burst_bound E okd B" and "machine_ok okd s"
    and "unat (timer_ticks s) + unat delay + 2 * B < 2 ^ 64"
  shows "\<exists>late t. system_sleep_ms E delay s = Some (Returns () t) \<and> late \<le> 2 * B \<and> ticked okd (unat delay + late) s t"
proof -
  obtain i u where u: "catch_up E s = Some (Returns () u)" "i \<le> B" "ticked okd i s u"
    using catch_up_returns [OF assms(1-3)] by blast
  have n: "unat (timer_ticks u) = unat (timer_ticks s) + i" by (rule ticked_count [OF u(3)]) (use u(2) assms(4) in simp)
  obtain j t where t: "hlt_until E (\<lambda>t. \<not> timer_ticks t < timer_ticks u + delay) u = Some (Returns () t)"
      "unat delay \<le> j" "j \<le> unat delay + B" "ticked okd j u t"
    using wait_until_returns [OF assms(1,2) ticked_ok [OF u(3) assms(3)], of delay] n u(2) assms(4) by auto
  have "system_sleep_ms E delay s = Some (Returns () t)" using u(1) t(1) by (simp add: system_sleep_ms_def system_get_uptime_ms_def)
  moreover have "i + j = unat delay + (i + j - unat delay)" using t(2) by simp
  ultimately show ?thesis using ticked_trans [OF u(3) t(4)] u(2) t(3)
    by (intro exI [of _ "i + j - unat delay"] exI [of _ t]) simp
qed

lemma sleep_wraps:
  assumes "irq_source E okd before_tick" and "burst_bound E okd B" and "machine_ok okd s"
    and "unat (timer_ticks s) + B < 2 ^ 64" and "2 ^ 64 \<le> unat (timer_ticks s) + unat delay"
  shows "\<exists>j t. system_sleep_ms E delay s = Some (Returns () t) \<and> j \<le> B \<and> ticked okd j s t"
proof -
  obtain i u where u: "catch_up E s = Some (Returns () u)" "i \<le> B" "ticked okd i s u"
    using catch_up_returns [OF assms(1-3)] by blast
  have n: "unat (timer_ticks u) = unat (timer_ticks s) + i" by (rule ticked_count [OF u(3)]) (use u(2) assms(4) in simp)
  have b: "unat delay < 2 ^ 64" by (rule unat_lt64)
  have "unat (timer_ticks u + delay) = unat (timer_ticks u) + unat delay - 2 ^ 64"
    using n assms(5) by (subst unat_plus_if') simp
  then have "\<not> unat (timer_ticks u) < unat (timer_ticks u + delay)" using b by linarith
  then have "\<not> timer_ticks u < timer_ticks u + delay" by (simp only: word_less_nat_alt not_False_eq_True)
  then have "system_sleep_ms E delay s = Some (Returns () u)"
    using u(1) hlt_until_now [of "\<lambda>s. \<not> timer_ticks s < timer_ticks u + delay" u E]
    by (simp add: system_sleep_ms_def system_get_uptime_ms_def)
  then show ?thesis using u(2,3) by blast
qed

section \<open>The gates\<close>

lemma gates_loop:
  assumes "length stubs = 48" and "length (idt t) = 256" and "n \<le> 48"
  shows "\<exists>r. for_range 0 n (\<lambda>v t. do { h \<leftarrow> rd stubs v; idt_set_gate (of_nat v) h 0x08 0x8E t }) t = Some r \<and>
    (\<exists>g. r = t\<lparr>idt := g\<rparr>) \<and> length (idt r) = 256 \<and>
    (\<forall>v < 256. read_gate (idt_bytes r) v = (if v < n then gate_for (stubs ! v) 0x08 0x8E else read_gate (idt_bytes t) v))"
proof -
  let ?f = "\<lambda>v t. do { h \<leftarrow> rd stubs v; idt_set_gate (of_nat v) h 0x08 0x8E t }"
  let ?I = "\<lambda>j r. (\<exists>g. r = t\<lparr>idt := g\<rparr>) \<and> length (idt r) = 256 \<and>
    (\<forall>v < 256. read_gate (idt_bytes r) v = (if v < j then gate_for (stubs ! v) 0x08 0x8E else read_gate (idt_bytes t) v))"
  show ?thesis
  proof (rule for_range_invariant [where I = ?I])
    have "\<exists>g. t = t\<lparr>idt := g\<rparr>" by (rule exI [of _ "idt t"]) simp
    then show "?I 0 t" using assms(2) by simp
  next
    fix j r assume j: "j < n" and I: "?I j r"
    have u: "unat (of_nat j :: u8) = j" using j assms(3) by (simp add: unat_of_nat take_bit_eq_mod)
    obtain g where g: "idt_set_gate (of_nat j) (stubs ! j) 0x08 0x8E r = Some (r\<lparr>idt := g\<rparr>)" "length g = 256"
        "read_gate (idt_bytes (r\<lparr>idt := g\<rparr>)) j = gate_for (stubs ! j) 0x08 0x8E"
        "\<forall>v < 256. v \<noteq> j \<longrightarrow> read_gate (idt_bytes (r\<lparr>idt := g\<rparr>)) v = read_gate (idt_bytes r) v"
      using idt_set_gate_spec [of r "of_nat j" "stubs ! j" "0x08" "0x8E"] I u by auto
    have "?f j r = Some (r\<lparr>idt := g\<rparr>)" using g(1) j assms(1,3) by simp
    moreover have "?I (Suc j) (r\<lparr>idt := g\<rparr>)"
    proof (intro conjI allI impI)
      obtain g0 where "r = t\<lparr>idt := g0\<rparr>" using I by blast
      then have "r\<lparr>idt := g\<rparr> = t\<lparr>idt := g\<rparr>" by simp
      then show "\<exists>g'. r\<lparr>idt := g\<rparr> = t\<lparr>idt := g'\<rparr>" by blast
      show "length (idt (r\<lparr>idt := g\<rparr>)) = 256" using g(2) by simp
      fix v :: nat assume v: "v < 256"
      show "read_gate (idt_bytes (r\<lparr>idt := g\<rparr>)) v =
          (if v < Suc j then gate_for (stubs ! v) 0x08 0x8E else read_gate (idt_bytes t) v)"
        using g(3,4) I v by (cases "v = j") auto
    qed
    ultimately show "\<exists>s'. ?f j r = Some s' \<and> ?I (Suc j) s'" by blast
  qed simp
qed

lemma null_gate_absent: "idt t = replicate 256 null_gate \<Longrightarrow> v < 256 \<Longrightarrow> \<not> present (read_gate (idt_bytes t) v)"
  using read_gate_nth [of v t] gate_fields [of null_gate "[]"] by (simp add: present_def null_gate_def)

lemma trap_init_spec:
  assumes "length stubs = 48" and "length (idt (idt_st s)) = 256"
  shows "\<exists>t. trap_init E stubs a s = Some (s\<lparr>dev := pic_remap (io E) (dev s), idt_st := t\<rparr>) \<and>
    idtr t = \<lparr>idt_limit = 4095, idt_base = a\<rparr> \<and> length (idt_bytes t) = 4096 \<and>
    (\<forall>v < 48. read_gate (idt_bytes t) v = gate_for (stubs ! v) 0x08 0x8E) \<and>
    (\<forall>v. 48 \<le> v \<and> v < 256 \<longrightarrow> \<not> present (read_gate (idt_bytes t) v))"
proof -
  let ?start = "(idt_st s)\<lparr>idt := replicate 256 null_gate, idtp := \<lparr>idt_limit = 4095, idt_base = a\<rparr>\<rparr>"
  obtain r g where r: "for_range 0 48 (\<lambda>v t. do { h \<leftarrow> rd stubs v; idt_set_gate (of_nat v) h 0x08 0x8E t }) ?start = Some r"
      "r = ?start\<lparr>idt := g\<rparr>" "length (idt r) = 256"
      "\<forall>v < 256. read_gate (idt_bytes r) v = (if v < 48 then gate_for (stubs ! v) 0x08 0x8E else read_gate (idt_bytes ?start) v)"
    using gates_loop [OF assms(1), of ?start 48] by auto
  let ?t = "idt_load_current r"
  have b: "idt_bytes ?t = idt_bytes r" by (simp add: idt_bytes_def idt_load_current_def)
  have "trap_init E stubs a s = Some (s\<lparr>dev := pic_remap (io E) (dev s), idt_st := ?t\<rparr>)"
    using r(1) idt_init_spec [OF assms(2), of a] by (simp add: trap_init_def)
  moreover have "idtr ?t = \<lparr>idt_limit = 4095, idt_base = a\<rparr>" using r(2) by (simp add: idt_load_current_def)
  moreover have "length (idt_bytes r) = 4096"
    using r(3) by (simp add: idt_bytes_def length_concat o_def sizeof_idt_entry_def sum_list_triv)
  moreover have "\<not> present (read_gate (idt_bytes ?start) v)" if "v < 256" for v
    by (rule null_gate_absent [OF _ that]) simp
  ultimately show ?thesis using r(4) unfolding b [symmetric] by (intro exI [of _ ?t]) auto
qed

section \<open>Properties\<close>

definition no_frame :: trap_frame where
  "no_frame = \<lparr>f_r15 = 0, f_r14 = 0, f_r13 = 0, f_r12 = 0, f_r11 = 0, f_r10 = 0, f_r9 = 0, f_r8 = 0, f_rbp = 0,
     f_rdi = 0, f_rsi = 0, f_rdx = 0, f_rcx = 0, f_rbx = 0, f_rax = 0, f_vector = 32, f_error_code = 0, f_rip = 0,
     f_cs = 8, f_rflags = 0x202\<rparr>"

definition log_env :: "log_device env" where
  "log_env = \<lparr>io = log_ports, next_irq = (\<lambda>d. Some (no_frame, d)), irq_burst = (\<lambda>_. 0), read_cr2 = (\<lambda>_. 0x1000)\<rparr>"

abbreviation idle_device :: "log_device \<Rightarrow> bool" where
  "idle_device d \<equiv> answers d = (\<lambda>_. [])"

definition example_machine :: "log_device machine" where
  "example_machine = con.extend example_con
     \<lparr>kbd = fresh_keyboard, timer_ticks = 0, idt_st = example_idt, interrupts = True\<rparr>"

lemma example_machine_simps [simp]:
  "dev example_machine = log_device0" "kbd example_machine = fresh_keyboard" "interrupts example_machine"
  "timer_ticks example_machine = 0" "idt_st example_machine = example_idt"
  by (simp_all add: example_machine_def con.defs example_con_def)

lemma example_machine_ready: "con_ready idle_device example_machine"
  using example_con_ready by (simp add: con_ready_def example_machine_def con.defs)

lemma log_quiet: "port \<noteq> COM1_PORT \<Longrightarrow> quiet_port log_ports log_sent idle_device port"
  by (simp add: quiet_port_def log_ports_def log_sent_def)

lemma log_env_simps [simp]: "io log_env = log_ports" "read_cr2 log_env d = 0x1000" "next_irq log_env d = Some (no_frame, d)"
  by (simp_all add: log_env_def)

lemma log_irqs: "irq_source log_env idle_device (\<lambda>_. 0)"
  by (simp add: irq_source_def irq_device_def no_frame_def log_ports_def)

text \<open>C27: an exception is reported and the machine stops: for each of the 32 exception vectors the name,
  the vector, the error code and all registers of the frame are printed (the page fault address too
  for vector 14), nothing else is sent, the exit code is the last thing written to a port, and the
  processor halts with interrupts disabled.\<close>

theorem exception_report:
  assumes "uart (io E) sent okd" and "quiet_port (io E) sent okd 0xF4" and "\<And>d. read_cr2 E d = cr2"
    and "con_ready okd s" and "f_vector f < 32"
  shows "\<exists>s'. trap_dispatch E f s = Some (Halts s') \<and> \<not> interrupts s' \<and>
    sent (dev s') = sent (dev s) @ crlf (exception_text f cr2) \<and> (\<exists>d. dev s' = outb (io E) 0xF4 0x22 d)"
  by (rule trap_exception [OF assms])

theorem exception_report_witness:
  "\<exists>s'. trap_dispatch log_env (no_frame\<lparr>f_vector := 6\<rparr>) example_machine = Some (Halts s') \<and>
     take 40 (log_sent (dev s')) = [13, 10] @ str ''EXCEPTION: Invalid Opcode vector=6 err''"
proof -
  have "take 40 (crlf (exception_text (no_frame\<lparr>f_vector := 6\<rparr>) 0x1000)) =
      [13, 10] @ str ''EXCEPTION: Invalid Opcode vector=6 err''" by code_simp
  moreover have "log_sent log_device0 = []" by (simp add: log_sent_def log_device0_def)
  ultimately show ?thesis
    using exception_report [of log_env log_sent idle_device "0x1000" example_machine "no_frame\<lparr>f_vector := 6\<rparr>"]
      log_uart log_quiet [of "0xF4"] example_machine_ready
    by auto
qed

text \<open>C28: the interrupts of the timer, the keyboard and the spurious vector 39 are handled and
  acknowledged with one end-of-interrupt command, the timer counts one tick, the keyboard decodes the
  scancode it reads, nothing else of the machine changes; every other vector from 32 on is a panic
  that names the vector and stops the machine.\<close>

theorem irq_dispatch:
  assumes "uart (io E) sent okd" and "quiet_port (io E) sent okd 0xF4" and "con_ready okd s" and "keyboard_wf (kbd s)"
    and "32 \<le> f_vector f"
  shows "if f_vector f \<in> {32, 33, 39}
    then \<exists>k. irq_keyboard (io E) (f_vector f) (dev s) (kbd s) = Some k \<and> keyboard_wf k \<and>
      trap_dispatch E f s = Some (Returns () (s\<lparr>kbd := k,
        timer_ticks := timer_ticks s + (if f_vector f = 32 then 1 else 0),
        dev := irq_device (io E) (f_vector f) (dev s)\<rparr>))
    else \<exists>s'. trap_dispatch E f s = Some (Halts s') \<and> \<not> interrupts s' \<and>
      sent (dev s') = sent (dev s) @ crlf (panic_text (str ''Unhandled IRQ vector '' @ hex_text (f_vector f)))"
proof (cases "f_vector f \<in> {32, 33, 39}")
  case True
  then show ?thesis using trap_irq [OF True assms(4), of E] by simp
next
  case False
  then have "trap_dispatch E f s = panicf E (lit ''Unhandled IRQ vector '') (f_vector f) s"
    using assms(5) by (auto simp: trap_dispatch_def)
  moreover have "\<exists>s'. panicf E (lit ''Unhandled IRQ vector '') (f_vector f) s = Some (Halts s') \<and> \<not> interrupts s' \<and>
      sent (dev s') = sent (dev s) @ crlf (panic_text (str ''Unhandled IRQ vector '' @ hex_text (f_vector f)))"
    using panicf_spec [OF assms(1-3), of "''Unhandled IRQ vector ''" "f_vector f"] by auto
  ultimately show ?thesis using False by auto
qed

theorem irq_dispatch_witness:
  "\<exists>k. trap_dispatch log_env no_frame example_machine =
     Some (Returns () (example_machine\<lparr>kbd := k, timer_ticks := 1, dev := outb log_ports 0x20 0x20 log_device0\<rparr>))"
  using irq_dispatch [of log_env log_sent idle_device example_machine no_frame]
    log_uart log_quiet [of "0xF4"] example_machine_ready
  by (auto simp: no_frame_def fresh_keyboard_simps irq_device_def)

text \<open>C29: after \<open>trap_init\<close> the loaded table has, for each of the 48 vectors, a present interrupt gate to
  its stub in the kernel code segment, no other gate is present, and the two interrupt controllers
  have been programmed, in order, to vectors 32 to 47 with everything masked but the timer, the
  keyboard and the cascade.\<close>

theorem trap_init_correct:
  assumes "length stubs = 48" and "length (idt (idt_st s)) = 256"
  shows "\<exists>t. trap_init E stubs a s = Some (s\<lparr>dev := pic_remap (io E) (dev s), idt_st := t\<rparr>) \<and>
    idtr t = \<lparr>idt_limit = 4095, idt_base = a\<rparr> \<and> length (idt_bytes t) = 4096 \<and>
    (\<forall>v < 48. read_gate (idt_bytes t) v = gate_for (stubs ! v) 0x08 0x8E) \<and>
    (\<forall>v. 48 \<le> v \<and> v < 256 \<longrightarrow> \<not> present (read_gate (idt_bytes t) v))"
  by (rule trap_init_spec [OF assms])

theorem trap_init_correct_witness:
  "\<exists>t. trap_init log_env (map of_nat [0..<48]) 0x5000 example_machine =
     Some (example_machine\<lparr>dev := pic_remap log_ports log_device0, idt_st := t\<rparr>) \<and>
     hw_offset (read_gate (idt_bytes t) 33) = 33"
  using trap_init_correct [of "map of_nat [0..<48]" example_machine log_env "0x5000"]
  by (auto simp: example_idt_def gate_for_def)

text \<open>C30: while interrupts keep coming and the timer among them, \<open>system_sleep_ms\<close> returns, never before the
  given number of ticks has been counted, whatever other interrupts arrive.  It is late only by the ticks that come between a test of the deadline and the halt, or between the call and the
  first look at the counter: when at most \<open>B\<close> interrupts come there, by at most \<open>2 * B\<close> ticks, and when
  none does the sleep is exact.  When the deadline passes the end of the 64-bit counter it returns at once.\<close>

theorem system_sleep_correct:
  assumes "irq_source E okd before_tick" and "burst_bound E okd B" and "machine_ok okd s"
    and "unat (timer_ticks s) + B < 2 ^ 64"
  shows "(unat (timer_ticks s) + unat delay + 2 * B < 2 ^ 64 \<longrightarrow>
      (\<exists>late t. system_sleep_ms E delay s = Some (Returns () t) \<and> late \<le> 2 * B \<and> ticked okd (unat delay + late) s t)) \<and>
    (2 ^ 64 \<le> unat (timer_ticks s) + unat delay \<longrightarrow>
      (\<exists>j t. system_sleep_ms E delay s = Some (Returns () t) \<and> j \<le> B \<and> ticked okd j s t))"
  using sleep_returns [OF assms(1-3)] sleep_wraps [OF assms] by blast

theorem system_sleep_correct_witness:
  "\<exists>t late. system_sleep_ms log_env 250 example_machine = Some (Returns () t) \<and> timer_ticks t = 250 \<and>
     (\<exists>u. system_sleep_ms (log_env\<lparr>irq_burst := \<lambda>_. 1\<rparr>) 250 example_machine = Some (Returns () u) \<and>
        timer_ticks u = 250 + of_nat late \<and> late \<le> 2)"
proof -
  let ?E = "log_env\<lparr>irq_burst := \<lambda>_. 1\<rparr>"
  have m: "machine_ok idle_device example_machine" by (simp add: machine_ok_def fresh_keyboard_simps log_device0_def)
  have b: "burst_bound log_env idle_device 0" "burst_bound ?E idle_device 1" by (simp_all add: burst_bound_def log_env_def)
  have i: "irq_source ?E idle_device (\<lambda>_. 0)" by (simp add: irq_source_def irq_device_def no_frame_def log_ports_def log_env_def)
  obtain t where "system_sleep_ms log_env 250 example_machine = Some (Returns () t)" "ticked idle_device 250 example_machine t"
    using system_sleep_correct [OF log_irqs b(1) m, of 250] by auto
  moreover obtain late u where "system_sleep_ms ?E 250 example_machine = Some (Returns () u)" "late \<le> 2"
      "ticked idle_device (250 + late) example_machine u"
    using system_sleep_correct [OF i b(2) m, of 250] by auto
  ultimately show ?thesis by (intro exI [of _ t] exI [of _ late]) (auto simp: ticked_def)
qed

text \<open>A tick before the deadline is computed, and one between each test and its halt: the sleep of 5 ticks
  returns after 7.\<close>

lemma sleep_late: "map_option (\<lambda>r. timer_ticks (final_state r))
    (system_sleep_ms (log_env\<lparr>irq_burst := \<lambda>d. 1\<rparr>) 5 example_machine) = Some 7"
  by code_simp

end
