(* ===== verification/Input.thy ===== *)
theory Input
  imports Interrupts
begin

text \<open>
  The readers of \<open>src/input.c\<close> and \<open>src/keyboard.c\<close>: bytes of the serial line as events, and lines typed
  at the keyboard.
\<close>

section \<open>The serial line\<close>

text \<open>A serial receiver that holds the bytes \<open>incoming\<close>.\<close>

definition receiver :: "'d ports \<Rightarrow> ('d \<Rightarrow> u8 list) \<Rightarrow> ('d \<Rightarrow> bool) \<Rightarrow> bool" where
  "receiver P incoming okd \<longleftrightarrow>
     (\<forall>d. okd d \<longrightarrow>
        (fst (inb P (COM1_PORT + 5) d) AND 0x01 \<noteq> 0 \<longleftrightarrow> incoming d \<noteq> []) \<and>
        okd (snd (inb P (COM1_PORT + 5) d)) \<and> incoming (snd (inb P (COM1_PORT + 5) d)) = incoming d \<and>
        (incoming d \<noteq> [] \<longrightarrow> fst (inb P COM1_PORT d) = hd (incoming d) \<and> okd (snd (inb P COM1_PORT d)) \<and>
           incoming (snd (inb P COM1_PORT d)) = tl (incoming d)))"

text \<open>
  The event that the bytes on the line stand for, and the bytes after it; \<open>None\<close> while it is
  incomplete.  An escape that starts no arrow key is a character, and takes the bytes that were
  looked at with it.
\<close>

definition serial_event :: "u8 list \<Rightarrow> (input_event \<times> u8 list) option" where
  "serial_event cs =
     (case cs of
        [] \<Rightarrow> None
      | c # cs1 \<Rightarrow>
          if c \<noteq> 0x1B then Some (\<lparr>ev_type = INPUT_EVENT_CHAR, ch = (if c = 13 then 10 else c)\<rparr>, cs1)
          else (case cs1 of
            [] \<Rightarrow> Some (\<lparr>ev_type = INPUT_EVENT_CHAR, ch = 0x1B\<rparr>, [])
          | x # cs2 \<Rightarrow>
              if x \<noteq> 91 then Some (\<lparr>ev_type = INPUT_EVENT_CHAR, ch = 0x1B\<rparr>, cs2)
              else (case cs2 of
                [] \<Rightarrow> None
              | y # cs3 \<Rightarrow>
                  Some (if y = 65 then \<lparr>ev_type = INPUT_EVENT_UP, ch = 0\<rparr>
                        else if y = 66 then \<lparr>ev_type = INPUT_EVENT_DOWN, ch = 0\<rparr>
                        else if y = 67 then \<lparr>ev_type = INPUT_EVENT_RIGHT, ch = 0\<rparr>
                        else if y = 68 then \<lparr>ev_type = INPUT_EVENT_LEFT, ch = 0\<rparr>
                        else \<lparr>ev_type = INPUT_EVENT_CHAR, ch = 0x1B\<rparr>, cs3))))"

definition receiving :: "('d \<Rightarrow> u8 list) \<Rightarrow> ('d \<Rightarrow> bool) \<Rightarrow> ('d, 'z) con_scheme \<Rightarrow> u8 list \<Rightarrow> bool" where
  "receiving incoming okd s cs \<longleftrightarrow> okd (dev s) \<and> serial_initialized s \<noteq> 0 \<and> incoming (dev s) = cs"

lemma serial_has_input_spec:
  assumes "receiver P incoming okd" and "receiving incoming okd s cs"
  shows "\<exists>d. serial_has_input P s = (cs \<noteq> [], s\<lparr>dev := d\<rparr>) \<and> receiving incoming okd (s\<lparr>dev := d\<rparr>) cs"
  using assms
  by (intro exI [of _ "snd (inb P (COM1_PORT + 5) (dev s))"])
    (simp add: serial_has_input_def receiver_def receiving_def split_beta Let_def)

lemma serial_read_char_spec:
  assumes "receiver P incoming okd" and "receiving incoming okd s (c # cs)"
  shows "\<exists>d. serial_read_char P s = Some (c, s\<lparr>dev := d\<rparr>) \<and> receiving incoming okd (s\<lparr>dev := d\<rparr>) cs"
proof -
  obtain d where d: "serial_has_input P s = (True, s\<lparr>dev := d\<rparr>)" "receiving incoming okd (s\<lparr>dev := d\<rparr>) (c # cs)"
    using serial_has_input_spec [OF assms] by auto
  have "poll (serial_has_input P) s = Some (s\<lparr>dev := d\<rparr>)" by (subst poll_step) (simp add: d(1))
  then show ?thesis using d(2) assms(1)
    by (intro exI [of _ "snd (inb P COM1_PORT d)"])
      (simp add: serial_read_char_def receiver_def receiving_def split_beta Let_def)
qed

lemma input_read_serial_event_spec:
  assumes "receiver P incoming okd" and "receiving incoming okd s cs" and "serial_event cs = Some (e, rest)"
  shows "\<exists>d. input_read_serial_event P s = Some (e, s\<lparr>dev := d\<rparr>) \<and> receiving incoming okd (s\<lparr>dev := d\<rparr>) rest"
proof -
  obtain c cs1 where cs: "cs = c # cs1" using assms(3) by (cases cs) (simp_all add: serial_event_def)
  obtain d1 where d1: "serial_read_char P s = Some (c, s\<lparr>dev := d1\<rparr>)" "receiving incoming okd (s\<lparr>dev := d1\<rparr>) cs1"
    using serial_read_char_spec [OF assms(1)] assms(2) cs by blast
  show ?thesis
  proof (cases "c = 0x1B")
    case False
    then show ?thesis using d1 assms(3) cs
      by (auto simp: input_read_serial_event_def serial_event_def input_event_char_def Let_def)
  next
    case True
    obtain d2 where d2: "serial_has_input P (s\<lparr>dev := d1\<rparr>) = (cs1 \<noteq> [], s\<lparr>dev := d2\<rparr>)"
        "receiving incoming okd (s\<lparr>dev := d2\<rparr>) cs1"
      using serial_has_input_spec [OF assms(1) d1(2)] by auto
    show ?thesis
    proof (cases cs1)
      case Nil
      then show ?thesis using d1 d2 assms(3) cs True
        by (auto simp: input_read_serial_event_def serial_event_def input_event_char_def Let_def)
    next
      case (Cons x cs2)
      obtain d3 where d3: "serial_read_char P (s\<lparr>dev := d2\<rparr>) = Some (x, s\<lparr>dev := d3\<rparr>)"
          "receiving incoming okd (s\<lparr>dev := d3\<rparr>) cs2"
        using serial_read_char_spec [OF assms(1) d2(2) [unfolded Cons]] by auto
      show ?thesis
      proof (cases "x = 91")
        case False
        then show ?thesis using d1 d2 d3 assms(3) cs True Cons
          by (auto simp: input_read_serial_event_def serial_event_def input_event_char_def Let_def)
      next
        case bracket: True
        then obtain y cs3 where y: "cs2 = y # cs3" using assms(3) cs True Cons by (cases cs2) (simp_all add: serial_event_def)
        obtain d4 where d4: "serial_read_char P (s\<lparr>dev := d3\<rparr>) = Some (y, s\<lparr>dev := d4\<rparr>)"
            "receiving incoming okd (s\<lparr>dev := d4\<rparr>) cs3"
          using serial_read_char_spec [OF assms(1) d3(2) [unfolded y]] by auto
        then show ?thesis using d1 d2 d3 assms(3) cs True Cons bracket y
          by (auto simp: input_read_serial_event_def serial_event_def input_event_char_def input_event_special_def Let_def)
      qed
    qed
  qed
qed

lemma input_serial_spec:
  assumes "receiver (io E) incoming okd" and "receiving incoming okd s cs" and "serial_event cs = Some (e, rest)"
  shows "\<exists>d. input_getevent E s = Some (Returns e (s\<lparr>dev := d\<rparr>)) \<and> receiving incoming okd (s\<lparr>dev := d\<rparr>) rest"
proof -
  have ne: "cs \<noteq> []" using assms(3) by (auto simp: serial_event_def)
  obtain d1 where d1: "serial_has_input (io E) s = (True, s\<lparr>dev := d1\<rparr>)" "receiving incoming okd (s\<lparr>dev := d1\<rparr>) cs"
    using serial_has_input_spec [OF assms(1,2)] ne by auto
  obtain d2 where d2: "input_read_serial_event (io E) (s\<lparr>dev := d1\<rparr>) = Some (e, s\<lparr>dev := d2\<rparr>)"
      "receiving incoming okd (s\<lparr>dev := d2\<rparr>) rest"
    using input_read_serial_event_spec [OF assms(1) d1(2) assms(3)] by auto
  have "input_step E s = Some (Some (Returns e (s\<lparr>dev := d2\<rparr>)), s\<lparr>dev := d2\<rparr>)"
    by (simp add: input_step_def d1(1) d2(1))
  then show ?thesis using d2(2) by (intro exI [of _ d2]) (simp add: input_getevent_def repeat_until_hit)
qed

section \<open>Typed lines\<close>

text \<open>The characters among the events that wait in the ring.\<close>

definition typed :: "keyboard \<Rightarrow> u8 list" where
  "typed k = map ch (filter (\<lambda>e. ev_type e = INPUT_EVENT_CHAR) (pending k))"

lemma keyboard_getevent_now:
  assumes "keyboard_wf (kbd s)" and "pending (kbd s) \<noteq> []"
  shows "\<exists>k. keyboard_getevent E s = Some (Returns (hd (pending (kbd s))) (s\<lparr>kbd := k\<rparr>)) \<and> keyboard_wf k \<and>
    pending k = tl (pending (kbd s))"
proof -
  obtain k where k: "keyboard_take (kbd s) = Some (hd (pending (kbd s)), k)" "keyboard_wf k" "pending k = tl (pending (kbd s))"
    using kq.deq_law [OF assms] by blast
  have "keyboard_has_input (kbd s)" using kq.nonempty_items [OF assms(1)] assms(2) by simp
  then have "hlt_until E (\<lambda>s. keyboard_has_input (kbd s)) s = Some (Returns () s)" by (rule hlt_until_now)
  then show ?thesis using k by (intro exI [of _ k]) (simp add: keyboard_getevent_def)
qed

lemma keyboard_getchar_now:
  assumes "keyboard_wf (kbd s)" and "typed (kbd s) = c # cs"
  shows "\<exists>k. keyboard_getchar E s = Some (Returns c (s\<lparr>kbd := k\<rparr>)) \<and> keyboard_wf k \<and> typed k = cs"
proof -
  have "\<exists>k. keyboard_getchar E s = Some (Returns c (s\<lparr>kbd := k\<rparr>)) \<and> keyboard_wf k \<and> typed k = cs"
    if "pending (kbd s) = es" for es using that assms
proof (induction es arbitrary: s)
  case Nil
  then show ?case by (simp add: typed_def)
next
  case (Cons e es)
  then have ne: "pending (kbd s) \<noteq> []" by simp
  obtain k where k: "keyboard_getevent E s = Some (Returns e (s\<lparr>kbd := k\<rparr>))" "keyboard_wf k" "pending k = es"
    using keyboard_getevent_now [OF Cons.prems(2) ne, of E] unfolding Cons.prems(1) by auto
  let ?step = "\<lambda>s. do { r \<leftarrow> keyboard_getevent E s;
            Some (case r of Returns event s' \<Rightarrow>
                    (if ev_type event = INPUT_EVENT_CHAR then Some (Returns (ch event) s') else None, s')
                  | Halts s' \<Rightarrow> (Some (Halts s'), s')) }"
  have ty: "typed (kbd s) = (if ev_type e = INPUT_EVENT_CHAR then ch e # typed k else typed k)"
    using k(3) by (simp add: typed_def Cons.prems(1))
  show ?case
  proof (cases "ev_type e = INPUT_EVENT_CHAR")
    case True
    then have "?step s = Some (Some (Returns c (s\<lparr>kbd := k\<rparr>)), s\<lparr>kbd := k\<rparr>)" using k(1) ty Cons.prems(3) by simp
    then have "keyboard_getchar E s = Some (Returns c (s\<lparr>kbd := k\<rparr>))"
      by (simp add: keyboard_getchar_def until_char_def repeat_until_hit)
    then show ?thesis using k(2) ty Cons.prems(3) True by (intro exI [of _ k]) simp
  next
    case False
    then have "?step s = Some (None, s\<lparr>kbd := k\<rparr>)" using k(1) by simp
    then have "keyboard_getchar E s = keyboard_getchar E (s\<lparr>kbd := k\<rparr>)"
      unfolding keyboard_getchar_def until_char_def by (subst repeat_until_miss) simp_all
    then show ?thesis using Cons.IH [of "s\<lparr>kbd := k\<rparr>"] k(2,3) ty Cons.prems(3) False by simp
  qed
qed
  then show ?thesis by blast
qed

text \<open>
  A line as typed: characters are appended, a backspace removes the last one, a newline ends the
  line, and so does a full line.  The result is the line and what is left to read.
\<close>

fun edit_line :: "nat \<Rightarrow> u8 list \<Rightarrow> u8 list \<Rightarrow> (u8 list \<times> u8 list) option" where
  "edit_line m line cs =
     (if length line < m then
        (case cs of
           [] \<Rightarrow> None
         | c # cs' \<Rightarrow>
             if c = 10 then Some (line, cs')
             else if c = 8 then edit_line m (butlast line) cs'
             else edit_line m (line @ [c]) cs')
      else Some (line, cs))"

declare edit_line.simps [simp del]

text \<open>The position in the buffer is the length of the line, and the test for room is on lengths.\<close>

lemma line_position:
  fixes max_len :: u16
  assumes "m = unat max_len - 1" and "length l \<le> m"
  shows "unat (of_nat (length l) :: u16) = length l"
    and "int (unat (of_nat (length l) :: u16)) < int (unat max_len) - 1 \<longleftrightarrow> length l < m"
proof -
  have "unat max_len < 2 ^ 16" using unsigned_less [of max_len, where 'a = nat] by simp
  then show p: "unat (of_nat (length l) :: u16) = length l" using assms by (simp add: unat_of_nat take_bit_eq_mod)
  show "int (unat (of_nat (length l) :: u16)) < int (unat max_len) - 1 \<longleftrightarrow> length l < m"
    unfolding p using assms by linarith
qed

lemma get_line_full:
  assumes "m = unat max_len - 1" and "length line = m" and "take m buffer = line" and "m < length buffer"
  shows "get_line_step E max_len (buffer, of_nat (length line), s) =
    Some (Some (Returns (buffer[m := 0]) s), buffer[m := 0], of_nat (length line), s)"
  using line_position [OF assms(1), of line] assms(2-4) unfolding get_line_step_def prod.case by simp

lemma get_line_room:
  assumes "m = unat max_len - 1" and "length line < m" and "m < length buffer"
    and "keyboard_getchar E s = Some (Returns c t)"
  shows "get_line_step E max_len (buffer, of_nat (length line), s) =
    Some (if c = 10 then (Some (Returns (buffer[length line := 0]) t), buffer[length line := 0], of_nat (length line), t)
      else if c = 8 then (None, buffer, of_nat (length (butlast line)), t)
      else (None, buffer[length line := c], of_nat (length (line @ [c])), t))"
proof -
  let ?p = "of_nat (length line) :: u16"
  have p: "unat ?p = length line" "int (unat ?p) < int (unat max_len) - 1"
    using line_position [OF assms(1), of line] assms(2) by simp_all
  have b: "(if ?p > 0 then ?p - 1 else ?p) = of_nat (length (butlast line))"
    using p(1) by (cases line rule: rev_cases) (auto simp: word_less_nat_alt)
  show ?thesis unfolding get_line_step_def prod.case using p b assms(2-4) by (auto simp: add.commute)
qed

lemma get_line_stop:
  assumes "get_line_step E max_len (buffer, p, s) = Some (Some (Returns (buffer[length line := 0]) t), x)"
    and "take (length line) buffer = line" and "length line < length buffer"
  shows "\<exists>b x. repeat_until (get_line_step E max_len) (buffer, p, s) = Some (Returns b t, x) \<and>
    length b = length buffer \<and> take (Suc (length line)) b = line @ [0]"
  using repeat_until_hit [of "get_line_step E max_len", OF assms(1)] assms(2,3)
  by (intro exI conjI) (assumption | simp add: take_Suc_update)+

lemma get_line_loop:
  assumes "keyboard_wf (kbd s)" and "typed (kbd s) = cs" and "edit_line m line cs = Some (r, rest)"
    and "take (length line) buffer = line" and "length line \<le> m" and "m < length buffer"
    and "m = unat max_len - 1"
  shows "\<exists>b k t. repeat_until (get_line_step E max_len) (buffer, of_nat (length line), s) = Some (Returns b (s\<lparr>kbd := k\<rparr>), t) \<and>
    keyboard_wf k \<and> typed k = rest \<and> length b = length buffer \<and> take (Suc (length r)) b = r @ [0]"
  using assms
proof (induction m line cs arbitrary: buffer s rule: edit_line.induct)
  case (1 m line cs)
  note prems = "1.prems"
  note m = prems(7)
  have lb: "length line < length buffer" using prems(5,6) by simp
  show ?case
  proof (cases "length line < m")
    case False
    then have "get_line_step E max_len (buffer, of_nat (length line), s) =
        Some (Some (Returns (buffer[length line := 0]) (s\<lparr>kbd := kbd s\<rparr>)), buffer[m := 0], of_nat (length line), s)"
      using get_line_full [OF m, of line buffer E s] prems(4-6) by simp
    moreover have "r = line" "rest = cs" using prems(3) False by (subst (asm) edit_line.simps, simp)+
    ultimately show ?thesis using get_line_stop [OF _ prems(4) lb] prems(1,2) by blast
  next
    case room: True
    obtain c cs' where cs: "cs = c # cs'" using prems(3) room by (subst (asm) edit_line.simps) (auto split: list.splits)
    obtain k where k: "keyboard_getchar E s = Some (Returns c (s\<lparr>kbd := k\<rparr>))" "keyboard_wf k" "typed k = cs'"
      using keyboard_getchar_now [OF prems(1), of c cs' E] prems(2) cs by blast
    note st = get_line_room [OF m room prems(6) k(1)]
    consider (lf) "c = 10" | (bs) "c \<noteq> 10" "c = 8" | (other) "c \<noteq> 10" "c \<noteq> 8" by blast
    then show ?thesis
    proof cases
      case lf
      then have "r = line" "rest = cs'" using prems(3) room cs by (subst (asm) edit_line.simps, simp)+
      moreover have "get_line_step E max_len (buffer, of_nat (length line), s) =
          Some (Some (Returns (buffer[length line := 0]) (s\<lparr>kbd := k\<rparr>)), buffer[length line := 0], of_nat (length line), s\<lparr>kbd := k\<rparr>)"
        using st lf by simp
      ultimately show ?thesis using get_line_stop [OF _ prems(4) lb] k(2,3) by blast
    next
      case bs
      have "take (length (butlast line)) buffer = butlast line"
        using prems(4) by (metis butlast_take length_butlast lb less_imp_le)
      moreover have "edit_line m (butlast line) cs' = Some (r, rest)"
        using prems(3) room cs bs by (subst (asm) edit_line.simps) simp
      moreover have "get_line_step E max_len (buffer, of_nat (length line), s) =
          Some (None, buffer, of_nat (length (butlast line)), s\<lparr>kbd := k\<rparr>)" using st bs by simp
      ultimately show ?thesis
        using "1.IH"(1) [OF room cs bs _ _ _ _ _ _ m, of "s\<lparr>kbd := k\<rparr>" buffer] k(2,3) prems(5,6)
          repeat_until_miss [of "get_line_step E max_len" "(buffer, of_nat (length line), s)"] by auto
    next
      case other
      have "take (length (line @ [c])) (buffer[length line := c]) = line @ [c]"
        using lb prems(4) by (simp add: take_Suc_update)
      moreover have "edit_line m (line @ [c]) cs' = Some (r, rest)"
        using prems(3) room cs other by (subst (asm) edit_line.simps) simp
      moreover have "get_line_step E max_len (buffer, of_nat (length line), s) =
          Some (None, buffer[length line := c], of_nat (length (line @ [c])), s\<lparr>kbd := k\<rparr>)" using st other by simp
      ultimately show ?thesis
        using "1.IH"(2) [OF room cs other _ _ _ _ _ _ m, of "s\<lparr>kbd := k\<rparr>" "buffer[length line := c]"] k(2,3) prems(6) room
          repeat_until_miss [of "get_line_step E max_len" "(buffer, of_nat (length line), s)"] by auto
    qed
  qed
qed

section \<open>Properties\<close>

text \<open>C32: what arrives on the serial line is turned into the event it stands for, before anything from
  the keyboard: carriage return is newline, the escape sequences of the four arrow keys are those
  events, any other byte is itself; no other part of the machine changes and the bytes after the
  event stay on the line.\<close>

theorem input_serial_correct:
  assumes "receiver (io E) incoming okd" and "receiving incoming okd s cs" and "serial_event cs = Some (e, rest)"
  shows "\<exists>d. input_getevent E s = Some (Returns e (s\<lparr>dev := d\<rparr>)) \<and> receiving incoming okd (s\<lparr>dev := d\<rparr>) rest"
  by (rule input_serial_spec [OF assms])

text \<open>A serial line for the example: the bytes still to come.\<close>

definition line_ports :: "u8 list ports" where
  "line_ports =
     \<lparr>inb = (\<lambda>p cs. if p = 0x3FD then (if cs = [] then 0x20 else 0x21, cs)
               else if p = COM1_PORT then (case cs of [] \<Rightarrow> (0, []) | c # cs' \<Rightarrow> (c, cs')) else (0xFF, cs)),
      outb = (\<lambda>p v cs. cs), inl = (\<lambda>p cs. (0, cs)), outl = (\<lambda>p v cs. cs)\<rparr>"

definition line_env :: "u8 list env" where
  "line_env = \<lparr>io = line_ports, next_irq = (\<lambda>_. None), irq_burst = (\<lambda>_. 0), read_cr2 = (\<lambda>_. 0)\<rparr>"

definition line_machine :: "u8 list \<Rightarrow> u8 list machine" where
  "line_machine cs = \<lparr>dev = cs, serial_initialized = 1, con_vga = example_vga, kbd = fresh_keyboard, timer_ticks = 0,
     idt_st = example_idt, interrupts = True\<rparr>"

lemma line_receiver: "receiver line_ports id (\<lambda>_. True)"
  by (simp add: receiver_def line_ports_def split: list.splits)

theorem input_serial_correct_witness:
  "\<exists>d. input_getevent line_env (line_machine [0x1B, 91, 65, 104]) =
     Some (Returns \<lparr>ev_type = INPUT_EVENT_UP, ch = 0\<rparr> (line_machine [0x1B, 91, 65, 104]\<lparr>dev := d\<rparr>)) \<and> d = [104]"
proof -
  have "receiving id (\<lambda>_. True) (line_machine [0x1B, 91, 65, 104]) [0x1B, 91, 65, 104]"
    by (simp add: receiving_def line_machine_def)
  moreover have "serial_event [0x1B, 91, 65, 104] = Some (\<lparr>ev_type = INPUT_EVENT_UP, ch = 0\<rparr>, [104])"
    by (simp add: serial_event_def)
  ultimately show ?thesis
    using input_serial_correct [of line_env id "\<lambda>_. True"] line_receiver
    by (auto simp: line_env_def receiving_def)
qed

text \<open>C31: \<open>keyboard_get_line\<close> with a limit of at least one and a buffer that holds it stores the line
  that was typed, edited by backspaces and cut at the limit, with a terminator inside the buffer; it
  takes from the ring exactly the events up to the end of the line, skipping what is no character.\<close>

theorem keyboard_get_line_correct:
  assumes "keyboard_wf (kbd s)" and "0 < max_len" and "unat max_len \<le> length buffer"
    and "edit_line (unat max_len - 1) [] (typed (kbd s)) = Some (r, rest)"
  shows "\<exists>b k. keyboard_get_line E buffer max_len s = Some (Returns b (s\<lparr>kbd := k\<rparr>)) \<and>
    keyboard_wf k \<and> typed k = rest \<and> length b = length buffer \<and> take (Suc (length r)) b = r @ [0]"
proof -
  have p: "0 < unat max_len" using assms(2) by (simp add: word_less_nat_alt)
  have lt: "unat max_len - 1 < length buffer" using p assms(3) by linarith
  obtain b k t where "repeat_until (get_line_step E max_len) (buffer, of_nat (length ([] :: u8 list)), s) =
      Some (Returns b (s\<lparr>kbd := k\<rparr>), t)"
      "keyboard_wf k" "typed k = rest" "length b = length buffer" "take (Suc (length r)) b = r @ [0]"
    using get_line_loop [OF assms(1) refl assms(4) _ _ lt refl, of E] by auto
  then show ?thesis by (auto simp: keyboard_get_line_def)
qed

theorem keyboard_get_line_correct_witness:
  "\<exists>k b k'. process_all [0x23, 0x26, 0x0E, 0x17, 0x1C] fresh_keyboard = Some k \<and>
     keyboard_get_line log_env (replicate 8 0xFF) 8 (example_machine\<lparr>kbd := k\<rparr>) =
       Some (Returns b (example_machine\<lparr>kbd := k'\<rparr>)) \<and> take 3 b = str ''hi'' @ [0] \<and> typed k' = []"
proof -
  have d: "decode_all (False, False) [0x23, 0x26, 0x0E, 0x17, 0x1C] = ((False, False), map keyboard_event_char [104, 108, 8, 105, 10])"
    by code_simp
  obtain k where k: "process_all [0x23, 0x26, 0x0E, 0x17, 0x1C] fresh_keyboard = Some k" "keyboard_wf k"
      "pending k = take 255 (map keyboard_event_char [104, 108, 8, 105, 10])"
    using process_all_spec [OF fresh_keyboard_simps(1), of "[0x23, 0x26, 0x0E, 0x17, 0x1C]"] d
    by (auto simp: fresh_keyboard_simps simp del: process_all.simps decode_all.simps take_append list.map)
  have "typed k = [104, 108, 8, 105, 10]" by (simp add: typed_def k(3) keyboard_event_char_def)
  moreover have "edit_line 7 [] [104, 108, 8, 105, 10] = Some (str ''hi'', [])" by code_simp
  ultimately obtain b k' where "keyboard_get_line log_env (replicate 8 0xFF) 8 (example_machine\<lparr>kbd := k\<rparr>) =
      Some (Returns b (example_machine\<lparr>kbd := k'\<rparr>))" "typed k' = []" "take (Suc (length (str ''hi''))) b = str ''hi'' @ [0]"
    using keyboard_get_line_correct [of "example_machine\<lparr>kbd := k\<rparr>" 8 "replicate 8 0xFF" "str ''hi''" "[]" log_env] k(2)
    by auto
  moreover have "Suc (length (str ''hi'')) = 3" by simp
  ultimately show ?thesis using k(1) by metis
qed

end
