(* ===== verification/Rtc.thy ===== *)
theory Rtc
  imports Ports Loops
begin

text \<open>
  \<open>src/rtc.c\<close>: reading the date and time from the CMOS clock.  The chip is behind the ports 0x70
  and 0x71.  The two waits and the comparison loop are loops of \<open>Loops\<close>: they may not end.
\<close>

section \<open>The program\<close>

record rtc_time =
  second :: u8
  minute :: u8
  hour :: u8
  day :: u8
  month :: u8
  year :: u16

abbreviation (input) CMOS_INDEX_PORT :: u16 where "CMOS_INDEX_PORT \<equiv> 0x70"
abbreviation (input) CMOS_DATA_PORT :: u16 where "CMOS_DATA_PORT \<equiv> 0x71"

definition cmos_read :: "'d ports \<Rightarrow> u8 \<Rightarrow> 'd \<Rightarrow> u8 \<times> 'd" where
  "cmos_read P reg d = inb P CMOS_DATA_PORT (outb P CMOS_INDEX_PORT reg d)"

definition rtc_updating :: "'d ports \<Rightarrow> 'd \<Rightarrow> bool \<times> 'd" where
  "rtc_updating P d = (let (v, d') = cmos_read P 0x0A d in (v AND 0x80 \<noteq> 0, d'))"

definition bcd_to_bin :: "u8 \<Rightarrow> u8" where
  "bcd_to_bin value = (value AND 0x0F) + (value div 16) * 10"

definition rtc_sample :: "'d ports \<Rightarrow> 'd \<Rightarrow> (rtc_time \<times> u8) \<times> 'd" where
  "rtc_sample P d =
     (let (s, d) = cmos_read P 0x00 d; (mi, d) = cmos_read P 0x02 d; (h, d) = cmos_read P 0x04 d;
          (da, d) = cmos_read P 0x07 d; (mo, d) = cmos_read P 0x08 d; (y, d) = cmos_read P 0x09 d;
          (b, d) = cmos_read P 0x0B d
      in ((\<lparr>second = s, minute = mi, hour = h, day = da, month = mo, year = ucast y\<rparr>, b), d))"

text \<open>\<open>while (rtc_updating()) {}\<close>.\<close>

definition rtc_wait :: "'d ports \<Rightarrow> 'd \<Rightarrow> 'd option" where
  "rtc_wait P d = poll (\<lambda>d. let (u, d') = rtc_updating P d in (\<not> u, d')) d"

text \<open>One pass of the comparison loop: the sample, when it equals the first one.\<close>

definition rtc_again :: "'d ports \<Rightarrow> rtc_time \<Rightarrow> 'd \<Rightarrow> ((rtc_time \<times> u8) option \<times> 'd) option" where
  "rtc_again P fst_time d =
     do { d1 \<leftarrow> rtc_wait P d;
          let ((snd_time, status_b), d2) = rtc_sample P d1;
          Some (if second fst_time \<noteq> second snd_time \<or> minute fst_time \<noteq> minute snd_time \<or>
                   hour fst_time \<noteq> hour snd_time \<or> day fst_time \<noteq> day snd_time \<or>
                   month fst_time \<noteq> month snd_time \<or> year fst_time \<noteq> year snd_time
                then None else Some (snd_time, status_b), d2) }"

text \<open>The conversions after the loop.\<close>

definition rtc_convert :: "rtc_time \<Rightarrow> u8 \<Rightarrow> rtc_time" where
  "rtc_convert t status_b =
     (let t1 = (if status_b AND 0x04 = 0
                then \<lparr>second = bcd_to_bin (second t), minute = bcd_to_bin (minute t),
                      hour = (hour t AND 0x80) OR bcd_to_bin (hour t AND 0x7F),
                      day = bcd_to_bin (day t), month = bcd_to_bin (month t),
                      year = ucast (bcd_to_bin (ucast (year t)))\<rparr>
                else t);
          t2 = (if status_b AND 0x02 = 0 \<and> hour t1 AND 0x80 \<noteq> 0
                then t1\<lparr>hour := ((hour t1 AND 0x7F) + 12) mod 24\<rparr>
                else t1\<lparr>hour := hour t1 AND 0x7F\<rparr>)
      in t2\<lparr>year := 2000 + year t2\<rparr>)"

text \<open>The call with a pointer that is not null; with a null pointer the result is 0.\<close>

definition rtc_read_time :: "'d ports \<Rightarrow> 'd \<Rightarrow> (rtc_time \<times> 'd) option" where
  "rtc_read_time P d =
     do { d1 \<leftarrow> rtc_wait P d;
          let ((first_time, status_b), d2) = rtc_sample P d1;
          ((t, b), d3) \<leftarrow> repeat_until (rtc_again P first_time) d2;
          Some (rtc_convert t b, d3) }"

section \<open>Conversions\<close>

definition bin_to_bcd :: "nat \<Rightarrow> u8" where
  "bin_to_bcd n = of_nat (n div 10 * 16 + n mod 10)"

lemma bcd_table: "\<forall>n \<in> {0..<100}. bcd_to_bin (bin_to_bcd n) = of_nat n"
  by code_simp

lemma bcd_to_bin_bcd: "n < 100 \<Longrightarrow> bcd_to_bin (bin_to_bcd n) = of_nat n"
  using bcd_table by simp


text \<open>A date and time, and how the chip holds it in a given mode (register B: bit 2 set for binary
  numbers, bit 1 set for the 24-hour clock; otherwise bit 7 of the hour is set in the afternoon).\<close>

record date_time =
  dt_year :: nat
  dt_month :: nat
  dt_day :: nat
  dt_hour :: nat
  dt_minute :: nat
  dt_second :: nat

definition valid_time :: "date_time \<Rightarrow> bool" where
  "valid_time t \<longleftrightarrow> dt_year t < 100 \<and> 1 \<le> dt_month t \<and> dt_month t \<le> 12 \<and> 1 \<le> dt_day t \<and> dt_day t \<le> 31 \<and>
     dt_hour t < 24 \<and> dt_minute t < 60 \<and> dt_second t < 60"

definition encode :: "u8 \<Rightarrow> nat \<Rightarrow> u8" where
  "encode b n = (if b AND 0x04 = 0 then bin_to_bcd n else of_nat n)"

definition encode_hour :: "u8 \<Rightarrow> nat \<Rightarrow> u8" where
  "encode_hour b h =
     (if b AND 0x02 \<noteq> 0 then encode b h
      else encode b (if h mod 12 = 0 then 12 else h mod 12) OR (if 12 \<le> h then 0x80 else 0))"

definition clock_shows :: "(u8 \<Rightarrow> u8) \<Rightarrow> date_time \<Rightarrow> bool" where
  "clock_shows regs t \<longleftrightarrow>
     (let b = regs 0x0B in
      regs 0x00 = encode b (dt_second t) \<and> regs 0x02 = encode b (dt_minute t) \<and> regs 0x04 = encode_hour b (dt_hour t) \<and>
      regs 0x07 = encode b (dt_day t) \<and> regs 0x08 = encode b (dt_month t) \<and> regs 0x09 = encode b (dt_year t))"

definition rtc_of :: "date_time \<Rightarrow> rtc_time" where
  "rtc_of t = \<lparr>second = of_nat (dt_second t), minute = of_nat (dt_minute t), hour = of_nat (dt_hour t),
     day = of_nat (dt_day t), month = of_nat (dt_month t), year = 2000 + of_nat (dt_year t)\<rparr>"

definition sample_of :: "(u8 \<Rightarrow> u8) \<Rightarrow> rtc_time" where
  "sample_of regs = \<lparr>second = regs 0x00, minute = regs 0x02, hour = regs 0x04, day = regs 0x07, month = regs 0x08,
     year = ucast (regs 0x09)\<rparr>"

text \<open>The hour that results: right but for the hours 0 and 12 of the 12-hour clock.\<close>

definition read_hour :: "u8 \<Rightarrow> nat \<Rightarrow> nat" where
  "read_hour b h = (if b AND 0x02 = 0 \<and> h mod 12 = 0 then (h + 12) mod 24 else h)"

definition hour_conversion :: "bool \<Rightarrow> bool \<Rightarrow> u8 \<Rightarrow> u8" where
  "hour_conversion bcd h12 v =
     (let v1 = (if bcd then (v AND 0x80) OR bcd_to_bin (v AND 0x7F) else v)
      in if h12 \<and> v1 AND 0x80 \<noteq> 0 then ((v1 AND 0x7F) + 12) mod 24 else v1 AND 0x7F)"

definition hour_register :: "bool \<Rightarrow> bool \<Rightarrow> nat \<Rightarrow> u8" where
  "hour_register bcd h12 h =
     (let e = (\<lambda>n. if bcd then bin_to_bcd n else of_nat n) in
      if \<not> h12 then e h else e (if h mod 12 = 0 then 12 else h mod 12) OR (if 12 \<le> h then 0x80 else 0))"

lemma hour_table:
  "\<forall>h \<in> {0..<24}. \<forall>bcd \<in> {True, False}. \<forall>h12 \<in> {True, False}.
     hour_conversion bcd h12 (hour_register bcd h12 h) = of_nat (if h12 \<and> h mod 12 = 0 then (h + 12) mod 24 else h)"
  by code_simp

lemma rtc_convert_fields:
  "rtc_convert t b =
     \<lparr>second = (if b AND 0x04 = 0 then bcd_to_bin (second t) else second t),
      minute = (if b AND 0x04 = 0 then bcd_to_bin (minute t) else minute t),
      hour = hour_conversion (b AND 0x04 = 0) (b AND 0x02 = 0) (hour t),
      day = (if b AND 0x04 = 0 then bcd_to_bin (day t) else day t),
      month = (if b AND 0x04 = 0 then bcd_to_bin (month t) else month t),
      year = 2000 + (if b AND 0x04 = 0 then ucast (bcd_to_bin (ucast (year t))) else year t)\<rparr>"
  by (simp add: rtc_convert_def hour_conversion_def Let_def)

lemma encode_decoded: "n < 100 \<Longrightarrow> (if b AND 0x04 = 0 then bcd_to_bin (encode b n) else encode b n) = of_nat n"
  by (simp add: encode_def bcd_to_bin_bcd)

lemma rtc_convert_shown:
  assumes "valid_time t" and "clock_shows regs t"
  shows "rtc_convert (sample_of regs) (regs 0x0B) = (rtc_of t)\<lparr>hour := of_nat (read_hour (regs 0x0B) (dt_hour t))\<rparr>"
proof -
  let ?b = "regs 0x0B"
  have v: "dt_second t < 100" "dt_minute t < 100" "dt_day t < 100" "dt_month t < 100" "dt_year t < 100" "dt_hour t < 24"
    using assms(1) by (simp_all add: valid_time_def)
  have r: "regs 0x00 = encode ?b (dt_second t)" "regs 0x02 = encode ?b (dt_minute t)" "regs 0x04 = encode_hour ?b (dt_hour t)"
    "regs 0x07 = encode ?b (dt_day t)" "regs 0x08 = encode ?b (dt_month t)" "regs 0x09 = encode ?b (dt_year t)"
    using assms(2) by (simp_all add: clock_shows_def Let_def)
  have "encode_hour ?b (dt_hour t) = hour_register (?b AND 0x04 = 0) (?b AND 0x02 = 0) (dt_hour t)"
    by (simp add: encode_hour_def hour_register_def encode_def Let_def)
  then have h: "hour_conversion (?b AND 0x04 = 0) (?b AND 0x02 = 0) (regs 0x04) = of_nat (read_hour ?b (dt_hour t))"
    using hour_table v(6) r(3) by (cases "?b AND 0x04 = 0"; cases "?b AND 0x02 = 0") (simp_all add: read_hour_def)
  have cc: "(ucast (ucast c :: u16) :: u8) = c" for c :: u8 by (rule bit_word_eqI) (simp add: bit_simps)
  have y: "(if ?b AND 0x04 = 0 then ucast (bcd_to_bin (ucast (ucast (regs 0x09) :: u16))) else ucast (regs 0x09)) = (of_nat (dt_year t) :: u16)"
  proof -
    have "unat (of_nat (dt_year t) :: u8) = dt_year t" using v(5) by (simp add: unat_of_nat take_bit_eq_mod)
    then have "(ucast (of_nat (dt_year t) :: u8) :: u16) = of_nat (dt_year t)"
      using v(5) by (simp add: word_eq_iff_unsigned [where 'a = nat] unsigned_ucast_eq unat_of_nat take_bit_eq_mod)
    then show ?thesis unfolding cc r(6) using encode_decoded [OF v(5), of ?b] by (auto split: if_splits)
  qed
  show ?thesis
    unfolding rtc_convert_fields sample_of_def rtc_time.select_convs h y
    unfolding r(1,2,4,5) encode_decoded [OF v(1)] encode_decoded [OF v(2)] encode_decoded [OF v(3)] encode_decoded [OF v(4)]
    by (simp add: rtc_of_def)
qed

section \<open>Reading a clock\<close>

text \<open>A chip whose registers do not change while they are read, and that is not updating for ever.\<close>

definition stable_clock :: "'d ports \<Rightarrow> (u8 \<Rightarrow> u8) \<Rightarrow> ('d \<Rightarrow> bool) \<Rightarrow> bool" where
  "stable_clock P regs okd \<longleftrightarrow>
     (\<forall>d reg. okd d \<longrightarrow> okd (snd (cmos_read P reg d)) \<and> (reg \<noteq> 0x0A \<longrightarrow> fst (cmos_read P reg d) = regs reg)) \<and>
     (\<forall>d. okd d \<longrightarrow> (\<exists>n. \<not> fst (rtc_updating P (polled (rtc_updating P) n d))))"

lemma rtc_wait_stable:
  assumes "stable_clock P regs okd" and "okd d"
  shows "\<exists>d'. rtc_wait P d = Some d' \<and> okd d'"
proof -
  let ?t = "\<lambda>d. let (u, d') = rtc_updating P d in (\<not> u, d')"
  have p: "polled ?t n e = polled (rtc_updating P) n e" for n e
    by (induction n arbitrary: e) (simp_all add: polled_Suc split_beta Let_def)
  obtain n where "\<not> fst (rtc_updating P (polled (rtc_updating P) n d))" using assms by (auto simp: stable_clock_def)
  then have "\<exists>n. fst (?t (polled ?t n d))" unfolding p by (auto simp: split_beta Let_def)
  moreover have "okd (snd (?t e))" if "okd e" for e
    using that assms(1) by (simp add: rtc_updating_def stable_clock_def split_beta Let_def)
  ultimately show ?thesis unfolding rtc_wait_def using poll_keeps [of ?t d okd] assms(2) by blast
qed

lemma rtc_sample_stable:
  assumes "stable_clock P regs okd" and "okd d"
  shows "\<exists>d'. rtc_sample P d = ((sample_of regs, regs 0x0B), d') \<and> okd d'"
  using assms by (simp add: rtc_sample_def sample_of_def stable_clock_def split_beta Let_def)

lemma rtc_read_stable:
  assumes "stable_clock P regs okd" and "okd d"
  shows "\<exists>d'. rtc_read_time P d = Some (rtc_convert (sample_of regs) (regs 0x0B), d') \<and> okd d'"
proof -
  obtain d1 where d1: "rtc_wait P d = Some d1" "okd d1" using rtc_wait_stable [OF assms] by blast
  obtain d2 where d2: "rtc_sample P d1 = ((sample_of regs, regs 0x0B), d2)" "okd d2"
    using rtc_sample_stable [OF assms(1) d1(2)] by blast
  obtain d3 where d3: "rtc_wait P d2 = Some d3" "okd d3" using rtc_wait_stable [OF assms(1) d2(2)] by blast
  obtain d4 where d4: "rtc_sample P d3 = ((sample_of regs, regs 0x0B), d4)" "okd d4"
    using rtc_sample_stable [OF assms(1) d3(2)] by blast
  have "repeat_until (rtc_again P (sample_of regs)) d2 = Some ((sample_of regs, regs 0x0B), d4)"
    by (rule repeat_until_hit) (simp add: rtc_again_def d3 d4)
  then show ?thesis using d1 d2 d4(2) by (simp add: rtc_read_time_def)
qed

lemma rtc_again_equal:
  "rtc_again P x d = do { d1 \<leftarrow> rtc_wait P d;
     let ((y, b), d2) = rtc_sample P d1; Some (if y = x then Some (y, b) else None, d2) }"
proof -
  have "(second x \<noteq> second y \<or> minute x \<noteq> minute y \<or> hour x \<noteq> hour y \<or> day x \<noteq> day y \<or> month x \<noteq> month y \<or>
      year x \<noteq> year y) \<longleftrightarrow> y \<noteq> x" for y :: rtc_time
    by (cases x, cases y) auto
  then show ?thesis by (cases "rtc_wait P d") (auto simp: rtc_again_def split_beta Let_def)
qed

section \<open>A chip for the examples\<close>

text \<open>The registers at each time, where the time is the number of reads so far; and the index register.\<close>

definition chip_ports :: "(nat \<Rightarrow> u8 \<Rightarrow> u8) \<Rightarrow> (u8 \<times> nat) ports" where
  "chip_ports regs =
     \<lparr>inb = (\<lambda>p (r, n). if p = 0x71 then (regs n r, (r, n + 1)) else (0xFF, (r, n))),
      outb = (\<lambda>p v (r, n). if p = 0x70 then (v, n) else (r, n)),
      inl = (\<lambda>p s. (0, s)), outl = (\<lambda>p v s. s)\<rparr>"

lemma chip_read [simp]: "cmos_read (chip_ports regs) reg (r, n) = (regs n reg, (reg, n + 1))"
  by (simp add: cmos_read_def chip_ports_def)

definition noon_registers :: "u8 \<Rightarrow> u8" where
  "noon_registers r =
     (if r = 0x00 then 0x59 else if r = 0x02 then 0x30 else if r = 0x04 then 0x11 else if r = 0x07 then 0x28
      else if r = 0x08 then 0x02 else if r = 0x09 then 0x24 else if r = 0x0B then 0x02 else 0)"

lemma chip_stable:
  assumes "regs 0x0A = 0"
  shows "stable_clock (chip_ports (\<lambda>_. regs)) regs (\<lambda>_. True)"
  unfolding stable_clock_def
proof (intro conjI allI impI)
  let ?P = "chip_ports (\<lambda>_. regs)"
  fix d :: "u8 \<times> nat"
  show "\<exists>n. \<not> fst (rtc_updating ?P (polled (rtc_updating ?P) n d))"
    using assms by (cases d) (intro exI [of _ 0], simp add: rtc_updating_def)
  fix reg show "fst (cmos_read ?P reg d) = regs reg" by (cases d) simp
qed simp

section \<open>Properties\<close>

text \<open>Reading a clock that shows a date and time returns exactly it, in binary and in BCD mode,
  with the 24-hour clock and, but for the hours 0 and 12, with the 12-hour clock; in particular the
  waits and the comparison end.\<close>

lemma rtc_read_correct:
  assumes "stable_clock P regs okd" and "okd d" and "valid_time t" and "clock_shows regs t"
    and "regs 0x0B AND 0x02 \<noteq> 0 \<or> dt_hour t mod 12 \<noteq> 0"
  shows "\<exists>d'. rtc_read_time P d = Some (rtc_of t, d') \<and> okd d'"
proof -
  have "read_hour (regs 0x0B) (dt_hour t) = dt_hour t" using assms(5) by (auto simp: read_hour_def)
  then show ?thesis
    using rtc_read_stable [OF assms(1,2)] rtc_convert_shown [OF assms(3,4)] by (simp add: rtc_of_def)
qed

text \<open>With the 12-hour clock, an hour after midnight is read as the hour after noon and an hour
  after noon as the hour after midnight: the code adds 12 to the afternoon hour 12 and leaves the
  morning hour 12 as it is.\<close>

lemma rtc_twelve_swapped:
  assumes "stable_clock P regs okd" and "okd d" and "valid_time t" and "clock_shows regs t"
    and "regs 0x0B AND 0x02 = 0" and "dt_hour t mod 12 = 0"
  shows "\<exists>r d'. rtc_read_time P d = Some (r, d') \<and> hour r = (if dt_hour t = 0 then 12 else 0)"
proof -
  have "dt_hour t < 24" using assms(3) by (simp add: valid_time_def)
  then have "dt_hour t = 0 \<or> dt_hour t = 12" using assms(6) by (auto elim!: dvdE simp: mod_eq_0_iff_dvd)
  then have "of_nat (read_hour (regs 0x0B) (dt_hour t)) = (if dt_hour t = 0 then 12 else 0 :: u8)"
    using assms(5) by (auto simp: read_hour_def)
  then show ?thesis
    using rtc_read_stable [OF assms(1,2)] rtc_convert_shown [OF assms(3,4)] by auto
qed

text \<open>C33: the first sample is never taken again: when the clock has moved on between the first sample
  and all later ones, \<open>rtc_read_time\<close> does not return.\<close>

theorem rtc_read_livelock:
  assumes "rtc_wait P d = Some d1" and "rtc_sample P d1 = ((x, b), d2)" and "moved d2"
    and "\<And>e. moved e \<Longrightarrow> \<exists>e' y b' e''. rtc_wait P e = Some e' \<and> rtc_sample P e' = ((y, b'), e'') \<and> y \<noteq> x \<and> moved e''"
  shows "rtc_read_time P d = None"
proof -
  have "repeat_until (rtc_again P x) d2 = None"
  proof (rule repeat_until_diverges [where I = moved])
    fix e assume "moved e"
    from assms(4) [OF this] show "\<exists>e'. rtc_again P x e = Some (None, e') \<and> moved e'"
      by (auto simp: rtc_again_equal)
  qed (rule assms(3))
  then show ?thesis using assms(1,2) by (simp add: rtc_read_time_def)
qed

theorem rtc_read_livelock_witness:
  "rtc_read_time (chip_ports (\<lambda>n r. if r = 0 \<and> 8 \<le> n then 1 else 0)) (0, 0) = None"
proof -
  let ?regs = "\<lambda>n (r :: u8). if r = 0 \<and> 8 \<le> n then 1 else 0 :: u8"
  let ?P = "chip_ports ?regs"
  let ?z = "\<lparr>second = 0, minute = 0, hour = 0, day = 0, month = 0, year = 0\<rparr>"
  have w: "rtc_wait ?P (r, n) = Some (0x0A, n + 1)" for r n
    unfolding rtc_wait_def by (subst poll_step) (simp add: rtc_updating_def)
  show ?thesis
  proof (rule rtc_read_livelock [where moved = "\<lambda>(r, n). 8 \<le> n" and x = ?z and b = 0])
    show "rtc_wait ?P (0, 0) = Some (0x0A, 1)" using w [of 0 0] by simp
    show "rtc_sample ?P (0x0A, 1) = ((?z, 0), (0x0B, 8))" by (simp add: rtc_sample_def)
    show "case (0x0B, 8) of (r, n) \<Rightarrow> (8::nat) \<le> n" by simp
  next
    fix e :: "u8 \<times> nat" assume "case e of (r, n) \<Rightarrow> 8 \<le> n"
    then obtain r n where e: "e = (r, n)" "8 \<le> n" by (cases e) simp
    have "rtc_sample ?P (0x0A, n + 1) = ((?z\<lparr>second := 1\<rparr>, 0), (0x0B, n + 8))" using e(2) by (simp add: rtc_sample_def)
    then show "\<exists>e' y b' e''. rtc_wait ?P e = Some e' \<and> rtc_sample ?P e' = ((y, b'), e'') \<and> y \<noteq> ?z \<and>
        (case e'' of (r, n) \<Rightarrow> 8 \<le> n)"
      using w [of r n] e by (intro exI [of _ "(0x0A, n + 1)"] exI [of _ "?z\<lparr>second := 1\<rparr>"] exI [of _ 0] exI [of _ "(0x0B, n + 8)"]) simp
  qed
qed


end
