(* ===== verification/Pci.thy ===== *)
theory Pci
  imports Ports "HOL-Library.Product_Lexorder"
begin

text \<open>
  \<open>src/pci.c\<close>: access to the PCI configuration space through the ports 0xCF8 and 0xCFC, and the
  enumeration of the functions that are present.
\<close>

section \<open>The program\<close>

record pci_device =
  bus :: u8
  slot :: u8
  func :: u8
  vendor_id :: u16
  device_id :: u16
  class_code :: u8
  subclass_code :: u8
  prog_if :: u8
  header_type :: u8

definition pci_config_address :: "u8 \<Rightarrow> u8 \<Rightarrow> u8 \<Rightarrow> u8 \<Rightarrow> u32" where
  "pci_config_address b s f offset =
     push_bit 31 1 OR push_bit 16 (ucast b) OR push_bit 11 (ucast s) OR push_bit 8 (ucast f) OR (ucast offset AND 0xFC)"

abbreviation (input) PCI_CONFIG_ADDRESS_PORT :: u16 where "PCI_CONFIG_ADDRESS_PORT \<equiv> 0xCF8"
abbreviation (input) PCI_CONFIG_DATA_PORT :: u16 where "PCI_CONFIG_DATA_PORT \<equiv> 0xCFC"

definition pci_config_read32 :: "'d ports \<Rightarrow> u8 \<Rightarrow> u8 \<Rightarrow> u8 \<Rightarrow> u8 \<Rightarrow> 'd \<Rightarrow> u32 \<times> 'd" where
  "pci_config_read32 P b s f offset d = inl P PCI_CONFIG_DATA_PORT (outl P PCI_CONFIG_ADDRESS_PORT (pci_config_address b s f offset) d)"

definition pci_config_read16 :: "'d ports \<Rightarrow> u8 \<Rightarrow> u8 \<Rightarrow> u8 \<Rightarrow> u8 \<Rightarrow> 'd \<Rightarrow> u16 \<times> 'd" where
  "pci_config_read16 P b s f offset d =
     (let (value, d') = pci_config_read32 P b s f offset d
      in (ucast (drop_bit (unat ((offset AND 2) * 8)) value AND 0xFFFF), d'))"

text \<open>\<open>pci_fill_device\<close>: what it stores.\<close>

definition pci_fill_device :: "'d ports \<Rightarrow> u8 \<Rightarrow> u8 \<Rightarrow> u8 \<Rightarrow> 'd \<Rightarrow> pci_device \<times> 'd" where
  "pci_fill_device P b s f d =
     (let (id', d) = pci_config_read32 P b s f 0x00 d;
          (class_reg, d) = pci_config_read32 P b s f 0x08 d;
          (header_reg, d) = pci_config_read32 P b s f 0x0C d
      in (\<lparr>bus = b, slot = s, func = f,
           vendor_id = ucast (id' AND 0xFFFF), device_id = ucast (drop_bit 16 id'),
           class_code = ucast (drop_bit 24 class_reg AND 0xFF), subclass_code = ucast (drop_bit 16 class_reg AND 0xFF),
           prog_if = ucast (drop_bit 8 class_reg AND 0xFF),
           header_type = ucast (drop_bit 16 header_reg AND 0xFF)\<rparr>, d))"

text \<open>The state of the enumeration: the array, the counter, the device behind the ports.\<close>

type_synonym 'd pci_scan = "pci_device list \<times> u8 \<times> 'd"

text \<open>\<open>pci_fill_device(&devices[count++], ...)\<close>.\<close>

definition pci_store :: "'d ports \<Rightarrow> u8 \<Rightarrow> u8 \<Rightarrow> u8 \<Rightarrow> 'd pci_scan \<Rightarrow> 'd pci_scan option" where
  "pci_store P b s f = (\<lambda>(devices, count, d).
     let (dv, d') = pci_fill_device P b s f d in
     do { devices' \<leftarrow> wr devices (unat count) dv; Some (devices', count + 1, d') })"

definition pci_scan_function :: "'d ports \<Rightarrow> u8 \<Rightarrow> u8 \<Rightarrow> nat \<Rightarrow> 'd pci_scan \<Rightarrow> 'd pci_scan option" where
  "pci_scan_function P b s f = (\<lambda>(devices, count, d).
     let (vendor, d') = pci_config_read16 P b s (of_nat f) 0x00 d in
     if vendor = 0xFFFF then Some (devices, count, d') else pci_store P b s (of_nat f) (devices, count, d'))"

definition pci_scan_slot :: "'d ports \<Rightarrow> u8 \<Rightarrow> u8 \<Rightarrow> nat \<Rightarrow> 'd pci_scan \<Rightarrow> 'd pci_scan option" where
  "pci_scan_slot P max_devices b s = (\<lambda>(devices, count, d).
     let (vendor, d1) = pci_config_read16 P b (of_nat s) 0 0x00 d in
     if vendor = 0xFFFF then Some (devices, count, d1)
     else do {
       (devices2, count2, d2) \<leftarrow> pci_store P b (of_nat s) 0 (devices, count, d1);
       let (header_reg, d3) = pci_config_read32 P b (of_nat s) 0 0x0C d2;
       let htype = (ucast (drop_bit 16 header_reg AND 0xFF) :: u8);
       if htype AND 0x80 = 0 then Some (devices2, count2, d3)
       else for_while 1 8 (\<lambda>(_, count, _). count < max_devices) (pci_scan_function P b (of_nat s)) (devices2, count2, d3) })"

definition pci_scan_bus :: "'d ports \<Rightarrow> u8 \<Rightarrow> nat \<Rightarrow> 'd pci_scan \<Rightarrow> 'd pci_scan option" where
  "pci_scan_bus P max_devices b =
     for_while 0 32 (\<lambda>(_, count, _). count < max_devices) (pci_scan_slot P max_devices (of_nat b))"

text \<open>\<open>devices\<close> is the array, or \<open>None\<close> for a null pointer.\<close>

definition pci_enumerate :: "'d ports \<Rightarrow> pci_device list option \<Rightarrow> u8 \<Rightarrow> 'd \<Rightarrow> (u8 \<times> pci_device list option \<times> 'd) option" where
  "pci_enumerate P devices max_devices d =
     (case devices of
        None \<Rightarrow> Some (0, None, d)
      | Some a \<Rightarrow>
          if max_devices = 0 then Some (0, Some a, d)
          else do {
            (a', count, d') \<leftarrow> for_while 0 256 (\<lambda>(_, count, _). count < max_devices) (pci_scan_bus P max_devices) (a, 0, d);
            Some (count, Some a', d') })"

definition pci_class_name :: "u8 \<Rightarrow> u8 \<Rightarrow> string" where
  "pci_class_name cc sc =
     (if cc = 0x01 then
        (if sc = 0x01 then ''IDE storage'' else if sc = 0x06 then ''SATA storage'' else ''Mass storage'')
      else if cc = 0x02 then ''Network controller''
      else if cc = 0x03 then ''Display controller''
      else if cc = 0x04 then ''Multimedia controller''
      else if cc = 0x06 then
        (if sc = 0x00 then ''Host bridge'' else if sc = 0x01 then ''ISA bridge''
         else if sc = 0x04 then ''PCI bridge'' else ''Bridge device'')
      else if cc = 0x0C then
        (if sc = 0x03 then ''USB controller'' else ''Serial bus controller'')
      else ''Unknown device'')"


section \<open>The configuration space\<close>

text \<open>A host bridge that answers a read of the data port with the register \<open>cfg\<close> of the address
  that was written before.\<close>

definition config_space :: "'d ports \<Rightarrow> (u32 \<Rightarrow> u32) \<Rightarrow> ('d \<Rightarrow> bool) \<Rightarrow> bool" where
  "config_space P cfg okd \<longleftrightarrow>
     (\<forall>d a. okd d \<longrightarrow> fst (inl P 0xCFC (outl P 0xCF8 a d)) = cfg a \<and> okd (snd (inl P 0xCFC (outl P 0xCF8 a d))))"

abbreviation reg :: "(u32 \<Rightarrow> u32) \<Rightarrow> u8 \<Rightarrow> u8 \<Rightarrow> u8 \<Rightarrow> u8 \<Rightarrow> u32" where
  "reg cfg b s f offset \<equiv> cfg (pci_config_address b s f offset)"

lemma read32_spec:
  assumes "config_space P cfg okd" and "okd d"
  shows "\<exists>d'. pci_config_read32 P b s f offset d = (reg cfg b s f offset, d') \<and> okd d'"
  using assms unfolding pci_config_read32_def config_space_def
  by (intro exI [of _ "snd (inl P 0xCFC (outl P 0xCF8 (pci_config_address b s f offset) d))"])
    (simp add: prod_eq_iff)

section \<open>What is present\<close>

definition pci_vendor :: "(u32 \<Rightarrow> u32) \<Rightarrow> u8 \<Rightarrow> u8 \<Rightarrow> u8 \<Rightarrow> u16" where
  "pci_vendor cfg b s f = ucast (reg cfg b s f 0 AND 0xFFFF)"

definition describe :: "(u32 \<Rightarrow> u32) \<Rightarrow> u8 \<Rightarrow> u8 \<Rightarrow> u8 \<Rightarrow> pci_device" where
  "describe cfg b s f =
     \<lparr>bus = b, slot = s, func = f,
      vendor_id = pci_vendor cfg b s f, device_id = ucast (drop_bit 16 (reg cfg b s f 0)),
      class_code = ucast (drop_bit 24 (reg cfg b s f 8) AND 0xFF), subclass_code = ucast (drop_bit 16 (reg cfg b s f 8) AND 0xFF),
      prog_if = ucast (drop_bit 8 (reg cfg b s f 8) AND 0xFF),
      header_type = ucast (drop_bit 16 (reg cfg b s f 12) AND 0xFF)\<rparr>"

text \<open>A function is there when its vendor is not 0xFFFF; functions 1 to 7 of a slot count only when
  function 0 is there and its header says that there are several.\<close>

definition present_at :: "(u32 \<Rightarrow> u32) \<Rightarrow> u8 \<Rightarrow> u8 \<Rightarrow> nat \<Rightarrow> pci_device list" where
  "present_at cfg b s f = (if pci_vendor cfg b s (of_nat f) = 0xFFFF then [] else [describe cfg b s (of_nat f)])"

definition multi_function :: "(u32 \<Rightarrow> u32) \<Rightarrow> u8 \<Rightarrow> u8 \<Rightarrow> bool" where
  "multi_function cfg b s \<longleftrightarrow> header_type (describe cfg b s 0) AND 0x80 \<noteq> 0"

definition slot_functions :: "(u32 \<Rightarrow> u32) \<Rightarrow> u8 \<Rightarrow> nat \<Rightarrow> pci_device list" where
  "slot_functions cfg b s =
     (if pci_vendor cfg b (of_nat s) 0 = 0xFFFF then []
      else describe cfg b (of_nat s) 0 #
        (if multi_function cfg b (of_nat s) then concat (map (present_at cfg b (of_nat s)) [1..<8]) else []))"

definition all_functions :: "(u32 \<Rightarrow> u32) \<Rightarrow> pci_device list" where
  "all_functions cfg = concat (map (\<lambda>b. concat (map (slot_functions cfg (of_nat b)) [0..<32])) [0..<256])"

section \<open>The enumeration\<close>

text \<open>The invariant: the devices found so far are at the front of the array, and counted.\<close>

definition scan_ok :: "('d \<Rightarrow> bool) \<Rightarrow> u8 \<Rightarrow> pci_device list \<Rightarrow> 'd pci_scan \<Rightarrow> pci_device list \<Rightarrow> bool" where
  "scan_ok okd mx a s xs \<longleftrightarrow> (case s of (devices, count, d) \<Rightarrow>
     devices = xs @ drop (length xs) a \<and> count = of_nat (length xs) \<and> length xs \<le> unat mx \<and> unat mx \<le> length a \<and> okd d)"

lemma scan_ok_room: "scan_ok okd mx a (devices, count, d) xs \<Longrightarrow> count < mx \<longleftrightarrow> length xs < unat mx"
proof -
  assume "scan_ok okd mx a (devices, count, d) xs"
  then have c: "count = of_nat (length xs)" "length xs \<le> unat mx" by (simp_all add: scan_ok_def)
  have "unat mx < 256" using unsigned_less [of mx, where 'a = nat] by simp
  then have "unat count = length xs" using c by (simp add: unat_of_nat take_bit_eq_mod)
  then show ?thesis by (simp add: word_less_nat_alt)
qed

lemma scan_ok_room': "scan_ok okd mx a s xs \<Longrightarrow> (case s of (_, count, _) \<Rightarrow> count < mx) \<longleftrightarrow> length xs < unat mx"
  using scan_ok_room by (cases s) fastforce

lemma fill_spec:
  assumes "config_space P cfg okd" and "okd d"
  shows "\<exists>d'. pci_fill_device P b s f d = (describe cfg b s f, d') \<and> okd d'"
proof -
  obtain d1 where d1: "pci_config_read32 P b s f 0 d = (reg cfg b s f 0, d1)" "okd d1" using read32_spec [OF assms] by blast
  obtain d2 where d2: "pci_config_read32 P b s f 8 d1 = (reg cfg b s f 8, d2)" "okd d2"
    using read32_spec [OF assms(1) d1(2)] by blast
  obtain d3 where d3: "pci_config_read32 P b s f 0x0C d2 = (reg cfg b s f 0x0C, d3)" "okd d3"
    using read32_spec [OF assms(1) d2(2)] by blast
  show ?thesis using d1 d2 d3 by (simp add: pci_fill_device_def describe_def pci_vendor_def)
qed

lemma vendor_spec:
  assumes "config_space P cfg okd" and "okd d"
  shows "\<exists>d'. pci_config_read16 P b s f 0 d = (pci_vendor cfg b s f, d') \<and> okd d'"
  using read32_spec [OF assms, of b s f 0] by (auto simp: pci_config_read16_def pci_vendor_def)

lemma store_spec:
  assumes "config_space P cfg okd" and "scan_ok okd mx a st xs" and "length xs < unat mx"
  shows "\<exists>st'. pci_store P b s f st = Some st' \<and> scan_ok okd mx a st' (xs @ [describe cfg b s f])"
proof -
  obtain devices count d where st: "st = (devices, count, d)" by (cases st)
  then have ok: "devices = xs @ drop (length xs) a" "count = of_nat (length xs)" "unat mx \<le> length a" "okd d"
    using assms(2) by (simp_all add: scan_ok_def)
  obtain d' where d': "pci_fill_device P b s f d = (describe cfg b s f, d')" "okd d'" using fill_spec [OF assms(1) ok(4)] by blast
  have "unat mx < 256" using unsigned_less [of mx, where 'a = nat] by simp
  then have u: "unat count = length xs" using ok(2) assms(3) by (simp add: unat_of_nat take_bit_eq_mod)
  have "devices[length xs := describe cfg b s f] = (xs @ [describe cfg b s f]) @ drop (Suc (length xs)) a"
    using ok(1,3) assms(3) by (simp add: list_update_append Cons_nth_drop_Suc [symmetric])
  moreover have "length xs < length devices" using ok(1,3) assms(3) by simp
  ultimately show ?thesis using d' ok u assms(3) unfolding st by (simp add: pci_store_def scan_ok_def)
qed

lemma scan_function_spec:
  assumes "config_space P cfg okd" and "scan_ok okd mx a st xs" and "length xs < unat mx"
  shows "\<exists>st'. pci_scan_function P b s f st = Some st' \<and> scan_ok okd mx a st' (take (unat mx) (xs @ present_at cfg b s f))"
proof -
  obtain devices count d where st: "st = (devices, count, d)" by (cases st)
  then have "okd d" using assms(2) by (simp add: scan_ok_def)
  then obtain d1 where d1: "pci_config_read16 P b s (of_nat f) 0 d = (pci_vendor cfg b s (of_nat f), d1)" "okd d1"
    using vendor_spec [OF assms(1)] by blast
  have ok: "scan_ok okd mx a (devices, count, d1) xs" using assms(2) d1(2) by (simp add: scan_ok_def st)
  show ?thesis
  proof (cases "pci_vendor cfg b s (of_nat f) = 0xFFFF")
    case True
    then show ?thesis using d1 ok assms(3) by (simp add: pci_scan_function_def st present_at_def)
  next
    case False
    have "take (unat mx) (xs @ [describe cfg b s (of_nat f)]) = xs @ [describe cfg b s (of_nat f)]" using assms(3) by simp
    then show ?thesis
      using store_spec [OF assms(1) ok assms(3), of b s "of_nat f"] d1 False
      by (simp add: pci_scan_function_def st present_at_def del: take_append)
  qed
qed

lemma scan_slot_spec:
  assumes "config_space P cfg okd" and "scan_ok okd mx a st xs" and "length xs < unat mx"
  shows "\<exists>st'. pci_scan_slot P mx b s st = Some st' \<and> scan_ok okd mx a st' (take (unat mx) (xs @ slot_functions cfg b s))"
proof -
  obtain devices count d where st: "st = (devices, count, d)" by (cases st)
  then have "okd d" using assms(2) by (simp add: scan_ok_def)
  then obtain d1 where d1: "pci_config_read16 P b (of_nat s) 0 0 d = (pci_vendor cfg b (of_nat s) 0, d1)" "okd d1"
    using vendor_spec [OF assms(1)] by blast
  have ok: "scan_ok okd mx a (devices, count, d1) xs" using assms(2) d1(2) by (simp add: scan_ok_def st)
  show ?thesis
  proof (cases "pci_vendor cfg b (of_nat s) 0 = 0xFFFF")
    case True
    then show ?thesis using d1 ok assms(3) by (simp add: pci_scan_slot_def st slot_functions_def)
  next
    case False
    let ?dv = "describe cfg b (of_nat s) 0" and ?b = "of_nat s :: u8"
    have fit: "take (unat mx) (xs @ [?dv]) = xs @ [?dv]" using assms(3) by simp
    obtain devices2 count2 d2 where st2: "pci_store P b ?b 0 (devices, count, d1) = Some (devices2, count2, d2)"
        "scan_ok okd mx a (devices2, count2, d2) (xs @ [?dv])"
      using store_spec [OF assms(1) ok assms(3), of b ?b 0] by auto
    then have "okd d2" by (simp add: scan_ok_def)
    then obtain d3 where d3: "pci_config_read32 P b ?b 0 0x0C d2 = (reg cfg b ?b 0 0x0C, d3)" "okd d3"
      using read32_spec [OF assms(1)] by blast
    have ok3: "scan_ok okd mx a (devices2, count2, d3) (xs @ [?dv])" using st2(2) d3(2) by (simp add: scan_ok_def)
    have h: "header_type ?dv = ucast (drop_bit 16 (reg cfg b ?b 0 0x0C) AND 0xFF)" by (simp add: describe_def)
    let ?loop = "for_while 1 8 (\<lambda>(_, count, _). count < mx) (pci_scan_function P b ?b)"
    have run: "pci_scan_slot P mx b s st =
        (if multi_function cfg b ?b then ?loop (devices2, count2, d3) else Some (devices2, count2, d3))"
      using d1 st2(1) d3(1) False by (simp add: pci_scan_slot_def st Let_def multi_function_def h)
    show ?thesis
    proof (cases "multi_function cfg b ?b")
      case single: False
      then show ?thesis using run ok3 fit False by (simp add: slot_functions_def del: take_append)
    next
      case True
      have le: "length (xs @ [?dv]) \<le> unat mx" using assms(3) by simp
      have "\<exists>st'. ?loop (devices2, count2, d3) = Some st' \<and>
          scan_ok okd mx a st' (take (unat mx) ((xs @ [?dv]) @ concat (map (present_at cfg b ?b) [1..<8])))"
        by (rule for_while_bounded [where I = "scan_ok okd mx a", OF ok3 le])
          (rule scan_ok_room', assumption, rule scan_function_spec [OF assms(1)])
      then show ?thesis using run True False by (simp add: slot_functions_def del: take_append upt_conv_Cons)
    qed
  qed
qed

lemma enumerate_spec:
  assumes "config_space P cfg okd" and "okd d" and "unat mx \<le> length a"
  shows "\<exists>d' count. for_while 0 256 (\<lambda>(_, count, _). count < mx) (pci_scan_bus P mx) (a, 0, d) =
      Some (take (unat mx) (all_functions cfg) @ drop (length (take (unat mx) (all_functions cfg))) a, count, d') \<and>
    count = of_nat (length (take (unat mx) (all_functions cfg))) \<and> okd d'"
proof -
  have ok: "scan_ok okd mx a (a, 0, d) []" using assms by (simp add: scan_ok_def)
  have bus: "\<exists>s'. pci_scan_bus P mx b s = Some s' \<and>
      scan_ok okd mx a s' (take (unat mx) (xs @ concat (map (slot_functions cfg (of_nat b)) [0..<32])))"
    if "scan_ok okd mx a s xs" "length xs < unat mx" for b s xs
    unfolding pci_scan_bus_def
    by (rule for_while_bounded [where I = "scan_ok okd mx a", OF that(1) less_imp_le [OF that(2)]])
      (rule scan_ok_room', assumption, rule scan_slot_spec [OF assms(1)])
  have "\<exists>s'. for_while 0 256 (\<lambda>(_, count, _). count < mx) (pci_scan_bus P mx) (a, 0, d) = Some s' \<and>
      scan_ok okd mx a s' (take (unat mx) ([] @ concat (map (\<lambda>b. concat (map (slot_functions cfg (of_nat b)) [0..<32])) [0..<256])))"
    by (rule for_while_bounded [where I = "scan_ok okd mx a", OF ok])
      (simp, rule scan_ok_room', assumption, rule bus)
  then show ?thesis by (auto simp: scan_ok_def all_functions_def [symmetric])
qed

section \<open>The order of the functions\<close>

text \<open>Descriptors are ordered by address first: bus, slot and function, then the contents.\<close>

definition pci_key :: "('z :: linorder) pci_device_scheme \<Rightarrow> (u8 \<times> u8 \<times> u8) \<times> (u16 \<times> u16) \<times> (u8 \<times> u8 \<times> u8 \<times> u8) \<times> 'z" where
  "pci_key d = ((bus d, slot d, func d), (vendor_id d, device_id d),
     (class_code d, subclass_code d, prog_if d, header_type d), pci_device.more d)"

lemma pci_key_inject: "pci_key d = pci_key e \<longleftrightarrow> d = e"
  by (cases d, cases e) (auto simp: pci_key_def)

instantiation pci_device_ext :: (linorder) linorder
begin

definition less_eq_pci_device_ext :: "'a pci_device_ext \<Rightarrow> 'a pci_device_ext \<Rightarrow> bool" where
  "less_eq_pci_device_ext d e \<longleftrightarrow> pci_key d \<le> pci_key e"

definition less_pci_device_ext :: "'a pci_device_ext \<Rightarrow> 'a pci_device_ext \<Rightarrow> bool" where
  "less_pci_device_ext d e \<longleftrightarrow> pci_key d < pci_key e"

instance
  by standard (auto simp: less_eq_pci_device_ext_def less_pci_device_ext_def pci_key_inject [symmetric])

end

lemma less_by_address: "(bus d, slot d, func d) < (bus e, slot e, func e) \<Longrightarrow> d < (e :: pci_device)"
  by (simp add: less_pci_device_ext_def pci_key_def)

lemma of_nat_less_u8: "i < j \<Longrightarrow> j < 256 \<Longrightarrow> (of_nat i :: u8) < of_nat j"
  by (simp add: word_less_nat_alt unat_of_nat take_bit_eq_mod)

lemma sorted_concat_upt:
  assumes "\<And>i. a \<le> i \<Longrightarrow> i < n \<Longrightarrow> sorted_wrt R (f i)"
    and "\<And>i j x y. a \<le> i \<Longrightarrow> i < j \<Longrightarrow> j < n \<Longrightarrow> x \<in> set (f i) \<Longrightarrow> y \<in> set (f j) \<Longrightarrow> R x y"
  shows "sorted_wrt R (concat (map f [a..<n]))"
  using assms
proof (induction "n - a" arbitrary: a)
  case (Suc k)
  then have "a < n" by simp
  moreover have "sorted_wrt R (concat (map f [Suc a..<n]))"
    using Suc(2) by (intro Suc(1)) (simp, (rule Suc(3) Suc(4); simp)+)
  moreover have "R x y" if x: "x \<in> set (f a)" and y: "y \<in> set (concat (map f [Suc a..<n]))" for x y
  proof -
    obtain j where "Suc a \<le> j" "j < n" "y \<in> set (f j)" using y by auto
    then show ?thesis using Suc(4) [of a j x y] x by simp
  qed
  moreover have "sorted_wrt R (f a)" using Suc(3) \<open>a < n\<close> by simp
  ultimately show ?case by (simp add: upt_conv_Cons sorted_wrt_append del: set_concat)
qed simp

lemma slot_functions_address:
  "d \<in> set (slot_functions cfg b s) \<Longrightarrow> bus d = b \<and> slot d = of_nat s"
  by (auto simp: slot_functions_def present_at_def describe_def split: if_splits)

lemma slot_functions_sorted: "sorted_wrt (<) (slot_functions cfg b s)"
proof -
  have f: "d = describe cfg b (of_nat s) (of_nat i)" if "d \<in> set (present_at cfg b (of_nat s) i)" for d i
    using that by (simp add: present_at_def split: if_splits)
  have less: "describe cfg b (of_nat s) (of_nat i) < describe cfg b (of_nat s) (of_nat j)" if "i < j" "j < 8" for i j
    using of_nat_less_u8 [of i j] that by (intro less_by_address) (simp add: describe_def)
  have "sorted_wrt (<) (concat (map (present_at cfg b (of_nat s)) [1..<8]))"
    by (rule sorted_concat_upt) (use less in \<open>auto simp: present_at_def split: if_splits\<close>)
  moreover have "describe cfg b (of_nat s) 0 < d" if "d \<in> set (concat (map (present_at cfg b (of_nat s)) [1..<8]))" for d
  proof -
    have "\<exists>i. 1 \<le> i \<and> i < 8 \<and> d \<in> set (present_at cfg b (of_nat s) i)"
      using that unfolding set_concat set_map set_upt by fastforce
    then obtain i where "1 \<le> i" "i < 8" "d \<in> set (present_at cfg b (of_nat s) i)" by blast
    then show ?thesis using f less [of 0 i] by simp
  qed
  ultimately show ?thesis by (simp add: slot_functions_def del: set_concat)
qed

text \<open>No function is listed twice, and the list is in the order of the addresses.\<close>

lemma all_functions_sorted: "sorted_wrt (<) (all_functions cfg)"
  unfolding all_functions_def
proof (rule sorted_concat_upt)
  fix b :: nat
  show "sorted_wrt (<) (concat (map (slot_functions cfg (of_nat b)) [0..<32]))"
  proof (rule sorted_concat_upt)
    fix i j x y
    assume "i < j" "j < 32" "x \<in> set (slot_functions cfg (of_nat b) i)" "y \<in> set (slot_functions cfg (of_nat b) j)"
    then show "x < y" using of_nat_less_u8 [of i j] by (intro less_by_address) (simp add: slot_functions_address)
  qed (rule slot_functions_sorted)
next
  fix i j :: nat and x y
  assume ij: "i < j" "j < 256" and "x \<in> set (concat (map (slot_functions cfg (of_nat i)) [0..<32]))"
    and "y \<in> set (concat (map (slot_functions cfg (of_nat j)) [0..<32]))"
  then have "bus x = of_nat i" "bus y = of_nat j" by (auto dest: slot_functions_address)
  then show "x < y" using of_nat_less_u8 [OF ij] by (intro less_by_address) simp
qed

section \<open>Addresses\<close>

lemma not_bit_small: "unat (x :: u8) < 2 ^ n \<Longrightarrow> n \<le> i \<Longrightarrow> \<not> bit x i"
proof -
  assume "unat x < 2 ^ n" "n \<le> i"
  then have "unat (take_bit n x) = unat x" unfolding unsigned_take_bit_eq by (simp add: take_bit_nat_eq_self)
  then have "take_bit n x = x" by (simp only: word_eq_iff_unsigned [where 'a = nat])
  then show ?thesis using \<open>n \<le> i\<close> by (metis bit_take_bit_iff not_less)
qed

lemma address_bits:
  "bit (pci_config_address b s f offset) n \<longleftrightarrow>
     n = 31 \<or> 16 \<le> n \<and> n < 32 \<and> bit b (n - 16) \<or> 11 \<le> n \<and> n < 32 \<and> bit s (n - 11) \<or> 8 \<le> n \<and> n < 32 \<and> bit f (n - 8) \<or>
     bit offset n \<and> 2 \<le> n \<and> n < 8"
proof -
  have m: "(0xFC :: u32) = mask 8 AND NOT (mask 2)" by (simp add: mask_numeral)
  have c: "bit (0xFC :: u32) n \<longleftrightarrow> 2 \<le> n \<and> n < 8" unfolding m by (auto simp: bit_simps)
  have u: "bit (ucast x :: u32) i \<longleftrightarrow> bit x i" for x :: u8 and i
    using bit_imp_le_length [of x i] by (auto simp: bit_simps)
  have p: "bit (push_bit k (ucast x :: u32)) n \<longleftrightarrow> k \<le> n \<and> n < 32 \<and> bit x (n - k)" for x :: u8 and k
    by (simp add: bit_push_bit_iff u)
  have o: "bit (push_bit 31 1 :: u32) n \<longleftrightarrow> n = 31" unfolding bit_push_bit_iff bit_1_iff by auto
  show ?thesis unfolding pci_config_address_def bit_or_iff bit_and_iff p o c u by blast
qed

lemma address_parts:
  assumes "unat s < 32" and "unat f < 8"
  shows "bit (pci_config_address b s f offset) 31 \<and>
    ucast (drop_bit 16 (pci_config_address b s f offset)) = b \<and>
    ucast (drop_bit 11 (pci_config_address b s f offset) AND mask 5) = s \<and>
    ucast (drop_bit 8 (pci_config_address b s f offset) AND mask 3) = f \<and>
    ucast (pci_config_address b s f offset) = offset AND NOT (mask 2)"
proof (intro conjI)
  have hi: "\<not> bit s i" if "5 \<le> i" for i using not_bit_small [of s 5] assms(1) that by simp
  have fi: "\<not> bit f i" if "3 \<le> i" for i using not_bit_small [of f 3] assms(2) that by simp
  have lt: "bit s i \<Longrightarrow> i < 5" "bit f i \<Longrightarrow> i < 3" "bit b i \<Longrightarrow> i < 8" for i
    using hi [of i] fi [of i] bit_imp_le_length [of b i] by force+
  show "bit (pci_config_address b s f offset) 31" by (simp add: address_bits)
  show "ucast (drop_bit 16 (pci_config_address b s f offset)) = b"
    by (rule bit_word_eqI) (auto simp: bit_simps address_bits hi fi dest: lt)
  show "ucast (drop_bit 11 (pci_config_address b s f offset) AND mask 5) = s"
    by (rule bit_word_eqI) (auto simp: bit_simps address_bits hi fi dest: lt)
  show "ucast (drop_bit 8 (pci_config_address b s f offset) AND mask 3) = f"
    by (rule bit_word_eqI) (auto simp: bit_simps address_bits hi fi dest: lt)
  show "ucast (pci_config_address b s f offset) = offset AND NOT (mask 2)"
    by (rule bit_word_eqI) (auto simp: bit_simps address_bits hi fi dest: lt)
qed

section \<open>A bus for the examples\<close>

definition bridge_ports :: "(u32 \<Rightarrow> u32) \<Rightarrow> u32 ports" where
  "bridge_ports cfg =
     \<lparr>inb = (\<lambda>p a. (0xFF, a)), outb = (\<lambda>p v a. a),
      inl = (\<lambda>p a. (if p = 0xCFC then cfg a else 0xFFFFFFFF, a)), outl = (\<lambda>p v a. if p = 0xCF8 then v else a)\<rparr>"

lemma bridge_space: "config_space (bridge_ports cfg) cfg (\<lambda>_. True)"
  by (simp add: config_space_def bridge_ports_def)

text \<open>A single device, a host bridge.\<close>

definition one_device :: "u32 \<Rightarrow> u32" where
  "one_device a = (if a = 0x80000000 then 0x12378086 else if a = 0x80000008 then 0x06000002
     else if a = 0x8000000C then 0 else 0xFFFFFFFF)"

lemma one_device_slot:
  assumes "b < 256" and "s < 32"
  shows "slot_functions one_device (of_nat b) s =
    (if b = 0 \<and> s = 0 then [\<lparr>bus = 0, slot = 0, func = 0, vendor_id = 0x8086, device_id = 0x1237, class_code = 6,
       subclass_code = 0, prog_if = 0, header_type = 0\<rparr>] else [])"
proof (cases "b = 0 \<and> s = 0")
  case True
  moreover have "slot_functions one_device 0 0 = [\<lparr>bus = 0, slot = 0, func = 0, vendor_id = 0x8086, device_id = 0x1237,
      class_code = 6, subclass_code = 0, prog_if = 0, header_type = 0\<rparr>]" by code_simp
  ultimately show ?thesis by simp
next
  case False
  let ?a = "pci_config_address (of_nat b) (of_nat s) 0 0"
  have u: "unat (of_nat b :: u8) = b" "unat (of_nat s :: u8) = s" using assms by (simp_all add: unat_of_nat take_bit_eq_mod)
  have "ucast (drop_bit 16 ?a) = (of_nat b :: u8)" "ucast (drop_bit 11 ?a AND mask 5) = (of_nat s :: u8)" "(ucast ?a :: u8) = 0"
    using address_parts [of "of_nat s" 0 "of_nat b" 0] assms u by simp_all
  moreover have "(of_nat b :: u8) \<noteq> 0 \<or> (of_nat s :: u8) \<noteq> 0" using False u by auto
  moreover have "(ucast (drop_bit 16 (0x80000000 :: u32)) :: u8) = 0" "(ucast (drop_bit 11 (0x80000000 :: u32) AND mask 5) :: u8) = 0"
    "(ucast (0x80000008 :: u32) :: u8) \<noteq> 0" "(ucast (0x8000000C :: u32) :: u8) \<noteq> 0" by code_simp+
  ultimately have "?a \<noteq> 0x80000000" "?a \<noteq> 0x80000008" "?a \<noteq> 0x8000000C" by metis+
  then have "one_device ?a = 0xFFFFFFFF" by (simp add: one_device_def)
  then have "pci_vendor one_device (of_nat b) (of_nat s) 0 = 0xFFFF" by (simp add: pci_vendor_def)
  then show ?thesis using False by (simp add: slot_functions_def)
qed

lemma concat_only_first: "(\<And>i. 0 < i \<Longrightarrow> i < n \<Longrightarrow> f i = []) \<Longrightarrow> 0 < n \<Longrightarrow> concat (map f [0..<n]) = f 0"
proof -
  assume f: "\<And>i. 0 < i \<Longrightarrow> i < n \<Longrightarrow> f i = []" and n: "0 < n"
  have "concat (map f [1..<n]) = []" using f by simp
  then show ?thesis using n by (simp add: upt_conv_Cons)
qed

lemma one_device_all:
  "all_functions one_device = [\<lparr>bus = 0, slot = 0, func = 0, vendor_id = 0x8086, device_id = 0x1237, class_code = 6,
     subclass_code = 0, prog_if = 0, header_type = 0\<rparr>]"
proof -
  have z: "concat (map (slot_functions one_device (of_nat b)) [0..<32]) = []" if "0 < b" "b < 256" for b
    using one_device_slot [OF that(2)] that(1) by simp
  have "all_functions one_device = concat (map (slot_functions one_device (of_nat 0)) [0..<32])"
    unfolding all_functions_def by (rule concat_only_first) (use z in simp_all)
  also have "\<dots> = slot_functions one_device (of_nat 0) 0"
    by (rule concat_only_first) (use one_device_slot [of 0] in simp_all)
  also have "\<dots> = [\<lparr>bus = 0, slot = 0, func = 0, vendor_id = 0x8086, device_id = 0x1237, class_code = 6,
     subclass_code = 0, prog_if = 0, header_type = 0\<rparr>]" using one_device_slot [of 0 0] by simp
  finally show ?thesis .
qed

section \<open>Properties\<close>

text \<open>\<open>pci_enumerate\<close> returns, writes inside the array, and finds exactly the functions that are
  present, in the order of bus, slot and function, up to the given maximum; the rest of the array
  keeps its contents.\<close>

lemma pci_enumerate_correct:
  assumes "config_space P cfg okd" and "okd d" and "unat mx \<le> length a"
  shows "\<exists>d'. pci_enumerate P (Some a) mx d =
      Some (of_nat (length (take (unat mx) (all_functions cfg))),
            Some (take (unat mx) (all_functions cfg) @ drop (length (take (unat mx) (all_functions cfg))) a), d') \<and> okd d'"
proof (cases "mx = 0")
  case False
  then show ?thesis using enumerate_spec [OF assms] by (auto simp: pci_enumerate_def simp del: length_take)
qed (use assms in \<open>simp add: pci_enumerate_def\<close>)

text \<open>The configuration address is a one-to-one encoding: for a slot below 32 and a function below
  8 every part can be read back from the bits the host bridge looks at.\<close>

lemma pci_config_address_roundtrip:
  assumes "unat s < 32" and "unat f < 8"
  shows "bit (pci_config_address b s f offset) 31 \<and>
    ucast (drop_bit 16 (pci_config_address b s f offset)) = b \<and>
    ucast (drop_bit 11 (pci_config_address b s f offset) AND mask 5) = s \<and>
    ucast (drop_bit 8 (pci_config_address b s f offset) AND mask 3) = f \<and>
    ucast (pci_config_address b s f offset) = offset AND NOT (mask 2)"
  by (rule address_parts [OF assms])

end
