(* ===== verification/CpuInfo.thy ===== *)
theory CpuInfo
  imports Prelude
begin

text \<open>
  \<open>src/cpuinfo.c\<close>, and \<open>cpu_cpuid\<close> of \<open>src/cpu.h\<close>: what the processor says about itself.  The instruction is
  a parameter: leaf and subleaf to the registers eax, ebx, ecx, edx.  A pointer is an option, null or what
  it points to.
\<close>

type_synonym cpuid = "u32 \<Rightarrow> u32 \<Rightarrow> u32 \<times> u32 \<times> u32 \<times> u32"

record cpu_info =
  vendor :: "u8 list"
  family :: u32
  model :: u32
  stepping :: u32
  apic_present :: u8
  msr_supported :: u8

text \<open>Each register is stored through its pointer unless the pointer is null.\<close>

definition cpu_cpuid ::
    "cpuid \<Rightarrow> u32 \<Rightarrow> u32 \<Rightarrow> u32 option \<Rightarrow> u32 option \<Rightarrow> u32 option \<Rightarrow> u32 option \<Rightarrow>
     u32 option \<times> u32 option \<times> u32 option \<times> u32 option" where
  "cpu_cpuid cpuid leaf subleaf eax ebx ecx edx =
     (let (out_eax, out_ebx, out_ecx, out_edx) = cpuid leaf subleaf;
          store = (\<lambda>p v. case p of None \<Rightarrow> None | Some _ \<Rightarrow> Some v)
      in (store eax out_eax, store ebx out_ebx, store ecx out_ecx, store edx out_edx))"

text \<open>\<open>cpu_info_read(info)\<close>: the structure behind the pointer, when it is not null.\<close>

definition cpu_info_read :: "cpuid \<Rightarrow> cpu_info option \<Rightarrow> cpu_info option" where
  "cpu_info_read cpuid info =
     do { info \<leftarrow> info;
          let info = \<lparr>vendor = replicate 13 0, family = 0, model = 0, stepping = 0, apic_present = 0, msr_supported = 0\<rparr>;
          let (eax, ebx, ecx, edx) = cpu_cpuid cpuid 0 0 (Some 0) (Some 0) (Some 0) (Some 0);
          ebx0 \<leftarrow> ebx; edx0 \<leftarrow> edx; ecx0 \<leftarrow> ecx;
          let info = info\<lparr>vendor := le 4 ebx0 @ le 4 edx0 @ le 4 ecx0 @ [0]\<rparr>;
          let (eax, ebx, ecx, edx) = cpu_cpuid cpuid 1 0 eax ebx ecx edx;
          eax \<leftarrow> eax; edx \<leftarrow> edx;
          let base_family = drop_bit 8 eax AND 0xF;
          let ext_family = drop_bit 20 eax AND 0xFF;
          let base_model = drop_bit 4 eax AND 0xF;
          let ext_model = drop_bit 16 eax AND 0xF;
          let info = info\<lparr>family := base_family\<rparr>;
          let info = (if base_family = 0xF then info\<lparr>family := family info + ext_family\<rparr> else info);
          let info = info\<lparr>model := base_model\<rparr>;
          let info = (if base_family = 0x6 \<or> base_family = 0xF
                      then info\<lparr>model := model info OR push_bit 4 ext_model\<rparr> else info);
          let info = info\<lparr>stepping := eax AND 0xF\<rparr>;
          let info = info\<lparr>apic_present := if drop_bit 9 edx AND 1 \<noteq> 0 then 1 else 0\<rparr>;
          Some (info\<lparr>msr_supported := if drop_bit 5 edx AND 1 \<noteq> 0 then 1 else 0\<rparr>) }"

text \<open>The description of a processor as one expression.\<close>

definition cpu_info_of :: "cpuid \<Rightarrow> cpu_info" where
  "cpu_info_of cpuid =
     (let (_, ebx0, ecx0, edx0) = cpuid 0 0;
          (eax, _, _, edx) = cpuid 1 0;
          base_family = drop_bit 8 eax AND 0xF;
          ext_family = drop_bit 20 eax AND 0xFF;
          base_model = drop_bit 4 eax AND 0xF;
          ext_model = drop_bit 16 eax AND 0xF
      in \<lparr>vendor = le 4 ebx0 @ le 4 edx0 @ le 4 ecx0 @ [0],
          family = (if base_family = 0xF then base_family + ext_family else base_family),
          model = (if base_family = 0x6 \<or> base_family = 0xF then base_model OR push_bit 4 ext_model else base_model),
          stepping = eax AND 0xF,
          apic_present = (if drop_bit 9 edx AND 1 \<noteq> 0 then 1 else 0),
          msr_supported = (if drop_bit 5 edx AND 1 \<noteq> 0 then 1 else 0)\<rparr>)"

lemma cpu_info_read_of:
  "cpu_info_read cpuid None = None"
  "cpu_info_read cpuid (Some i) = Some (cpu_info_of cpuid)"
  by (simp_all add: cpu_info_read_def cpu_info_of_def cpu_cpuid_def Let_def split_beta)

section \<open>Signatures\<close>

text \<open>The signature of a processor, as the manuals define it: the base family is at most 15 with the
  rest in the extended family, the upper half of the model is in the extended model.\<close>

definition signature :: "nat \<Rightarrow> nat \<Rightarrow> nat \<Rightarrow> nat" where
  "signature fam mdl stp =
     stp + 2 ^ 4 * (mdl mod 16) + 2 ^ 8 * min fam 15 + 2 ^ 16 * (mdl div 16) + 2 ^ 20 * (fam - 15)"

lemma field_at: "n = lo + b * (x + k * rest) \<Longrightarrow> lo < b \<Longrightarrow> x < k \<Longrightarrow> n div b mod k = (x :: nat)"
  by simp

lemma signature_fields:
  assumes "fam < 15 + 256" and "mdl < 256" and "stp < 16"
  shows "signature fam mdl stp < 2 ^ 32"
    and "signature fam mdl stp mod 16 = stp"
    and "signature fam mdl stp div 2 ^ 4 mod 16 = mdl mod 16"
    and "signature fam mdl stp div 2 ^ 8 mod 16 = min fam 15"
    and "signature fam mdl stp div 2 ^ 16 mod 16 = mdl div 16"
    and "signature fam mdl stp div 2 ^ 20 mod 256 = fam - 15"
proof -
  define a b e f where "a = mdl mod 16" and "b = min fam 15" and "e = mdl div 16" and "f = fam - 15"
  have s: "signature fam mdl stp = stp + 16 * a + 256 * b + 65536 * e + 1048576 * f"
    by (simp add: signature_def a_def b_def e_def f_def)
  have l: "a < 16" "b < 16" "e < 16" "f < 256" using assms by (auto simp: a_def b_def e_def f_def)
  show "signature fam mdl stp < 2 ^ 32" unfolding s using l assms(3) by simp
  show "signature fam mdl stp mod 16 = stp"
    using field_at [of "signature fam mdl stp" 0 1 stp 16 "a + 16 * (b + 256 * (e + 16 * f))"] s assms(3) by simp
  show "signature fam mdl stp div 2 ^ 4 mod 16 = mdl mod 16" unfolding a_def [symmetric]
    by (rule field_at [of _ stp _ _ _ "b + 256 * (e + 16 * f)"]) (use s l assms(3) in simp_all)
  show "signature fam mdl stp div 2 ^ 8 mod 16 = min fam 15" unfolding b_def [symmetric]
    by (rule field_at [of _ "stp + 16 * a" _ _ _ "16 * (e + 16 * f)"]) (use s l assms(3) in simp_all)
  show "signature fam mdl stp div 2 ^ 16 mod 16 = mdl div 16" unfolding e_def [symmetric]
    by (rule field_at [of _ "stp + 16 * a + 256 * b" _ _ _ f]) (use s l assms(3) in simp_all)
  show "signature fam mdl stp div 2 ^ 20 mod 256 = fam - 15" unfolding f_def [symmetric]
    by (rule field_at [of _ "stp + 16 * a + 256 * b + 65536 * e" _ _ _ 0]) (use s l assms(3) in simp_all)
qed

lemma nibbles:
  fixes x y :: u32
  shows "(x AND mask 4) OR push_bit 4 y = (x AND mask 4) + 16 * y"
proof -
  have "(x AND mask 4) + push_bit 4 y = (x AND mask 4) OR push_bit 4 y"
    by (rule disjunctive_add_eq_or) (auto simp: bit_eq_iff bit_simps)
  moreover have p: "push_bit 4 y = 16 * y" by (simp add: push_bit_eq_mult mult.commute)
  ultimately show ?thesis unfolding p [symmetric] by simp
qed

lemma field_of_nat:
  fixes eax :: u32
  assumes "eax = of_nat n" and "n < 2 ^ 32"
  shows "drop_bit k eax AND mask m = of_nat (n div 2 ^ k mod 2 ^ m)"
proof -
  have e: "unat eax = n" using assms by (simp add: unat_of_nat take_bit_eq_mod)
  have "unat (drop_bit k eax AND mask m) = n div 2 ^ k mod 2 ^ m"
    unfolding unat_and_mask unat_drop_bit_eq e by (simp add: drop_bit_eq_div)
  then have "of_nat (unat (drop_bit k eax AND mask m)) = (of_nat (n div 2 ^ k mod 2 ^ m) :: u32)" by simp
  then show ?thesis by simp
qed

definition example_cpuid :: cpuid where
  "example_cpuid leaf sub =
     (if leaf = 0 then (0xD, 0x756E6547, 0x6C65746E, 0x49656E69) else (0x000906EA, 0, 0, 0x220))"

text \<open>On a processor whose signature encodes a family, a model and a stepping, and whose vendor
  registers hold twelve characters, \<open>cpu_info_read\<close> recovers all four; the vendor is a terminated
  string.\<close>

lemma cpu_info_correct:
  assumes "fst (cpuid 1 0) = of_nat (signature fam mdl stp)"
    and "fam < 271" and "mdl < 256" and "stp < 16" and "fam = 6 \<or> 15 \<le> fam \<or> mdl < 16"
    and "cpuid 0 0 = (r, ebx, ecx, edx)" and "name = le 4 ebx @ le 4 edx @ le 4 ecx" and "0 \<notin> set name"
  shows "\<exists>info. cpu_info_read cpuid (Some i) = Some info \<and> family info = of_nat fam \<and> model info = of_nat mdl \<and>
    stepping info = of_nat stp \<and> cstr (vendor info) = name \<and> length (vendor info) = 13"
proof -
  obtain eax x y z where c: "cpuid 1 0 = (eax, x, y, z)" by (cases "cpuid 1 0")
  let ?n = "signature fam mdl stp"
  have eax: "eax = of_nat ?n" using assms(1) c by simp
  note sg = signature_fields [OF _ assms(3,4), of fam]
  have lt: "?n < 2 ^ 32" using sg assms(2) by simp
  have m: "(0xF :: u32) = mask 4" "(0xFF :: u32) = mask 8" by (simp_all add: mask_numeral)
  note at = field_of_nat [OF eax lt]
  have bf: "drop_bit 8 eax AND 0xF = of_nat (min fam 15)" unfolding m at using sg(4) assms(2) by simp
  have ef: "drop_bit 20 eax AND 0xFF = of_nat (fam - 15)" unfolding m at using sg(6) assms(2) by simp
  have bm: "drop_bit 4 eax AND 0xF = of_nat (mdl mod 16)" unfolding m at using sg(3) assms(2) by simp
  have em: "drop_bit 16 eax AND 0xF = of_nat (mdl div 16)" unfolding m at using sg(5) assms(2) by simp
  have st: "eax AND 0xF = of_nat stp" unfolding m using at [of 0 4] sg(2) assms(2) by simp
  have dec: "(of_nat (min fam 15) :: u32) = of_nat k \<longleftrightarrow> min fam 15 = k" if "k < 16" for k
    using that by (simp add: word_eq_iff_unsigned [where 'a = nat] unat_of_nat take_bit_eq_mod)
  have f15: "(of_nat (min fam 15) :: u32) = 0xF \<longleftrightarrow> 15 \<le> fam" using dec [of 15] by auto
  have f6: "(of_nat (min fam 15) :: u32) = 6 \<longleftrightarrow> fam = 6" using dec [of 6] by auto
  have mm: "(drop_bit 4 eax AND 0xF) OR push_bit 4 (drop_bit 16 eax AND 0xF) = of_nat mdl"
  proof -
    have "(drop_bit 4 eax AND 0xF) OR push_bit 4 (drop_bit 16 eax AND 0xF) = of_nat (mdl mod 16) + 16 * of_nat (mdl div 16)"
      using nibbles [of "drop_bit 4 eax" "drop_bit 16 eax AND 0xF"] unfolding m [symmetric] bm em .
    also have "\<dots> = of_nat (mdl mod 16 + 16 * (mdl div 16))" by (simp only: of_nat_add of_nat_mult of_nat_numeral)
    finally show ?thesis by simp
  qed
  have "family (cpu_info_of cpuid) = of_nat fam"
    unfolding cpu_info_of_def c assms(6) by (simp add: Let_def bf ef f15 min_def)
  moreover have "model (cpu_info_of cpuid) = of_nat mdl"
  proof (cases "fam = 6 \<or> 15 \<le> fam")
    case True
    then show ?thesis unfolding cpu_info_of_def c assms(6) Let_def prod.case bf f15 f6 mm by auto
  next
    case False
    then have "mdl mod 16 = mdl" using assms(5) by simp
    then show ?thesis
      using False unfolding cpu_info_of_def c assms(6) Let_def prod.case bf f15 f6 bm by simp
  qed
  moreover have "stepping (cpu_info_of cpuid) = of_nat stp" "vendor (cpu_info_of cpuid) = name @ [0]"
    unfolding cpu_info_of_def c assms(6,7) by (simp_all add: Let_def st)
  moreover have "cstr (name @ [0]) = name" using assms(8) by (rule cstr_append_zero)
  ultimately show ?thesis using assms(7) by (simp add: cpu_info_read_of)
qed

end
