(* ===== verification/ShellText.thy ===== *)
theory ShellText
  imports KString Queues
begin

text \<open>
  The parts of \<open>src/shell.c\<close> that only handle text: the ring of the last 32 command lines, and the
  splitting of a command line in place.  A pointer into a buffer is an index; every access is checked.
\<close>

section \<open>The history ring\<close>

abbreviation (input) CMD_BUFFER_SIZE :: nat where "CMD_BUFFER_SIZE \<equiv> 256"
abbreviation (input) MAX_ARGS :: nat where "MAX_ARGS \<equiv> 16"
abbreviation (input) HISTORY_SIZE :: nat where "HISTORY_SIZE \<equiv> 32"

record shell_history =
  history :: "u8 list list"
  history_head :: u16
  history_count :: u16

definition history_oldest_index :: "shell_history \<Rightarrow> nat" where
  "history_oldest_index h = (unat (history_head h) + HISTORY_SIZE - unat (history_count h)) mod HISTORY_SIZE"

definition history_get :: "nat \<Rightarrow> shell_history \<Rightarrow> u8 list option" where
  "history_get position h = rd (history h) ((history_oldest_index h + position) mod HISTORY_SIZE)"

text \<open>The end of \<open>history_add\<close>: 256 bytes are copied over the oldest entry.\<close>

definition history_store :: "u8 list \<Rightarrow> shell_history \<Rightarrow> shell_history option" where
  "history_store line h =
     (if length line < CMD_BUFFER_SIZE then None
      else do {
        entries \<leftarrow> wr (history h) (unat (history_head h)) ((take CMD_BUFFER_SIZE line)[CMD_BUFFER_SIZE - 1 := 0]);
        Some (h\<lparr>history := entries, history_head := (history_head h + 1) mod of_nat HISTORY_SIZE,
                history_count := (if unat (history_count h) < HISTORY_SIZE then history_count h + 1 else history_count h)\<rparr>) })"

definition history_add :: "u8 list \<Rightarrow> shell_history \<Rightarrow> shell_history option" where
  "history_add line h =
     do { c \<leftarrow> rd line 0;
          if c = 0 then Some h
          else if history_count h > 0 then
            do { lst \<leftarrow> history_get (unat (history_count h) - 1) h;
                 r \<leftarrow> kstrcmp lst line;
                 if r = 0 then Some h else history_store line h }
          else history_store line h }"

section \<open>Splitting a command line\<close>

text \<open>\<open>while (*input == ' ') input++\<close>.\<close>

function skip_spaces :: "u8 list \<Rightarrow> nat \<Rightarrow> nat option" where
  "skip_spaces b i = (if i < length b then if b ! i = 32 then skip_spaces b (Suc i) else Some i else None)"
  by pat_completeness auto
termination by (relation "measure (\<lambda>(b, i). length b - i)") auto

text \<open>\<open>while (*input != '\0' && *input != ' ') input++\<close>.\<close>

function skip_word :: "u8 list \<Rightarrow> nat \<Rightarrow> nat option" where
  "skip_word b i =
     (if i < length b then if b ! i \<noteq> 0 \<and> b ! i \<noteq> 32 then skip_word b (Suc i) else Some i else None)"
  by pat_completeness auto
termination by (relation "measure (\<lambda>(b, i). length b - i)") auto

declare skip_spaces.simps [simp del] skip_word.simps [simp del]

text \<open>\<open>if (*input != '\0') *input++ = '\0'\<close>.\<close>

definition end_word :: "u8 list \<Rightarrow> nat \<Rightarrow> (u8 list \<times> nat) option" where
  "end_word b i = do { c \<leftarrow> rd b i; if c \<noteq> 0 then do { b' \<leftarrow> wr b i 0; Some (b', i + 1) } else Some (b, i) }"

function parse_args :: "u8 list \<Rightarrow> nat \<Rightarrow> nat list \<Rightarrow> (u8 list \<times> nat list) option" where
  "parse_args b i args =
     do { c \<leftarrow> rd b i;
          if c \<noteq> 0 \<and> length args < MAX_ARGS then
            do { j \<leftarrow> skip_spaces b i;
                 d \<leftarrow> rd b j;
                 if d = 0 then Some (b, args)
                 else do { e \<leftarrow> skip_word b j;
                           (b', i') \<leftarrow> end_word b e;
                           parse_args b' i' (args @ [j]) } }
          else Some (b, args) }"
  by pat_completeness auto
termination by (relation "measure (\<lambda>(b, i, args). MAX_ARGS - length args)") auto

declare parse_args.simps [simp del]

text \<open>The buffer afterwards, the command and the arguments; the length of the last is \<open>*argc\<close>.\<close>

definition shell_parse_command :: "u8 list \<Rightarrow> (u8 list \<times> nat \<times> nat list) option" where
  "shell_parse_command input =
     do { cmd \<leftarrow> skip_spaces input 0;
          e \<leftarrow> skip_word input cmd;
          (b, i) \<leftarrow> end_word input e;
          (b', args) \<leftarrow> parse_args b i [];
          Some (b', cmd, args) }"

section \<open>The ring as a list of lines\<close>

definition history_items :: "shell_history \<Rightarrow> u8 list list" where
  "history_items h = map (\<lambda>i. history h ! ((history_oldest_index h + i) mod 32)) [0..<unat (history_count h)]"

definition row_ok :: "u8 list \<Rightarrow> bool" where
  "row_ok line \<longleftrightarrow> length line = 256 \<and> line ! 255 = 0"

definition history_wf :: "shell_history \<Rightarrow> bool" where
  "history_wf h \<longleftrightarrow> length (history h) = 32 \<and> (\<forall>l \<in> set (history h). row_ok l) \<and>
     unat (history_head h) < 32 \<and> unat (history_count h) \<le> 32"

lemma row_ok_terminated: "row_ok line \<Longrightarrow> 0 \<in> set line \<and> length (cstr line) \<le> 255"
proof -
  assume r: "row_ok line"
  then have "line ! 255 \<in> set line" by (intro nth_mem) (simp add: row_ok_def)
  then have z: "0 \<in> set line" using r by (simp add: row_ok_def)
  then show ?thesis using length_cstr_less [OF z] r by (simp add: row_ok_def)
qed

lemma history_next: "unat (h :: u16) < 32 \<Longrightarrow> unat ((h + 1) mod of_nat 32) = (unat h + 1) mod 32"
  by (simp add: unat_mod unat_plus_if')

lemma oldest_kept:
  fixes a c :: nat
  assumes "c < 32"
  shows "((a + 1) mod 32 + 32 - Suc c) mod 32 = (a + 32 - c) mod 32"
proof -
  have "(a + 1) mod 32 + 32 - Suc c = (a + 1) mod 32 + (31 - c)" using assms by simp
  moreover have "a + 32 - c = (a + 1) + (31 - c)" using assms by simp
  ultimately show ?thesis by (simp only: mod_add_left_eq)
qed

lemma ring_other:
  fixes a c i :: nat
  assumes "a < 32" and "i < c" and "c < 32"
  shows "((a + 32 - c) mod 32 + i) mod 32 \<noteq> a"
proof -
  have "((a + 32 - c) mod 32 + i) mod 32 = (a + (32 - (c - i))) mod 32"
  proof -
    have "a + 32 - c + i = a + (32 - (c - i))" using assms by linarith
    then show ?thesis by (simp add: mod_add_left_eq)
  qed
  then show ?thesis using assms by (auto simp: mod_if)
qed

lemma history_store_spec:
  assumes "history_wf h" and "row_ok line"
  shows "\<exists>r. history_store line h = Some r \<and> history_wf r \<and>
    history_items r = (if length (history_items h) < 32 then history_items h else tl (history_items h)) @ [line]"
proof -
  let ?h = "unat (history_head h)" and ?c = "unat (history_count h)"
  have wf: "length (history h) = 32" "?h < 32" "?c \<le> 32" "\<forall>l \<in> set (history h). row_ok l"
    using assms(1) by (simp_all add: history_wf_def)
  have row: "(take 256 line)[255 := 0] = line" using assms(2) by (simp add: row_ok_def list_update_same_conv)
  let ?cnt = "if ?c < 32 then history_count h + 1 else history_count h"
  let ?r = "h\<lparr>history := (history h)[?h := line], history_head := (history_head h + 1) mod of_nat 32, history_count := ?cnt\<rparr>"
  have st: "history_store line h = Some ?r" using wf assms(2) row by (simp add: history_store_def row_ok_def)
  have uh: "unat (history_head ?r) = (?h + 1) mod 32" using history_next [OF wf(2)] by simp
  have uc: "unat ?cnt = (if ?c < 32 then Suc ?c else ?c)"
    using wf(3) by (simp add: unat_plus_if')
  have "\<forall>l \<in> set ((history h)[?h := line]). row_ok l"
    using set_update_subset_insert [of "history h" ?h line] wf(4) assms(2) by blast
  then have wfr: "history_wf ?r" using wf uh uc by (simp add: history_wf_def split: if_splits)
  have len: "length (history_items h) = ?c" by (simp add: history_items_def)
  have old: "history_oldest_index h = (?h + 32 - ?c) mod 32" by (simp add: history_oldest_index_def)
  have idx: "((?h + 32 - ?c) mod 32 + i) mod 32 = (?h + 32 - ?c + i) mod 32" for i by (simp add: mod_simps)
  have other: "(history h)[?h := line] ! k = history h ! k" if "k \<noteq> ?h" for k using that by simp
  show ?thesis
  proof (cases "?c < 32")
    case True
    then have or: "history_oldest_index ?r = (?h + 32 - ?c) mod 32"
      unfolding history_oldest_index_def uh using uc oldest_kept [OF True, of ?h] by simp
    have ne: "((?h + 32 - ?c) mod 32 + i) mod 32 \<noteq> ?h" if "i < ?c" for i by (rule ring_other [OF wf(2) that True])
    have la: "((?h + 32 - ?c) mod 32 + ?c) mod 32 = ?h"
      unfolding idx using True wf(2) by simp
    have "history_items ?r = map (\<lambda>i. (history h)[?h := line] ! (((?h + 32 - ?c) mod 32 + i) mod 32)) [0..<Suc ?c]"
      unfolding history_items_def or using True uc by simp
    also have "\<dots> = history_items h @ [line]"
      unfolding history_items_def old using ne la wf(1,2) by (auto simp: eq_sym_conv [of "unat (history_head h)"])
    finally show ?thesis using st wfr True len by simp
  next
    case False
    then have c: "?c = 32" using wf(3) by simp
    have or: "history_oldest_index ?r = (?h + 1) mod 32"
      unfolding history_oldest_index_def using uh uc c by simp
    have oh: "history_oldest_index h = ?h" unfolding old c using wf(2) by simp
    have ne: "((?h + 1) mod 32 + i) mod 32 \<noteq> ?h" if "i < 31" for i
      using that wf(2) by (auto simp: mod_if split: if_splits)
    have la: "((?h + 1) mod 32 + 31) mod 32 = ?h" using wf(2) by (auto simp: mod_if)
    have sh: "((?h + 1) mod 32 + i) mod 32 = (?h + Suc i) mod 32" for i by (simp add: mod_simps)
    have u: "[0..<32] = [0..<31] @ [31 :: nat]" using upt_Suc_append [of 0 31] by simp
    have "history_items ?r = map (\<lambda>i. (history h)[?h := line] ! (((?h + 1) mod 32 + i) mod 32)) ([0..<31] @ [31])"
      unfolding history_items_def or u [symmetric] using uc c by simp
    also have "\<dots> = map (\<lambda>i. history h ! (((?h + 1) mod 32 + i) mod 32)) [0..<31] @ [line]"
      using ne la wf(1,2) by (auto simp: eq_sym_conv [of "unat (history_head h)"])
    also have "map (\<lambda>i. history h ! (((?h + 1) mod 32 + i) mod 32)) [0..<31] = tl (history_items h)"
    proof -
      have "history_items h = map (\<lambda>i. history h ! ((?h + i) mod 32)) (0 # map Suc [0..<31])"
        unfolding history_items_def oh c by (simp add: upt_conv_Cons map_Suc_upt del: upt_Suc)
      then show ?thesis unfolding sh by (simp add: o_def)
    qed
    finally show ?thesis using st wfr c len by simp
  qed
qed

lemma history_get_spec:
  assumes "history_wf h" and "i < length (history_items h)"
  shows "history_get i h = Some (history_items h ! i)"
  using assms by (simp add: history_get_def history_items_def history_wf_def)

interpretation hist: latest_log history_items history_wf 32 history_store "\<lambda>h i. history_get i h" row_ok
proof unfold_locales
  fix h i line
  assume wf: "history_wf h"
  show "length (history_items h) \<le> 32" using wf by (simp add: history_items_def history_wf_def)
  show "row_ok line \<Longrightarrow> \<exists>r. history_store line h = Some r \<and> history_wf r \<and>
      history_items r = (if length (history_items h) < 32 then history_items h else tl (history_items h)) @ [line]"
    by (rule history_store_spec [OF wf])
  show "i < length (history_items h) \<Longrightarrow> history_get i h = Some (history_items h ! i)"
    by (rule history_get_spec [OF wf])
qed simp


section \<open>Adding lines\<close>

definition history_texts :: "shell_history \<Rightarrow> u8 list list" where
  "history_texts h = map cstr (history_items h)"

text \<open>A line is remembered unless it is empty or repeats the last one; beyond 32 the oldest is forgotten.\<close>

definition remember :: "u8 list \<Rightarrow> u8 list list \<Rightarrow> u8 list list" where
  "remember line ls =
     (if line = [] \<or> ls \<noteq> [] \<and> last ls = line then ls
      else drop (length ls + 1 - 32) (ls @ [line]))"

lemma history_add_spec:
  assumes "history_wf h" and "row_ok line"
  shows "\<exists>r. history_add line h = Some r \<and> history_wf r \<and> history_texts r = remember (cstr line) (history_texts h)"
proof -
  have z: "0 \<in> set line" "line \<noteq> []" using row_ok_terminated [OF assms(2)] by auto
  have e: "rd line 0 = Some (line ! 0)" "line ! 0 = 0 \<longleftrightarrow> cstr line = []"
    using z by (cases line; auto simp: cstr_def rd_def)+
  have len: "length (history_items h) = unat (history_count h)" by (simp add: history_items_def)
  have le: "length (history_items h) \<le> 32" by (rule hist.items_le [OF assms(1)])
  obtain r where r: "history_store line h = Some r" "history_wf r"
      "history_items r = (if length (history_items h) < 32 then history_items h else tl (history_items h)) @ [line]"
    using hist.push_law [OF assms] by blast
  have rt: "history_texts r = drop (length (history_texts h) + 1 - 32) (history_texts h @ [cstr line])"
  proof (cases "length (history_items h) < 32")
    case True
    then show ?thesis using r(3) by (simp add: history_texts_def)
  next
    case False
    then have "length (history_items h) = 32" using le by simp
    then show ?thesis using r(3) by (cases "history_items h") (simp_all add: history_texts_def)
  qed
  show ?thesis
  proof (cases "cstr line = []")
    case True
    then show ?thesis using assms(1) e by (simp add: history_add_def remember_def)
  next
    case nonempty: False
    show ?thesis
    proof (cases "history_count h > 0")
      case False
      then have "history_count h = 0" by (simp add: word_greater_zero_iff)
      then have "history_texts h = []" using len by (simp add: history_texts_def)
      then show ?thesis using r rt nonempty e False by (simp add: history_add_def remember_def)
    next
      case True
      then have ne: "history_items h \<noteq> []" using len by (auto simp: word_less_nat_alt)
      let ?l = "last (history_items h)"
      have g: "history_get (unat (history_count h) - 1) h = Some ?l"
      proof -
        have "unat (history_count h) - 1 < length (history_items h)" using ne len by (cases "history_items h") simp_all
        from hist.nth_law [OF assms(1) this] show ?thesis using ne len by (simp add: last_conv_nth)
      qed
      have "?l \<in> set (history h)"
      proof -
        have "?l \<in> set (history_items h)" using ne by simp
        then show ?thesis using assms(1) by (auto simp: history_items_def history_wf_def)
      qed
      then have lz: "0 \<in> set ?l" using assms(1) row_ok_terminated by (auto simp: history_wf_def)
      obtain c where c: "kstrcmp ?l line = Some c" using kstrcmp_defined [OF lz z(1)] by blast
      have "kstrcmp ?l line = Some 0 \<longleftrightarrow> cstr ?l = cstr line" using kstrcmp_eq_0 [OF lz z(1)] .
      then have "c = 0 \<longleftrightarrow> last (history_texts h) = cstr line" using c ne by (simp add: history_texts_def last_map)
      moreover have "history_texts h \<noteq> []" using ne by (simp add: history_texts_def)
      ultimately show ?thesis using r rt nonempty e True g c assms(1) by (simp add: history_add_def remember_def)
    qed
  qed
qed

section \<open>Words\<close>

text \<open>The words of a text: the maximal parts without spaces.\<close>

function words :: "u8 list \<Rightarrow> u8 list list" where
  "words cs =
     (let w = dropWhile (\<lambda>c. c = 32) cs in
      if w = [] then [] else takeWhile (\<lambda>c. c \<noteq> 32) w # words (dropWhile (\<lambda>c. c \<noteq> 32) w))"
  by pat_completeness auto
termination
proof (relation "measure length")
  fix cs w assume w: "w = dropWhile (\<lambda>c. c = 32) cs" "w \<noteq> []"
  then have "hd w \<noteq> 32" using hd_dropWhile [of "\<lambda>c. c = 32" cs] by simp
  then have "length (dropWhile (\<lambda>c. c \<noteq> 32) w) < length w" using w(2) by (cases w) (simp_all add: le_imp_less_Suc length_dropWhile_le)
  also have "\<dots> \<le> length cs" unfolding w(1) by (rule length_dropWhile_le)
  finally show "(dropWhile (\<lambda>c. c \<noteq> 32) w, cs) \<in> measure length" by simp
qed simp

declare words.simps [simp del]

lemma words_blank: "dropWhile (\<lambda>c. c = 32) cs = [] \<Longrightarrow> words cs = []"
  by (subst words.simps) simp

lemma words_first:
  "dropWhile (\<lambda>c. c = 32) cs = w \<Longrightarrow> w \<noteq> [] \<Longrightarrow>
   words cs = takeWhile (\<lambda>c. c \<noteq> 32) w # words (dropWhile (\<lambda>c. c \<noteq> 32) w)"
  by (subst words.simps) (simp add: Let_def)

lemma words_space: "words (32 # cs) = words cs"
  by (subst (1 2) words.simps) simp

text \<open>The text at an index, and how the pointer loops move over it.\<close>

definition text_at :: "u8 list \<Rightarrow> nat \<Rightarrow> u8 list" where
  "text_at b i = cstr (drop i b)"

definition ended :: "u8 list \<Rightarrow> nat \<Rightarrow> bool" where
  "ended b i \<longleftrightarrow> i < length b \<and> 0 \<in> set (drop i b)"

lemma endedI: "j \<le> e \<Longrightarrow> e < length b \<Longrightarrow> b ! e = 0 \<Longrightarrow> ended b j"
  by (auto simp: ended_def in_set_conv_nth intro!: exI [of _ "e - j"])

lemma text_at_step:
  assumes "ended b i"
  shows "text_at b i = (if b ! i = 0 then [] else b ! i # text_at b (Suc i))" and "b ! i \<noteq> 0 \<Longrightarrow> ended b (Suc i)"
proof -
  have i: "i < length b" "drop i b = b ! i # drop (Suc i) b" using assms by (auto simp: ended_def Cons_nth_drop_Suc)
  show "text_at b i = (if b ! i = 0 then [] else b ! i # text_at b (Suc i))"
    unfolding text_at_def i(2) by simp
  show "ended b (Suc i)" if "b ! i \<noteq> 0"
  proof -
    have "0 \<in> set (drop (Suc i) b)" using assms that unfolding ended_def i(2) by auto
    then show ?thesis by (auto simp: ended_def) (metis drop_all empty_iff list.set(1) not_le_imp_less)
  qed
qed

lemma skip_spaces_spec:
  "ended b i \<Longrightarrow> \<exists>j. skip_spaces b i = Some j \<and> i \<le> j \<and> ended b j \<and> text_at b j = dropWhile (\<lambda>c. c = 32) (text_at b i) \<and>
     b ! j \<noteq> 32"
proof (induction b i rule: skip_spaces.induct)
  case (1 b i)
  have i: "i < length b" using "1.prems" by (simp add: ended_def)
  note st = text_at_step [OF "1.prems"]
  show ?case
  proof (cases "b ! i = 32")
    case True
    then have e: "ended b (Suc i)" using st(2) by simp
    obtain j where "skip_spaces b (Suc i) = Some j" "Suc i \<le> j" "ended b j"
        "text_at b j = dropWhile (\<lambda>c. c = 32) (text_at b (Suc i))" "b ! j \<noteq> 32"
      using "1.IH" [OF i True e] by blast
    then show ?thesis using st(1) True i by (subst skip_spaces.simps) auto
  next
    case False
    then show ?thesis using st(1) i "1.prems" by (subst skip_spaces.simps) auto
  qed
qed

lemma skip_spaces_blank: "skip_spaces b i = Some j \<Longrightarrow> i \<le> k \<Longrightarrow> k < j \<Longrightarrow> b ! k = 32"
proof (induction b i rule: skip_spaces.induct)
  case (1 b i)
  note run = "1.prems"(1) [unfolded skip_spaces.simps [of b i]]
  show ?case
  proof (cases "i = k")
    case True
    then show ?thesis using run "1.prems"(3) by (auto split: if_splits)
  next
    case False
    then have "i < length b" "b ! i = 32" "skip_spaces b (Suc i) = Some j" using run "1.prems"(2,3) by (auto split: if_splits)
    then show ?thesis using "1.IH" "1.prems"(2,3) False by simp
  qed
qed

lemma takeWhile_blanks: "takeWhile (\<lambda>c. c = x) (replicate n x @ ys) = replicate n x @ takeWhile (\<lambda>c. c = x) ys"
  by (induction n) simp_all

lemma text_at_blanks: "c \<le> length b \<Longrightarrow> (\<And>k. k < c \<Longrightarrow> b ! k = 32) \<Longrightarrow> text_at b 0 = replicate c 32 @ text_at b c"
proof (induction c)
  case (Suc c)
  have "drop c b = 32 # drop (Suc c) b" using Suc.prems by (metis Cons_nth_drop_Suc Suc_le_lessD lessI)
  then have "text_at b c = 32 # text_at b (Suc c)" by (simp add: text_at_def)
  then show ?case using Suc by (simp add: replicate_append_same [symmetric])
qed simp

lemma skip_word_spec:
  "ended b i \<Longrightarrow> \<exists>j. skip_word b i = Some j \<and> i \<le> j \<and> ended b j \<and>
     text_at b j = dropWhile (\<lambda>c. c \<noteq> 32) (text_at b i) \<and> (b ! j = 0 \<or> b ! j = 32) \<and>
     (\<forall>n. cstr (drop i (take j b @ 0 # n)) = takeWhile (\<lambda>c. c \<noteq> 32) (text_at b i))"
proof (induction b i rule: skip_word.induct)
  case (1 b i)
  have i: "i < length b" using "1.prems" by (simp add: ended_def)
  note st = text_at_step [OF "1.prems"]
  show ?case
  proof (cases "b ! i \<noteq> 0 \<and> b ! i \<noteq> 32")
    case True
    then have e: "ended b (Suc i)" using st(2) by simp
    obtain j where j: "skip_word b (Suc i) = Some j" "Suc i \<le> j" "ended b j"
        "text_at b j = dropWhile (\<lambda>c. c \<noteq> 32) (text_at b (Suc i))" "b ! j = 0 \<or> b ! j = 32"
        "\<And>n. cstr (drop (Suc i) (take j b @ 0 # n)) = takeWhile (\<lambda>c. c \<noteq> 32) (text_at b (Suc i))"
      using "1.IH" [OF i True e] by blast
    have "cstr (drop i (take j b @ 0 # n)) = takeWhile (\<lambda>c. c \<noteq> 32) (text_at b i)" for n
    proof -
      have "i < length (take j b @ 0 # n)" "(take j b @ 0 # n) ! i = b ! i" using j(2) i by (simp_all add: nth_append)
      then have "drop i (take j b @ 0 # n) = b ! i # drop (Suc i) (take j b @ 0 # n)" by (metis Cons_nth_drop_Suc)
      then show ?thesis using j(6) [of n] st(1) True by (simp del: drop_append)
    qed
    then show ?thesis using j st(1) True i by (subst skip_word.simps) auto
  next
    case False
    have "cstr (drop i (take i b @ 0 # n)) = []" for n using i by simp
    then show ?thesis using st(1) i "1.prems" False by (subst skip_word.simps) (auto simp: text_at_def)
  qed
qed

text \<open>Ending a word: what follows stays, the word is cut off.\<close>

lemma end_word_spec:
  assumes "ended b e" and "b ! e = 0 \<or> b ! e = 32"
  shows "\<exists>b' i. end_word b e = Some (b', i) \<and> length b' = length b \<and> e \<le> i \<and> ended b' i \<and> b' ! e = 0 \<and>
    take e b' = take e b \<and> words (text_at b' i) = words (text_at b e) \<and> (b ! e = 32 \<longrightarrow> e < i)"
proof -
  have e: "e < length b" using assms(1) by (simp add: ended_def)
  note st = text_at_step [OF assms(1)]
  show ?thesis
  proof (cases "b ! e = 0")
    case True
    then show ?thesis using e assms(1) by (simp add: end_word_def)
  next
    case False
    then have sp: "b ! e = 32" using assms(2) by simp
    have "drop (Suc e) (b[e := 0]) = drop (Suc e) b" by simp
    then have "ended (b[e := 0]) (Suc e)" "text_at (b[e := 0]) (Suc e) = text_at b (Suc e)"
      using st(2) False by (simp_all add: ended_def text_at_def)
    then show ?thesis using e st(1) sp False words_space [of "text_at b (Suc e)"] by (simp add: end_word_def)
  qed
qed

lemma cstr_append_terminated: "0 \<in> set xs \<Longrightarrow> cstr (xs @ ys) = cstr xs"
  by (induction xs) (auto simp: cstr_def)

text \<open>A text that is ended before \<open>n\<close> does not change when the bytes before \<open>n\<close> do not.\<close>

lemma text_kept:
  assumes "take n b' = take n b" and "j \<le> e" and "e < n" and "n \<le> length b" and "n \<le> length b'" and "b ! e = 0"
  shows "text_at b' j = text_at b j"
proof -
  have t: "text_at c j = cstr (drop j (take n c))" if "take n c = take n b" "n \<le> length c" for c
  proof -
    have "drop j c = drop j (take n c @ drop n c)" by simp
    also have "\<dots> = drop j (take n c) @ drop n c" unfolding drop_append using assms(2,3) that(2) by simp
    finally have "drop j c = drop j (take n c) @ drop n c" .
    moreover have "0 \<in> set (drop j (take n c))"
    proof -
      have "e - j < length (drop j (take n c))" "drop j (take n c) ! (e - j) = 0"
        using assms(2-4,6) that by simp_all
      then show ?thesis by (metis nth_mem)
    qed
    ultimately show ?thesis by (simp add: text_at_def cstr_append_terminated)
  qed
  show ?thesis using t [of b] t [of b'] assms(1,4,5) by simp
qed

text \<open>One word: it is found, ended, and stays when only the bytes after it change.\<close>

lemma cut_word_spec:
  assumes "ended b j"
  shows "\<exists>e b1 i. skip_word b j = Some e \<and> end_word b e = Some (b1, i) \<and> length b1 = length b \<and> j \<le> i \<and> ended b1 i \<and>
    take j b1 = take j b \<and> text_at b1 j = takeWhile (\<lambda>c. c \<noteq> 32) (text_at b j) \<and>
    words (text_at b1 i) = words (dropWhile (\<lambda>c. c \<noteq> 32) (text_at b j)) \<and>
    (\<forall>b2. length b2 = length b1 \<longrightarrow> take i b2 = take i b1 \<longrightarrow> (b1 ! i = 0 \<longrightarrow> b2 = b1) \<longrightarrow>
       text_at b2 j = text_at b1 j \<and> ended b2 j)"
proof -
  obtain e where e: "skip_word b j = Some e" "j \<le> e" "ended b e" "text_at b e = dropWhile (\<lambda>c. c \<noteq> 32) (text_at b j)"
      "b ! e = 0 \<or> b ! e = 32" "\<And>n. cstr (drop j (take e b @ 0 # n)) = takeWhile (\<lambda>c. c \<noteq> 32) (text_at b j)"
    using skip_word_spec [OF assms] by blast
  obtain b1 i where b1: "end_word b e = Some (b1, i)" "length b1 = length b" "e \<le> i" "ended b1 i" "b1 ! e = 0"
      "take e b1 = take e b" "words (text_at b1 i) = words (text_at b e)" "b ! e = 32 \<longrightarrow> e < i"
    using end_word_spec [OF e(3,5)] by blast
  have el: "e < length b" using e(3) by (simp add: ended_def)
  have "b1 = take e b @ 0 # drop (Suc e) b1" using b1(2,5,6) el by (metis id_take_nth_drop)
  then have cut: "text_at b1 j = takeWhile (\<lambda>c. c \<noteq> 32) (text_at b j)"
    using e(6) [of "drop (Suc e) b1"] by (simp add: text_at_def)
  have kept: "text_at b2 j = text_at b1 j \<and> ended b2 j"
    if b2: "length b2 = length b1" "take i b2 = take i b1" "b1 ! i = 0 \<longrightarrow> b2 = b1" for b2
  proof (cases "e < i")
    case True
    then have "b2 ! e = 0" using b2(2) b1(5) by (metis nth_take)
    then show ?thesis using True text_kept [OF b2(2) e(2)] endedI [of j e b2] e(2) b1(2,4,5) b2(1) el
      by (simp add: ended_def)
  next
    case False
    then show ?thesis using b2(3) b1(2,3,5) endedI [of j e b1] e(2) el by simp
  qed
  have "take j b1 = take j b" using b1(6) e(2) by (metis min.absorb1 take_take)
  moreover have "words (text_at b1 i) = words (dropWhile (\<lambda>c. c \<noteq> 32) (text_at b j))" by (simp only: b1(7) e(4))
  moreover have "j \<le> i" using e(2) b1(3) by simp
  ultimately show ?thesis using e(1) b1(1,2,4) cut kept by blast
qed

lemma parse_args_end: "parse_args b i args = Some (b', js) \<Longrightarrow> i < length b \<Longrightarrow> b ! i = 0 \<Longrightarrow> b' = b"
  by (subst (asm) parse_args.simps) simp

text \<open>The loop over the arguments.\<close>

lemma parse_args_spec:
  assumes "ended b i"
  shows "\<exists>b' js. parse_args b i args = Some (b', args @ js) \<and> length b' = length b \<and> take i b' = take i b \<and>
    (\<forall>j \<in> set js. ended b' j) \<and>
    map (text_at b') js = take (16 - length args) (words (text_at b i))"
  using assms
proof (induction b i args rule: parse_args.induct)
  case (1 b i args)
  have i: "i < length b" "rd b i = Some (b ! i)" using "1.prems" by (simp_all add: ended_def)
  show ?case
  proof (cases "b ! i \<noteq> 0 \<and> length args < 16")
    case False
    then have "take (16 - length args) (words (text_at b i)) = []" using text_at_step(1) [OF "1.prems"] by (auto simp: words_blank)
    then show ?thesis using False i by (subst parse_args.simps) auto
  next
    case True
    obtain j where j: "skip_spaces b i = Some j" "i \<le> j" "ended b j" "text_at b j = dropWhile (\<lambda>c. c = 32) (text_at b i)"
      using skip_spaces_spec [OF "1.prems"] by blast
    have dj: "rd b j = Some (b ! j)" using j(3) by (simp add: ended_def)
    show ?thesis
    proof (cases "b ! j = 0")
      case z: True
      then have "words (text_at b i) = []" using text_at_step(1) [OF j(3)] j(4) by (simp add: words_blank)
      then show ?thesis using True i j(1) dj z by (subst parse_args.simps) auto
    next
      case nz: False
      obtain e b1 k where c: "skip_word b j = Some e" "end_word b e = Some (b1, k)" "length b1 = length b" "j \<le> k" "ended b1 k"
          "take j b1 = take j b" "text_at b1 j = takeWhile (\<lambda>c. c \<noteq> 32) (text_at b j)"
          "words (text_at b1 k) = words (dropWhile (\<lambda>c. c \<noteq> 32) (text_at b j))"
          "\<And>b2. length b2 = length b1 \<Longrightarrow> take k b2 = take k b1 \<Longrightarrow> (b1 ! k = 0 \<longrightarrow> b2 = b1) \<Longrightarrow>
             text_at b2 j = text_at b1 j \<and> ended b2 j"
        using cut_word_spec [OF j(3)] by blast
      obtain b2 js where b2: "parse_args b1 k (args @ [j]) = Some (b2, (args @ [j]) @ js)" "length b2 = length b1"
          "take k b2 = take k b1" "\<forall>j \<in> set js. ended b2 j"
          "map (text_at b2) js = take (16 - length (args @ [j])) (words (text_at b1 k))"
        using "1.IH" [OF i(2) True j(1) dj nz c(1,2) refl c(5)] by blast
      have w: "text_at b2 j = text_at b1 j" "ended b2 j"
        using c(9) [OF b2(2,3)] parse_args_end [OF b2(1)] c(5) by (auto simp: ended_def)
      have "text_at b j \<noteq> []" using text_at_step(1) [OF j(3)] nz by simp
      then have "words (text_at b i) = text_at b1 j # words (text_at b1 k)"
        using words_first [OF j(4) [symmetric]] c(7,8) by simp
      moreover have "16 - length args = Suc (15 - length args)" using conjunct2 [OF True] by arith
      ultimately have m: "map (text_at b2) (j # js) = take (16 - length args) (words (text_at b i))" using b2(5) w(1) by simp
      have "take i b2 = take i (take j (take k b2))" using j(2) c(4) by (simp add: min_def)
      also have "\<dots> = take i (take j b1)" unfolding b2(3) using c(4) by (simp add: min_def)
      also have "\<dots> = take i b" unfolding c(6) using j(2) by (simp add: min_def)
      finally have "take i b2 = take i b" .
      moreover have "parse_args b i args = Some (b2, args @ j # js)"
        using True i j(1) dj nz c(1,2) b2(1) by (subst parse_args.simps) simp
      ultimately show ?thesis using m b2(2,4) c(3) w(2) by (intro exI [of _ b2] exI [of _ "j # js"]) simp
    qed
  qed
qed

text \<open>The blanks before the first word stay in front of it.\<close>

lemma leading_blanks:
  assumes "skip_spaces b 0 = Some c" and "c \<le> length b" and "take c b2 = take c b" and "length b2 = length b"
    and "text_at b c = dropWhile (\<lambda>c. c = 32) (cstr b)"
  shows "cstr b2 = takeWhile (\<lambda>c. c = 32) (cstr b) @ text_at b2 c"
proof -
  have bl: "b ! k = 32" if "k < c" for k using skip_spaces_blank [OF assms(1)] that by simp
  have "b2 ! k = 32" if "k < c" for k using assms(3) bl that by (metis nth_take)
  then have "text_at b2 0 = replicate c 32 @ text_at b2 c" using assms(2,4) by (intro text_at_blanks) auto
  moreover have "cstr b = replicate c 32 @ text_at b c" using text_at_blanks [OF assms(2) bl] by (simp add: text_at_def)
  moreover have "text_at b c = [] \<or> hd (text_at b c) \<noteq> 32"
    unfolding assms(5) using hd_dropWhile [of "\<lambda>c. c = 32" "cstr b"] by blast
  then have "takeWhile (\<lambda>c. c = 32) (replicate c 32 @ text_at b c) = replicate c 32"
    by (cases "text_at b c") (auto simp: takeWhile_blanks)
  ultimately show ?thesis by (simp add: text_at_def)
qed

lemma parse_command_spec:
  assumes "0 \<in> set input"
  shows "\<exists>b cmd args. shell_parse_command input = Some (b, cmd, args) \<and> length b = length input \<and> ended b cmd \<and>
    (\<forall>j \<in> set args. ended b j) \<and>
    text_at b cmd = (case words (cstr input) of [] \<Rightarrow> [] | w # _ \<Rightarrow> w) \<and>
    map (text_at b) args = take 16 (tl (words (cstr input))) \<and>
    cstr b = takeWhile (\<lambda>c. c = 32) (cstr input) @ (case words (cstr input) of [] \<Rightarrow> [] | w # _ \<Rightarrow> w)"
proof -
  have e0: "ended input 0" using assms by (auto simp: ended_def)
  obtain c where c: "skip_spaces input 0 = Some c" "ended input c" "text_at input c = dropWhile (\<lambda>c. c = 32) (cstr input)"
    using skip_spaces_spec [OF e0] by (auto simp: text_at_def)
  obtain e b1 k where w: "skip_word input c = Some e" "end_word input e = Some (b1, k)" "length b1 = length input" "c \<le> k"
      "ended b1 k" "take c b1 = take c input" "text_at b1 c = takeWhile (\<lambda>c. c \<noteq> 32) (text_at input c)"
      "words (text_at b1 k) = words (dropWhile (\<lambda>c. c \<noteq> 32) (text_at input c))"
      "\<And>b2. length b2 = length b1 \<Longrightarrow> take k b2 = take k b1 \<Longrightarrow> (b1 ! k = 0 \<longrightarrow> b2 = b1) \<Longrightarrow>
         text_at b2 c = text_at b1 c \<and> ended b2 c"
    using cut_word_spec [OF c(2)] by blast
  obtain b2 js where b2: "parse_args b1 k [] = Some (b2, js)" "length b2 = length b1" "take k b2 = take k b1"
      "\<forall>j \<in> set js. ended b2 j" "map (text_at b2) js = take 16 (words (text_at b1 k))"
    using parse_args_spec [OF w(5), of "[]"] by auto
  have kept: "text_at b2 c = text_at b1 c" "ended b2 c"
    using w(9) [OF b2(2,3)] parse_args_end [OF b2(1)] w(5) by (auto simp: ended_def)
  have "take c b2 = take c input" using b2(3) w(4,6) by (metis min.absorb1 take_take)
  then have first: "cstr b2 = takeWhile (\<lambda>c. c = 32) (cstr input) @ text_at b2 c"
    by (intro leading_blanks [OF c(1) _ _ _ c(3)]) (use c(2) b2(2) w(3) in \<open>simp_all add: ended_def\<close>)
  have ws: "words (cstr input) = (if text_at input c = [] then [] else text_at b1 c # words (text_at b1 k))"
  proof (cases "text_at input c = []")
    case True
    then show ?thesis using words_blank [of "cstr input"] c(3) by simp
  next
    case False
    then show ?thesis using words_first [OF c(3) [symmetric] False] w(7,8) by simp
  qed
  have "text_at b1 c = [] \<and> words (text_at b1 k) = []" if "text_at input c = []"
    using that w(7,8) by (simp add: words_blank)
  moreover have "shell_parse_command input = Some (b2, c, js)"
    using c(1) w(1,2) b2(1) by (simp add: shell_parse_command_def)
  ultimately show ?thesis using w(3) b2(2,4,5) kept ws first
    by (intro exI [of _ b2] exI [of _ c] exI [of _ js]) simp
qed

text \<open>Splitting writes only terminators.\<close>

lemma end_word_zeros: "end_word b i = Some (b', i') \<Longrightarrow> b ! k = 0 \<Longrightarrow> b' ! k = 0"
  by (cases "k = i") (auto simp: end_word_def Option.bind_eq_Some_conv wr_def nth_list_update split: if_splits)

lemma parse_args_zeros: "parse_args b i args = Some (b', js) \<Longrightarrow> b ! k = 0 \<Longrightarrow> b' ! k = 0"
proof (induction b i args rule: parse_args.induct)
  case (1 b i args)
  note run = "1.prems"(1) [unfolded parse_args.simps [of b i args]]
  show ?case
  proof (cases "b' = b")
    case False
    then obtain c j d e b1 i1 where s: "rd b i = Some c" "c \<noteq> 0 \<and> length args < 16" "skip_spaces b i = Some j"
        "rd b j = Some d" "d \<noteq> 0" "skip_word b j = Some e" "end_word b e = Some (b1, i1)"
        "parse_args b1 i1 (args @ [j]) = Some (b', js)"
      using run by (auto simp: Option.bind_eq_Some_conv split: if_splits)
    show ?thesis by (rule "1.IH" [OF s(1-7) refl s(8) end_word_zeros [OF s(7) "1.prems"(2)]])
  qed (simp add: "1.prems"(2))
qed

lemma parse_command_zeros: "shell_parse_command b = Some (b', cmd, args) \<Longrightarrow> b ! k = 0 \<Longrightarrow> b' ! k = 0"
  by (auto simp: shell_parse_command_def Option.bind_eq_Some_conv dest: end_word_zeros parse_args_zeros)

section \<open>Properties\<close>

fun history_add_all :: "u8 list list \<Rightarrow> shell_history \<Rightarrow> shell_history option" where
  "history_add_all [] h = Some h"
| "history_add_all (l # ls) h = do { r \<leftarrow> history_add l h; history_add_all ls r }"

lemma history_add_all_spec:
  "history_wf h \<Longrightarrow> \<forall>l \<in> set ls. row_ok l \<Longrightarrow>
   \<exists>r. history_add_all ls h = Some r \<and> history_wf r \<and> history_texts r = fold remember (map cstr ls) (history_texts h)"
proof (induction ls arbitrary: h)
  case (Cons l ls)
  then obtain r where "history_add l h = Some r" "history_wf r" "history_texts r = remember (cstr l) (history_texts h)"
    using history_add_spec [of h l] by auto
  then show ?case using Cons.IH [of r] Cons.prems(2) by simp
qed simp

definition empty_history :: shell_history where
  "empty_history = \<lparr>history = replicate 32 (replicate 256 0), history_head = 0, history_count = 0\<rparr>"

lemma empty_history_wf: "history_wf empty_history" "history_texts empty_history = []"
  by (simp_all add: empty_history_def history_wf_def row_ok_def history_texts_def history_items_def)

text \<open>C39: after any sequence of command lines the ring, read from the oldest position on, is what
  remembering them one by one gives: no empty line, no line twice in a row, the latest 32; no access
  leaves the ring, and the entries returned are terminated within 256 bytes.\<close>

theorem history_correct:
  assumes "history_wf h" and "\<forall>l \<in> set ls. row_ok l"
  shows "\<exists>r. history_add_all ls h = Some r \<and> history_wf r \<and>
    history_texts r = fold remember (map cstr ls) (history_texts h) \<and> length (history_texts r) \<le> 32 \<and>
    (\<forall>i < length (history_texts r). \<exists>l. history_get i r = Some l \<and> row_ok l \<and> cstr l = history_texts r ! i)"
proof -
  obtain r where r: "history_add_all ls h = Some r" "history_wf r"
      "history_texts r = fold remember (map cstr ls) (history_texts h)"
    using history_add_all_spec [OF assms] by blast
  have "\<exists>l. history_get i r = Some l \<and> row_ok l \<and> cstr l = history_texts r ! i" if "i < length (history_texts r)" for i
  proof -
    have i: "i < length (history_items r)" using that by (simp add: history_texts_def)
    then have "history_items r ! i \<in> set (history r)" using r(2) by (auto simp: history_items_def history_wf_def)
    then show ?thesis using hist.nth_law [OF r(2) i] r(2) i by (auto simp: history_wf_def history_texts_def)
  qed
  moreover have "length (history_texts r) \<le> 32" using hist.items_le [OF r(2)] by (simp add: history_texts_def)
  ultimately show ?thesis using r by blast
qed

definition row :: "string \<Rightarrow> u8 list" where
  "row t = str t @ replicate (256 - length t) 0"

theorem history_correct_witness:
  "\<exists>r. history_add_all (map row [''help'', ''help'', [], ''echo a'']) empty_history = Some r \<and>
     history_texts r = [str ''help'', str ''echo a'']"
proof -
  have "\<forall>l \<in> set (map row [''help'', ''help'', [], ''echo a'']). row_ok l"
    by (simp add: row_def row_ok_def nth_append)
  moreover have "fold remember (map cstr (map row [''help'', ''help'', [], ''echo a''])) [] = [str ''help'', str ''echo a'']"
    by code_simp
  ultimately show ?thesis
    using history_correct [OF empty_history_wf(1), of "map row [''help'', ''help'', [], ''echo a'']"] empty_history_wf(2)
    by metis
qed

text \<open>C40: splitting a terminated command line returns, stays inside the buffer, and yields the first word
  as the command and the next words, at most 16, as the arguments, each a terminated string in the
  buffer; leading, trailing and repeated spaces do not matter.\<close>

theorem shell_parse_correct:
  assumes "0 \<in> set input"
  shows "\<exists>b cmd args. shell_parse_command input = Some (b, cmd, args) \<and> length b = length input \<and> ended b cmd \<and>
    (\<forall>j \<in> set args. ended b j) \<and>
    text_at b cmd = (case words (cstr input) of [] \<Rightarrow> [] | w # _ \<Rightarrow> w) \<and>
    map (text_at b) args = take 16 (tl (words (cstr input)))"
  using parse_command_spec [OF assms] by blast

theorem shell_parse_correct_witness:
  "\<exists>b cmd args. shell_parse_command (row ''  echo hi  there '') = Some (b, cmd, args) \<and>
     text_at b cmd = str ''echo'' \<and> map (text_at b) args = [str ''hi'', str ''there'']"
proof -
  have "words (cstr (row ''  echo hi  there '')) = [str ''echo'', str ''hi'', str ''there'']" by code_simp
  moreover have "0 \<in> set (row ''  echo hi  there '')" by (simp add: row_def)
  ultimately show ?thesis using shell_parse_correct [of "row ''  echo hi  there ''"] by auto
qed


end
