(* ===== verification/Commands.thy ===== *)
theory Commands
  imports HeapAlloc Input Rtc Pci CpuInfo ShellText
begin

text \<open>
  The state of the whole kernel, and the commands of \<open>src/shell.c\<close>.  The platform is a parameter: the
  machine's environment, \<open>cpuid\<close>, the memory map the loader left at an address, the addresses the
  linker chose, and what an uninitialised array of the stack holds.  An argument of a command is the
  terminated byte array its pointer points to.
\<close>

section \<open>The kernel\<close>

record 'd kern = "'d machine" +
  gdt_st :: gdt_state
  boot_st :: boot_info_ptr
  pmm_st :: pmm
  heap_st :: heap
  cmd_buffer :: "u8 list"
  pci_devices :: "pci_device list"
  hist :: shell_history

record 'd platform =
  env :: "'d env"
  cpuid_at :: cpuid
  map_at :: "u64 \<Rightarrow> memory_map_entry list"
  idt_addr :: u64
  gdt_addr :: u64
  tss_addr :: u64
  isr_stub_table :: "u64 list"
  stack_line :: "u8 list"
  stack_info :: cpu_info

abbreviation ports_of :: "'d platform \<Rightarrow> 'd ports" where
  "ports_of K \<equiv> io (env K)"

type_synonym 'd operation = "'d kern \<Rightarrow> (unit, 'd kern) outcome option"
type_synonym 'd command = "'d platform \<Rightarrow> u8 list list \<Rightarrow> 'd operation"

definition KERNEL_VERSION :: string where "KERNEL_VERSION = ''0.2.0''"

section \<open>Commands that print\<close>

definition cmd_help :: "'d platform \<Rightarrow> 'd kern \<Rightarrow> 'd kern option" where
  "cmd_help K s = (let P = ports_of K in
     do { s \<leftarrow> kprint P (lit ''Available commands:\<newline>'') s;
          s \<leftarrow> kprint P (lit ''  help     - Show this help message\<newline>'') s;
          s \<leftarrow> kprint P (lit ''  clear    - Clear the screen\<newline>'') s;
          s \<leftarrow> kprint P (lit ''  echo     - Print text\<newline>'') s;
          s \<leftarrow> kprint P (lit ''  color    - Change text color\<newline>'') s;
          s \<leftarrow> kprint P (lit ''  rainbow  - Rainbow text demo\<newline>'') s;
          s \<leftarrow> kprint P (lit ''  version  - Show kernel version\<newline>'') s;
          s \<leftarrow> kprint P (lit ''  uptime   - Show system uptime\<newline>'') s;
          s \<leftarrow> kprint P (lit ''  sleep    - Sleep for N milliseconds\<newline>'') s;
          s \<leftarrow> kprint P (lit ''  time     - Read RTC time\<newline>'') s;
          s \<leftarrow> kprint P (lit ''  cpuinfo  - Show CPU identification\<newline>'') s;
          s \<leftarrow> kprint P (lit ''  pci      - Enumerate PCI devices\<newline>'') s;
          s \<leftarrow> kprint P (lit ''  meminfo  - Show PMM statistics\<newline>'') s;
          s \<leftarrow> kprint P (lit ''  heapinfo - Show heap statistics\<newline>'') s;
          s \<leftarrow> kprint P (lit ''  allocdemo- Allocate/free a heap block\<newline>'') s;
          s \<leftarrow> kprint P (lit ''  mmap     - Show BIOS memory map\<newline>'') s;
          s \<leftarrow> kprint P (lit ''  panic    - Trigger a panic for testing\<newline>'') s;
          s \<leftarrow> kprint P (lit ''  reboot   - Reboot the system\<newline>'') s;
          s \<leftarrow> kprint P (lit ''  halt     - Halt the system\<newline>'') s;
          kprint P (lit ''  exit     - Exit QEMU successfully\<newline>'') s })"

definition cmd_clear :: "'d platform \<Rightarrow> 'd kern \<Rightarrow> 'd kern option" where
  "cmd_clear K s = on_vga (vga_clear (ports_of K)) s"

text \<open>The loop of \<open>cmd_echo\<close> and \<open>cmd_rainbow\<close>: the arguments with spaces between them.\<close>

fun print_args :: "(u8 list \<Rightarrow> 'd kern \<Rightarrow> 'd kern option) \<Rightarrow> u8 list list \<Rightarrow> 'd kern \<Rightarrow> 'd kern option" where
  "print_args out [] s = Some s"
| "print_args out (a # as) s =
     do { s \<leftarrow> out a s;
          s \<leftarrow> (if as \<noteq> [] then out (lit '' '') s else Some s);
          print_args out as s }"

definition cmd_echo :: "'d platform \<Rightarrow> u8 list list \<Rightarrow> 'd kern \<Rightarrow> 'd kern option" where
  "cmd_echo K args s =
     do { s \<leftarrow> print_args (kprint (ports_of K)) args s;
          kprint (ports_of K) (lit ''\<newline>'') s }"

definition color_names :: "(string \<times> u8) list" where
  "color_names = [(''red'', VGA_COLOR_LIGHT_RED), (''green'', VGA_COLOR_LIGHT_GREEN), (''blue'', VGA_COLOR_LIGHT_BLUE),
     (''yellow'', VGA_COLOR_YELLOW), (''cyan'', VGA_COLOR_LIGHT_CYAN), (''magenta'', VGA_COLOR_LIGHT_MAGENTA),
     (''white'', VGA_COLOR_WHITE)]"

text \<open>A chain of comparisons with \<open>kstrcmp\<close>; the outer \<open>None\<close> is an argument that is not terminated.\<close>

fun match_name :: "(string \<times> 'a) list \<Rightarrow> u8 list \<Rightarrow> 'a option option" where
  "match_name [] cs = Some None"
| "match_name ((n, x) # rest) cs =
     do { r \<leftarrow> kstrcmp cs (lit n); if r = 0 then Some (Some x) else match_name rest cs }"

definition cmd_color :: "'d platform \<Rightarrow> u8 list list \<Rightarrow> 'd kern \<Rightarrow> 'd kern option" where
  "cmd_color K args s =
     (if args = [] then kprint (ports_of K) (lit ''Usage: color <name>\<newline>'') s
      else do {
        m \<leftarrow> match_name color_names (hd args);
        case m of
          None \<Rightarrow> kprint (ports_of K) (lit ''Unknown color\<newline>'') s
        | Some color \<Rightarrow>
            kprint (ports_of K) (lit ''Color changed!\<newline>'')
              (s\<lparr>con_vga := vga_setcolor (vga_entry_color color VGA_COLOR_BLACK) (con_vga s)\<rparr>) })"

definition cmd_rainbow :: "'d platform \<Rightarrow> u8 list list \<Rightarrow> 'd kern \<Rightarrow> 'd kern option" where
  "cmd_rainbow K args s =
     (if args = [] then kprint_rainbow (ports_of K) (lit ''Rainbow text demo!\<newline>'') s
      else do {
        s \<leftarrow> print_args (kprint_rainbow (ports_of K)) args s;
        kprint_rainbow (ports_of K) (lit ''\<newline>'') s })"

definition cmd_version :: "'d platform \<Rightarrow> 'd kern \<Rightarrow> 'd kern option" where
  "cmd_version K s = (let P = ports_of K in
     do { s \<leftarrow> kprint P (lit ''Kernel version: '') s;
          s \<leftarrow> kprint P (lit KERNEL_VERSION) s;
          kprint P (lit ''\<newline>Architecture: x86_64\<newline>'') s })"

definition cmd_uptime :: "'d platform \<Rightarrow> 'd kern \<Rightarrow> 'd kern option" where
  "cmd_uptime K s = (let P = ports_of K in
     do { s \<leftarrow> kprint P (lit ''Uptime (ms): '') s;
          s \<leftarrow> kprint_u64 P (system_get_uptime_ms s) s;
          kprint P (lit ''\<newline>'') s })"

text \<open>A number below 10 gets a leading zero.\<close>

definition kprint_padded :: "'d ports \<Rightarrow> u8 \<Rightarrow> 'd kern \<Rightarrow> 'd kern option" where
  "kprint_padded P v s =
     do { s \<leftarrow> (if v < 10 then kprint P (lit ''0'') s else Some s); kprint_u64 P (ucast v) s }"

text \<open>The pointer given to \<open>rtc_read_time\<close> is not null, so the read does not fail.\<close>

definition cmd_time :: "'d platform \<Rightarrow> 'd kern \<Rightarrow> 'd kern option" where
  "cmd_time K s = (let P = ports_of K in
     do { (now, d) \<leftarrow> rtc_read_time P (dev s);
          let s = s\<lparr>dev := d\<rparr>;
          s \<leftarrow> kprint P (lit ''RTC time: '') s;
          s \<leftarrow> kprint_u64 P (ucast (year now)) s;
          s \<leftarrow> kprint P (lit ''-'') s;
          s \<leftarrow> kprint_padded P (month now) s;
          s \<leftarrow> kprint P (lit ''-'') s;
          s \<leftarrow> kprint_padded P (day now) s;
          s \<leftarrow> kprint P (lit '' '') s;
          s \<leftarrow> kprint_padded P (hour now) s;
          s \<leftarrow> kprint P (lit '':'') s;
          s \<leftarrow> kprint_padded P (minute now) s;
          s \<leftarrow> kprint P (lit '':'') s;
          s \<leftarrow> kprint_padded P (second now) s;
          kprint P (lit ''\<newline>'') s })"

definition yes_no :: "u8 \<Rightarrow> string" where
  "yes_no v = (if v \<noteq> 0 then ''yes'' else ''no'')"

text \<open>The local variable \<open>info\<close> holds what the stack held before.\<close>

definition cmd_cpuinfo :: "'d platform \<Rightarrow> 'd kern \<Rightarrow> 'd kern option" where
  "cmd_cpuinfo K s = (let P = ports_of K in
     do { info \<leftarrow> cpu_info_read (cpuid_at K) (Some (stack_info K));
          s \<leftarrow> kprint P (lit ''CPU vendor: '') s;
          s \<leftarrow> kprint P (vendor info) s;
          s \<leftarrow> kprint P (lit ''\<newline>CPU family: '') s;
          s \<leftarrow> kprint_u64 P (ucast (family info)) s;
          s \<leftarrow> kprint P (lit ''\<newline>CPU model: '') s;
          s \<leftarrow> kprint_u64 P (ucast (model info)) s;
          s \<leftarrow> kprint P (lit ''\<newline>CPU stepping: '') s;
          s \<leftarrow> kprint_u64 P (ucast (stepping info)) s;
          s \<leftarrow> kprint P (lit ''\<newline>APIC present: '') s;
          s \<leftarrow> kprint P (lit (yes_no (apic_present info))) s;
          s \<leftarrow> kprint P (lit ''\<newline>MSR supported: '') s;
          s \<leftarrow> kprint P (lit (yes_no (msr_supported info))) s;
          kprint P (lit ''\<newline>'') s })"

text \<open>One line of \<open>cmd_pci\<close>.\<close>

definition print_device :: "'d ports \<Rightarrow> pci_device \<Rightarrow> 'd kern \<Rightarrow> 'd kern option" where
  "print_device P dv s =
     do { s \<leftarrow> kprint P (lit ''bus='') s;
          s \<leftarrow> kprint_u64 P (ucast (bus dv)) s;
          s \<leftarrow> kprint P (lit '' slot='') s;
          s \<leftarrow> kprint_u64 P (ucast (slot dv)) s;
          s \<leftarrow> kprint P (lit '' func='') s;
          s \<leftarrow> kprint_u64 P (ucast (func dv)) s;
          s \<leftarrow> kprint P (lit '' vendor='') s;
          s \<leftarrow> kprint_hex P (ucast (vendor_id dv)) s;
          s \<leftarrow> kprint P (lit '' device='') s;
          s \<leftarrow> kprint_hex P (ucast (device_id dv)) s;
          s \<leftarrow> kprint P (lit '' class='') s;
          s \<leftarrow> kprint P (lit (pci_class_name (class_code dv) (subclass_code dv))) s;
          kprint P (lit ''\<newline>'') s }"

definition cmd_pci :: "'d platform \<Rightarrow> 'd kern \<Rightarrow> 'd kern option" where
  "cmd_pci K s = (let P = ports_of K in
     do { (count, devices, d) \<leftarrow> pci_enumerate P (Some (pci_devices s)) 64 (dev s);
          devices \<leftarrow> devices;
          let s = s\<lparr>pci_devices := devices, dev := d\<rparr>;
          s \<leftarrow> kprint P (lit ''PCI devices: '') s;
          s \<leftarrow> kprint_u64 P (ucast count) s;
          s \<leftarrow> kprint P (lit ''\<newline>'') s;
          for_range 0 (unat count) (\<lambda>i s. do { dv \<leftarrow> rd devices i; print_device P dv s }) s })"

definition cmd_meminfo :: "'d platform \<Rightarrow> 'd kern \<Rightarrow> 'd kern option" where
  "cmd_meminfo K s = (let P = ports_of K in
     do { s \<leftarrow> kprint P (lit ''PMM total bytes: '') s;
          s \<leftarrow> kprint_u64 P (pmm_total_bytes (pmm_st s)) s;
          s \<leftarrow> kprint P (lit ''\<newline>PMM free bytes: '') s;
          s \<leftarrow> kprint_u64 P (pmm_free_bytes (pmm_st s)) s;
          s \<leftarrow> kprint P (lit ''\<newline>PMM reserved bytes: '') s;
          s \<leftarrow> kprint_u64 P (pmm_reserved_bytes (pmm_st s)) s;
          kprint P (lit ''\<newline>'') s })"

definition cmd_heapinfo :: "'d platform \<Rightarrow> 'd kern \<Rightarrow> 'd kern option" where
  "cmd_heapinfo K s = (let P = ports_of K in
     do { s \<leftarrow> kprint P (lit ''Heap total bytes: '') s;
          s \<leftarrow> kprint_u64 P (heap_total_bytes (heap_st s)) s;
          s \<leftarrow> kprint P (lit ''\<newline>Heap used bytes: '') s;
          s \<leftarrow> kprint_u64 P (heap_used_bytes (heap_st s)) s;
          s \<leftarrow> kprint P (lit ''\<newline>Heap free bytes: '') s;
          s \<leftarrow> kprint_u64 P (heap_free_bytes (heap_st s)) s;
          kprint P (lit ''\<newline>'') s })"

text \<open>The optional number at the start of an argument list, or \<open>None\<close> when it is not a number.\<close>

definition number_arg :: "u8 list list \<Rightarrow> u64 \<Rightarrow> u64 option option" where
  "number_arg args dflt = (if args = [] then Some (Some dflt) else ku64_parse (Some (hd args)) True)"

definition cmd_allocdemo :: "'d platform \<Rightarrow> u8 list list \<Rightarrow> 'd kern \<Rightarrow> 'd kern option" where
  "cmd_allocdemo K args s = (let P = ports_of K in
     do { n \<leftarrow> number_arg args 64;
          case n of
            None \<Rightarrow> kprint P (lit ''Usage: allocdemo [bytes]\<newline>'') s
          | Some sz \<Rightarrow>
              do { (ptr, h, p) \<leftarrow> kmalloc pmm_alloc_frames sz (heap_st s) (pmm_st s);
                   let s = s\<lparr>heap_st := h, pmm_st := p\<rparr>;
                   if ptr = 0 then kprint P (lit ''Allocation failed\<newline>'') s
                   else do {
                     let s = s\<lparr>heap_st := (heap_st s)\<lparr>payload := kmemset (payload (heap_st s)) ptr 0xA5 sz\<rparr>\<rparr>;
                     s \<leftarrow> kprint P (lit ''Allocated '') s;
                     s \<leftarrow> kprint_u64 P sz s;
                     s \<leftarrow> kprint P (lit '' bytes at '') s;
                     s \<leftarrow> kprint_hex P ptr s;
                     s \<leftarrow> kprint P (lit ''\<newline>'') s;
                     h \<leftarrow> kfree ptr (heap_st s);
                     kprint P (lit ''Freed allocation\<newline>'') (s\<lparr>heap_st := h\<rparr>) } } })"

definition print_entry :: "'d ports \<Rightarrow> nat \<Rightarrow> memory_map_entry \<Rightarrow> 'd kern \<Rightarrow> 'd kern option" where
  "print_entry P i e s =
     do { s \<leftarrow> kprint P (lit ''['') s;
          s \<leftarrow> kprint_u64 P (of_nat i) s;
          s \<leftarrow> kprint P (lit ''] base='') s;
          s \<leftarrow> kprint_hex P (base e) s;
          s \<leftarrow> kprint P (lit '' len='') s;
          s \<leftarrow> kprint_hex P (len e) s;
          s \<leftarrow> kprint P (lit '' type='') s;
          s \<leftarrow> kprint P (lit (boot_memory_type_name (mtype e))) s;
          kprint P (lit ''\<newline>'') s }"

definition cmd_mmap :: "'d platform \<Rightarrow> 'd kern \<Rightarrow> 'd kern option" where
  "cmd_mmap K s = (let P = ports_of K in
     do { let (entries, c) = boot_get_memory_map (boot_st s) True;
          count \<leftarrow> c;
          if entries = 0 \<or> count = 0 then kprint P (lit ''No memory map available\<newline>'') s
          else for_range 0 (unat count) (\<lambda>i s. do { e \<leftarrow> rd (map_at K entries) i; print_entry P i e s }) s })"

section \<open>Commands that wait or stop\<close>

definition cmd_sleep :: "'d platform \<Rightarrow> u8 list list \<Rightarrow> 'd operation" where
  "cmd_sleep K args s = (let P = ports_of K in
     do { n \<leftarrow> number_arg args 100;
          case n of
            None \<Rightarrow> returns (kprint P (lit ''Usage: sleep [ms]\<newline>'') s)
          | Some delay_ms \<Rightarrow>
              do { s \<leftarrow> kprint P (lit ''Sleeping for '') s;
                   s \<leftarrow> kprint_u64 P delay_ms s;
                   s \<leftarrow> kprint P (lit '' ms...\<newline>'') s;
                   and_then (system_sleep_ms (env K) delay_ms s) (\<lambda>_ s. returns (kprint P (lit ''Awake\<newline>'') s)) } })"

definition cmd_panic :: "'d platform \<Rightarrow> 'd operation" where
  "cmd_panic K s = panic (env K) (lit ''panic command invoked'') s"

definition cmd_reboot :: "'d platform \<Rightarrow> 'd operation" where
  "cmd_reboot K s =
     do { s \<leftarrow> kprint_colored (ports_of K) (lit ''Rebooting system...\<newline>'') VGA_COLOR_YELLOW VGA_COLOR_BLACK s;
          system_reboot (env K) s }"

definition cmd_halt :: "'d platform \<Rightarrow> 'd operation" where
  "cmd_halt K s =
     do { s \<leftarrow> kprint_colored (ports_of K) (lit ''System halted.\<newline>'') VGA_COLOR_RED VGA_COLOR_BLACK s;
          system_halt s }"

section \<open>Dispatch\<close>

text \<open>The table; commands that ignore their arguments take none here.\<close>

definition commands :: "(string \<times> 'd command) list" where
  "commands =
     [(''help'', \<lambda>K args s. returns (cmd_help K s)), (''clear'', \<lambda>K args s. returns (cmd_clear K s)),
      (''echo'', \<lambda>K args s. returns (cmd_echo K args s)), (''color'', \<lambda>K args s. returns (cmd_color K args s)),
      (''rainbow'', \<lambda>K args s. returns (cmd_rainbow K args s)), (''version'', \<lambda>K args s. returns (cmd_version K s)),
      (''uptime'', \<lambda>K args s. returns (cmd_uptime K s)), (''sleep'', cmd_sleep),
      (''time'', \<lambda>K args s. returns (cmd_time K s)), (''cpuinfo'', \<lambda>K args s. returns (cmd_cpuinfo K s)),
      (''pci'', \<lambda>K args s. returns (cmd_pci K s)), (''meminfo'', \<lambda>K args s. returns (cmd_meminfo K s)),
      (''heapinfo'', \<lambda>K args s. returns (cmd_heapinfo K s)), (''allocdemo'', \<lambda>K args s. returns (cmd_allocdemo K args s)),
      (''mmap'', \<lambda>K args s. returns (cmd_mmap K s)), (''panic'', \<lambda>K args s. cmd_panic K s),
      (''reboot'', \<lambda>K args s. cmd_reboot K s), (''halt'', \<lambda>K args s. cmd_halt K s)]"

text \<open>The result says whether the shell exits.\<close>

definition execute_command ::
    "'d platform \<Rightarrow> u8 list \<Rightarrow> u8 list list \<Rightarrow> 'd kern \<Rightarrow> (bool, 'd kern) outcome option" where
  "execute_command K cmd args s =
     do { c \<leftarrow> rd cmd 0;
          if c = 0 then Some (Returns False s)
          else do {
            r \<leftarrow> kstrcmp cmd (lit ''exit'');
            if r = 0 then Some (Returns True s)
            else do {
              m \<leftarrow> match_name commands cmd;
              case m of
                Some fn \<Rightarrow> and_then (fn K args s) (\<lambda>_ s. Some (Returns False s))
              | None \<Rightarrow>
                  do { s \<leftarrow> kprint (ports_of K) (lit ''Unknown command: '') s;
                       s \<leftarrow> kprint (ports_of K) cmd s;
                       s \<leftarrow> kprint (ports_of K) (lit ''\<newline>'') s;
                       Some (Returns False s) } } } }"

end
