(* ===== verification/Shell.thy ===== *)
theory Shell
  imports Commands
begin

text \<open>
  The interactive part of \<open>src/shell.c\<close>: the prompt, the line editor and the main loop.  The state of
  the editor is the local variables of \<open>shell_run\<close>; the line itself is the static \<open>cmd_buffer\<close>.
\<close>

section \<open>The line\<close>

definition shell_print_prompt :: "'d platform \<Rightarrow> 'd kern \<Rightarrow> 'd kern option" where
  "shell_print_prompt K s =
     do { s \<leftarrow> kprint_colored (ports_of K) (lit ''kernel'') VGA_COLOR_LIGHT_CYAN VGA_COLOR_BLACK s;
          kprint_colored (ports_of K) (lit ''> '') VGA_COLOR_LIGHT_GREEN VGA_COLOR_BLACK s }"

abbreviation (input) BACKSPACE :: "u8 list" where "BACKSPACE \<equiv> [8, 0]"

text \<open>\<open>while (*pos > 0)\<close>: the cursor goes back to the start of the line.\<close>

primrec erase_line :: "'d platform \<Rightarrow> nat \<Rightarrow> 'd kern \<Rightarrow> 'd kern option" where
  "erase_line K 0 s = Some s"
| "erase_line K (Suc pos) s = do { s \<leftarrow> kprint (ports_of K) BACKSPACE s; erase_line K pos s }"

text \<open>The \<open>for\<close> loop of \<open>shell_set_buffer\<close>, from index \<open>i\<close>: the new \<open>*pos\<close> and the buffer.\<close>

function copy_text :: "u8 list \<Rightarrow> nat \<Rightarrow> u16 \<Rightarrow> u8 list \<Rightarrow> (u16 \<times> u8 list) option" where
  "copy_text text i pos buffer =
     do { c \<leftarrow> rd text i;
          if c \<noteq> 0 \<and> i + 1 < CMD_BUFFER_SIZE
          then do { b \<leftarrow> wr buffer i c; copy_text text (i + 1) (of_nat (i + 1)) b }
          else Some (pos, buffer) }"
  by pat_completeness auto
termination by (relation "measure (\<lambda>(text, i, pos, buffer). CMD_BUFFER_SIZE - i)") auto

declare copy_text.simps [simp del]

definition shell_set_buffer :: "'d platform \<Rightarrow> u8 list \<Rightarrow> u16 \<Rightarrow> 'd kern \<Rightarrow> (u16 \<times> 'd kern) option" where
  "shell_set_buffer K text pos s =
     do { s \<leftarrow> erase_line K (unat pos) s;
          (pos, b) \<leftarrow> copy_text text 0 0 (cmd_buffer s);
          b \<leftarrow> wr b (unat pos) 0;
          s \<leftarrow> kprint (ports_of K) text (s\<lparr>cmd_buffer := b\<rparr>);
          Some (pos, s) }"

section \<open>The line editor\<close>

record editor =
  pos :: u16
  history_position :: nat
  current_line :: "u8 list"

abbreviation entries :: "'d kern \<Rightarrow> nat" where
  "entries s \<equiv> unat (history_count (hist s))"

text \<open>\<open>kmemcpy(current_line, cmd_buffer, CMD_BUFFER_SIZE)\<close>.\<close>

definition keep_line :: "editor \<Rightarrow> 'd kern \<Rightarrow> editor option" where
  "keep_line ed s =
     (if length (cmd_buffer s) < CMD_BUFFER_SIZE then None
      else Some (ed\<lparr>current_line := take CMD_BUFFER_SIZE (cmd_buffer s)\<rparr>))"

text \<open>Leaving the history: the line shown becomes the line that is edited.\<close>

definition leave_history :: "editor \<Rightarrow> 'd kern \<Rightarrow> editor option" where
  "leave_history ed s =
     (if history_position ed \<noteq> entries s
      then do { ed \<leftarrow> keep_line ed s; Some (ed\<lparr>history_position := entries s\<rparr>) }
      else Some ed)"

definition edit_up :: "'d platform \<Rightarrow> editor \<times> 'd kern \<Rightarrow> (editor \<times> 'd kern) option" where
  "edit_up K = (\<lambda>(ed, s).
     if history_count (hist s) = 0 \<or> history_position ed = 0 then Some (ed, s)
     else do {
       ed \<leftarrow> (if history_position ed = entries s then keep_line ed s else Some ed);
       text \<leftarrow> history_get (history_position ed - 1) (hist s);
       (p, s) \<leftarrow> shell_set_buffer K text (pos ed) s;
       Some (ed\<lparr>pos := p, history_position := history_position ed - 1\<rparr>, s) })"

definition edit_down :: "'d platform \<Rightarrow> editor \<times> 'd kern \<Rightarrow> (editor \<times> 'd kern) option" where
  "edit_down K = (\<lambda>(ed, s).
     if history_position ed \<ge> entries s then Some (ed, s)
     else do {
       let at = history_position ed + 1;
       text \<leftarrow> (if at = entries s then Some (current_line ed) else history_get at (hist s));
       (p, s) \<leftarrow> shell_set_buffer K text (pos ed) s;
       Some (ed\<lparr>pos := p, history_position := at\<rparr>, s) })"

definition edit_backspace :: "'d platform \<Rightarrow> editor \<times> 'd kern \<Rightarrow> (editor \<times> 'd kern) option" where
  "edit_backspace K = (\<lambda>(ed, s).
     if pos ed > 0 then
       do { ed \<leftarrow> leave_history ed s;
            let p = pos ed - 1;
            b \<leftarrow> wr (cmd_buffer s) (unat p) 0;
            s \<leftarrow> kprint (ports_of K) BACKSPACE (s\<lparr>cmd_buffer := b\<rparr>);
            Some (ed\<lparr>pos := p\<rparr>, s) }
     else Some (ed, s))"

definition edit_insert :: "'d platform \<Rightarrow> u8 \<Rightarrow> editor \<times> 'd kern \<Rightarrow> (editor \<times> 'd kern) option" where
  "edit_insert K c = (\<lambda>(ed, s).
     if unat (pos ed) + 1 < CMD_BUFFER_SIZE then
       do { ed \<leftarrow> leave_history ed s;
            b \<leftarrow> wr (cmd_buffer s) (unat (pos ed)) c;
            let p = pos ed + 1;
            b \<leftarrow> wr b (unat p) 0;
            s \<leftarrow> kprint (ports_of K) [c, 0] (s\<lparr>cmd_buffer := b\<rparr>);
            Some (ed\<lparr>pos := p\<rparr>, s) }
     else Some (ed, s))"

text \<open>One event; the result says whether the line is complete.\<close>

definition edit_event ::
    "'d platform \<Rightarrow> input_event \<Rightarrow> editor \<times> 'd kern \<Rightarrow> (bool \<times> editor \<times> 'd kern) option" where
  "edit_event K event = (\<lambda>(ed, s).
     (let P = ports_of K; c = ch event in
      if ev_type event = INPUT_EVENT_LEFT then do { s \<leftarrow> on_vga (vga_scroll_view P (-1)) s; Some (False, ed, s) }
      else if ev_type event = INPUT_EVENT_RIGHT then do { s \<leftarrow> on_vga (vga_scroll_view P 1) s; Some (False, ed, s) }
      else do {
        s \<leftarrow> on_vga (vga_scroll_to_bottom P) s;
        if ev_type event = INPUT_EVENT_UP then do { st \<leftarrow> edit_up K (ed, s); Some (False, st) }
        else if ev_type event = INPUT_EVENT_DOWN then do { st \<leftarrow> edit_down K (ed, s); Some (False, st) }
        else if ev_type event \<noteq> INPUT_EVENT_CHAR then Some (False, ed, s)
        else if c = 10 then
          do { s \<leftarrow> kprint P (lit ''\<newline>'') s;
               b \<leftarrow> wr (cmd_buffer s) (unat (pos ed)) 0;
               Some (True, ed, s\<lparr>cmd_buffer := b\<rparr>) }
        else if c = 8 \<or> c = 0x7F then do { st \<leftarrow> edit_backspace K (ed, s); Some (False, st) }
        else do { st \<leftarrow> edit_insert K c (ed, s); Some (False, st) } }))"

text \<open>The inner loop of \<open>shell_run\<close>: an event is waited for and handled.\<close>

definition line_step ::
    "'d platform \<Rightarrow> editor \<times> 'd kern \<Rightarrow> ((unit, 'd kern) outcome option \<times> editor \<times> 'd kern) option" where
  "line_step K = (\<lambda>(ed, s).
     do { r \<leftarrow> input_getevent (env K) s;
          case r of
            Halts s \<Rightarrow> Some (Some (Halts s), ed, s)
          | Returns event s \<Rightarrow>
              do { (complete, ed, s) \<leftarrow> edit_event K event (ed, s);
                   Some (if complete then Some (Returns () s) else None, ed, s) } })"

text \<open>
  The local variables at the start of a line.  \<open>current_line\<close> is an uninitialised array of which the
  first byte is set; \<open>stack_line\<close> of the platform is what it held before.
\<close>

definition new_line :: "'d platform \<Rightarrow> 'd kern \<Rightarrow> editor option" where
  "new_line K s =
     do { l \<leftarrow> wr (stack_line K) 0 0; Some \<lparr>pos = 0, history_position = entries s, current_line = l\<rparr> }"

definition shell_read_line :: "'d platform \<Rightarrow> 'd operation" where
  "shell_read_line K s =
     do { ed \<leftarrow> new_line K s;
          (r, _) \<leftarrow> repeat_until (line_step K) (ed, s);
          Some r }"

section \<open>The main loop\<close>

definition shell_init :: "'d platform \<Rightarrow> 'd kern \<Rightarrow> 'd kern option" where
  "shell_init K s =
     do { s \<leftarrow> cmd_clear K s;
          s \<leftarrow> kprint_rainbow (ports_of K) (lit ''Welcome to the kernel shell!\<newline>'') s;
          kprint (ports_of K) (lit ''Type 'help' for available commands.\<newline>\<newline>'') s }"

text \<open>After a line: it is remembered, split and executed.  The result says whether the shell exits.\<close>

definition shell_execute_line :: "'d platform \<Rightarrow> 'd kern \<Rightarrow> (bool, 'd kern) outcome option" where
  "shell_execute_line K s =
     do { h \<leftarrow> history_add (cmd_buffer s) (hist s);
          (b, cmd, args) \<leftarrow> shell_parse_command (cmd_buffer s);
          execute_command K (drop cmd b) (map (\<lambda>i. drop i b) args) (s\<lparr>hist := h, cmd_buffer := b\<rparr>) }"

definition shell_turn :: "'d platform \<Rightarrow> 'd kern \<Rightarrow> (bool, 'd kern) outcome option" where
  "shell_turn K s =
     do { s \<leftarrow> shell_print_prompt K s;
          and_then (shell_read_line K s) (\<lambda>_ s. shell_execute_line K s) }"

definition shell_step ::
    "'d platform \<Rightarrow> 'd kern \<Rightarrow> ((unit, 'd kern) outcome option \<times> 'd kern) option" where
  "shell_step K s =
     do { r \<leftarrow> shell_turn K s;
          case r of
            Halts s \<Rightarrow> Some (Some (Halts s), s)
          | Returns exits s \<Rightarrow>
              (if exits then
                 do { s \<leftarrow> kprint_colored (ports_of K) (lit ''Exiting shell.\<newline>'') VGA_COLOR_YELLOW VGA_COLOR_BLACK s;
                      let s = system_qemu_exit (env K) 0x10 s;
                      Some (Some (Returns () s), s) }
               else Some (None, s)) }"

definition shell_run :: "'d platform \<Rightarrow> 'd operation" where
  "shell_run K s =
     do { s \<leftarrow> shell_init K s;
          (r, _) \<leftarrow> repeat_until (shell_step K) s;
          Some r }"

end
