(* ===== verification/Replies.thy ===== *)
theory Replies
  imports Commands
begin

text \<open>
  What the shell answers: for every command that only prints, the script it runs, computed from the
  words of the line and the state; and that the code runs exactly this script.
\<close>

section \<open>Scripts of pieces\<close>

abbreviation out :: "string \<Rightarrow> action list" where
  "out t \<equiv> map Put (str t)"

abbreviation dec :: "nat \<Rightarrow> action list" where
  "dec n \<equiv> map Put (digit_string 10 n)"

definition hex :: "u64 \<Rightarrow> action list" where
  "hex v = map Put (hex_text v)"

lemma str_append: "str (xs @ ys) = str xs @ str ys"
  by (simp add: str_def)

lemma only_conE: "only_con s0 s \<Longrightarrow> (\<And>d v. s = s0\<lparr>con_vga := v, dev := d\<rparr> \<Longrightarrow> thesis) \<Longrightarrow> thesis"
  unfolding only_con_def by blast

lemma prints_state_u64:
  fixes s0 :: "('d, 'z) con_scheme"
  assumes "uart P sent okd" and "\<And>(s :: ('d, 'z) con_scheme) d v. F (s\<lparr>con_vga := v, dev := d\<rparr>) = F s"
  shows "prints sent okd s0 (\<lambda>s. kprint_u64 P (F s) s) (dec (unat (F s0)))"
proof (rule prints_u64 [OF assms(1)])
  fix s :: "('d, 'z) con_scheme"
  assume "only_con s0 s"
  then show "F s = F s0" by (rule only_conE) (simp only: assms(2))
qed

lemma prints_for_range:
  assumes "\<And>i. a \<le> i \<Longrightarrow> i < n \<Longrightarrow> prints sent okd s0 (f i) (xs i)"
  shows "prints sent okd s0 (for_range a n f) (concat (map xs [a..<n]))"
  using assms
proof (induction "n - a" arbitrary: a)
  case 0
  then have "for_range a n f = Some" by (intro ext) simp
  then show ?case using 0 prints_none by simp
next
  case (Suc k)
  then have lt: "a < n" by simp
  have e: "for_range a n f = (\<lambda>s. Option.bind (f a s) (for_range (Suc a) n f))"
    using lt by (intro ext, subst for_range.simps) simp
  have "prints sent okd s0 (for_range a n f) (xs a @ concat (map xs [Suc a..<n]))"
    unfolding e using Suc lt by (intro prints_bind) simp_all
  then show ?case using lt by (simp add: upt_conv_Cons)
qed

section \<open>Arguments\<close>

fun spaced :: "('a \<Rightarrow> action list) \<Rightarrow> action list \<Rightarrow> 'a list \<Rightarrow> action list" where
  "spaced f sep [] = []"
| "spaced f sep (a # as) = f a @ (if as \<noteq> [] then sep else []) @ spaced f sep as"

lemma prints_args:
  assumes "\<And>a. a \<in> set as \<Longrightarrow> prints sent okd s0 (g a) (f a)" and "prints sent okd s0 (g (lit '' '')) sep"
  shows "prints sent okd s0 (print_args g as) (spaced f sep as)"
  using assms(1)
proof (induction as)
  case Nil
  have "print_args g [] = Some" by (intro ext) simp
  then show ?case using prints_none by simp
next
  case (Cons a as)
  have "prints sent okd s0 (\<lambda>s. Option.bind (g a s) (\<lambda>s. Option.bind (if as \<noteq> [] then g (lit '' '') s else Some s) (print_args g as)))
      (f a @ (if as \<noteq> [] then sep else []) @ spaced f sep as)"
    using Cons by (intro prints_bind prints_if prints_none assms(2)) simp_all
  then show ?case by (simp add: prints_def)
qed

lemma spaced_map: "spaced f sep (map g as) = spaced (f \<circ> g) sep as"
  by (induction as) simp_all

lemma match_name_map:
  assumes "0 \<in> set cs" and "list_all (\<lambda>(n, x). list_all (\<lambda>c. c \<noteq> CHR 0x00) n) tab"
  shows "match_name tab cs = Some (map_of (map (apfst str) tab) (cstr cs))"
  using assms(2)
proof (induction tab)
  case (Cons e tab)
  obtain n x where e: "e = (n, x)" by (cases e)
  obtain r where "kstrcmp cs (lit n) = Some r" "r = 0 \<longleftrightarrow> cstr cs = cstr (lit n)"
    using kstrcmp_cstr [OF assms(1), of "lit n"] by (auto simp: lit_def)
  then show ?case using Cons e by (auto simp: cstr_lit)
qed simp

section \<open>Scripts of commands\<close>

definition help_text :: string where
  "help_text =
     ''Available commands:\<newline>'' @
     ''  help     - Show this help message\<newline>'' @
     ''  clear    - Clear the screen\<newline>'' @
     ''  echo     - Print text\<newline>'' @
     ''  color    - Change text color\<newline>'' @
     ''  rainbow  - Rainbow text demo\<newline>'' @
     ''  version  - Show kernel version\<newline>'' @
     ''  uptime   - Show system uptime\<newline>'' @
     ''  sleep    - Sleep for N milliseconds\<newline>'' @
     ''  time     - Read RTC time\<newline>'' @
     ''  cpuinfo  - Show CPU identification\<newline>'' @
     ''  pci      - Enumerate PCI devices\<newline>'' @
     ''  meminfo  - Show PMM statistics\<newline>'' @
     ''  heapinfo - Show heap statistics\<newline>'' @
     ''  allocdemo- Allocate/free a heap block\<newline>'' @
     ''  mmap     - Show BIOS memory map\<newline>'' @
     ''  panic    - Trigger a panic for testing\<newline>'' @
     ''  reboot   - Reboot the system\<newline>'' @
     ''  halt     - Halt the system\<newline>'' @
     ''  exit     - Exit QEMU successfully\<newline>''"

definition color_script :: "u8 list list \<Rightarrow> action list" where
  "color_script as =
     (if as = [] then out ''Usage: color <name>\<newline>''
      else case map_of (map (apfst str) color_names) (hd as) of
        None \<Rightarrow> out ''Unknown color\<newline>''
      | Some c \<Rightarrow> Colour (vga_entry_color c VGA_COLOR_BLACK) # out ''Color changed!\<newline>'')"

definition rainbow_text :: "u8 list \<Rightarrow> action list" where
  "rainbow_text cs = rainbow 1 cs @ [Colour 7]"

definition cpuinfo_script :: "cpu_info \<Rightarrow> action list" where
  "cpuinfo_script i =
     out ''CPU vendor: '' @ map Put (cstr (vendor i)) @
     out ''\<newline>CPU family: '' @ dec (unat (family i)) @
     out ''\<newline>CPU model: '' @ dec (unat (model i)) @
     out ''\<newline>CPU stepping: '' @ dec (unat (stepping i)) @
     out ''\<newline>APIC present: '' @ out (yes_no (apic_present i)) @
     out ''\<newline>MSR supported: '' @ out (yes_no (msr_supported i)) @ out ''\<newline>''"

definition figures :: "(string \<times> nat) list \<Rightarrow> action list" where
  "figures xs = concat (map (\<lambda>(l, n). out l @ dec n) xs) @ out ''\<newline>''"

definition entry_script :: "nat \<Rightarrow> memory_map_entry \<Rightarrow> action list" where
  "entry_script i e =
     out ''['' @ dec i @ out ''] base='' @ hex (base e) @ out '' len='' @ hex (len e) @
     out '' type='' @ out (boot_memory_type_name (mtype e)) @ out ''\<newline>''"

text \<open>The entries of the memory map that \<open>cmd_mmap\<close> lists.\<close>

definition map_entries :: "'d platform \<Rightarrow> boot_info_ptr \<Rightarrow> memory_map_entry list" where
  "map_entries K b =
     (case b of None \<Rightarrow> []
      | Some (p, bi) \<Rightarrow> (if memory_map_addr bi = 0 then []
          else take (unat (memory_map_entries bi)) (map_at K (memory_map_addr bi))))"

definition map_present :: "'d platform \<Rightarrow> boot_info_ptr \<Rightarrow> bool" where
  "map_present K b =
     (case b of None \<Rightarrow> True
      | Some (p, bi) \<Rightarrow> memory_map_addr bi = 0 \<or>
          unat (memory_map_entries bi) \<le> length (map_at K (memory_map_addr bi)))"

definition mmap_script :: "'d platform \<Rightarrow> boot_info_ptr \<Rightarrow> action list" where
  "mmap_script K b =
     (let es = map_entries K b in
      if es = [] then out ''No memory map available\<newline>''
      else concat (map (\<lambda>i. entry_script i (es ! i)) [0..<length es]))"

section \<open>The commands run their scripts\<close>

lemma prints_help: "uart (ports_of K) sent okd \<Longrightarrow> prints sent okd s0 (cmd_help K) (out help_text)"
  unfolding cmd_help_def Let_def help_text_def str_append map_append
  by (intro prints_bind prints_lit) simp_all

lemma prints_echo:
  assumes "uart (ports_of K) sent okd" and "\<forall>a \<in> set args. 0 \<in> set a"
  shows "prints sent okd s0 (cmd_echo K args) (spaced (map Put) (out '' '') (map cstr args) @ out ''\<newline>'')"
  unfolding cmd_echo_def spaced_map
  by (intro prints_bind prints_args prints_lit) (use assms in \<open>simp_all add: prints_kprint\<close>)

lemma color_names_nonzero: "list_all (\<lambda>(n, x). list_all (\<lambda>c. c \<noteq> CHR 0x00) n) color_names"
  by (simp add: color_names_def)

lemma prints_color:
  assumes "uart (ports_of K) sent okd" and "\<forall>a \<in> set args. 0 \<in> set a"
  shows "prints sent okd s0 (cmd_color K args) (color_script (map cstr args))"
proof (cases args)
  case Nil
  then show ?thesis using prints_lit [OF assms(1), of "''Usage: color <name>\<newline>''" s0]
    by (simp add: cmd_color_def color_script_def prints_def)
next
  case (Cons a as)
  then have m: "match_name color_names a = Some (map_of (map (apfst str) color_names) (cstr a))"
    using assms(2) match_name_map color_names_nonzero by auto
  show ?thesis
  proof (cases "map_of (map (apfst str) color_names) (cstr a)")
    case None
    then show ?thesis using prints_lit [OF assms(1), of "''Unknown color\<newline>''" s0] Cons m
      by (simp add: cmd_color_def color_script_def prints_def)
  next
    case (Some c)
    have "prints sent okd s0 (\<lambda>s. Option.bind (Some (console_setcolor (vga_entry_color c VGA_COLOR_BLACK) s))
        (kprint (ports_of K) (lit ''Color changed!\<newline>''))) ([Colour (vga_entry_color c VGA_COLOR_BLACK)] @ out ''Color changed!\<newline>'')"
      by (intro prints_bind prints_console_setcolor prints_lit assms(1)) simp
    then show ?thesis using Some Cons m by (simp add: cmd_color_def color_script_def prints_def console_setcolor_def)
  qed
qed

definition rainbow_script :: "u8 list list \<Rightarrow> action list" where
  "rainbow_script as =
     (if as = [] then rainbow_text (str ''Rainbow text demo!\<newline>'')
      else spaced rainbow_text (rainbow_text (str '' '')) as @ rainbow_text (str ''\<newline>''))"

lemma prints_rainbow_text:
  "uart P sent okd \<Longrightarrow> 0 \<in> set cs \<Longrightarrow> prints sent okd s0 (kprint_rainbow P cs) (rainbow_text (cstr cs))"
  "uart P sent okd \<Longrightarrow> list_all (\<lambda>c. c \<noteq> CHR 0x00) t \<Longrightarrow> prints sent okd s0 (kprint_rainbow P (lit t)) (rainbow_text (str t))"
  by (simp_all add: rainbow_text_def prints_rainbow prints_rainbow_lit)

lemma prints_cmd_rainbow:
  assumes "uart (ports_of K) sent okd" and "\<forall>a \<in> set args. 0 \<in> set a"
  shows "prints sent okd s0 (cmd_rainbow K args) (rainbow_script (map cstr args))"
proof (cases "args = []")
  case True
  then show ?thesis using prints_rainbow_text(2) [OF assms(1), of "''Rainbow text demo!\<newline>''" s0]
    by (simp add: cmd_rainbow_def rainbow_script_def prints_def)
next
  case False
  have "prints sent okd s0 (\<lambda>s. Option.bind (print_args (kprint_rainbow (ports_of K)) args s) (kprint_rainbow (ports_of K) (lit ''\<newline>'')))
      (spaced (rainbow_text \<circ> cstr) (rainbow_text (str '' '')) args @ rainbow_text (str ''\<newline>''))"
    by (intro prints_bind prints_args prints_rainbow_text(2))
      (use assms in \<open>simp_all add: rainbow_text_def prints_rainbow\<close>)
  then show ?thesis using False by (simp add: cmd_rainbow_def rainbow_script_def prints_def spaced_map)
qed

lemma prints_version: "uart (ports_of K) sent okd \<Longrightarrow>
  prints sent okd s0 (cmd_version K) (out ''Kernel version: '' @ out KERNEL_VERSION @ out ''\<newline>Architecture: x86_64\<newline>'')"
  unfolding cmd_version_def Let_def by (intro prints_bind prints_lit) (simp_all add: KERNEL_VERSION_def)

lemma prints_uptime: "uart (ports_of K) sent okd \<Longrightarrow>
  prints sent okd s0 (cmd_uptime K) (figures [(''Uptime (ms): '', unat (timer_ticks s0))])"
  unfolding cmd_uptime_def Let_def
  by (rule prints_as, (rule prints_bind prints_lit prints_state_u64 | (simp add: system_get_uptime_ms_def; fail))+)
    (simp add: figures_def system_get_uptime_ms_def)

lemma prints_meminfo: "uart (ports_of K) sent okd \<Longrightarrow>
  prints sent okd s0 (cmd_meminfo K) (figures
    [(''PMM total bytes: '', unat (pmm_total_bytes (pmm_st s0))), (''\<newline>PMM free bytes: '', unat (pmm_free_bytes (pmm_st s0))),
     (''\<newline>PMM reserved bytes: '', unat (pmm_reserved_bytes (pmm_st s0)))])"
  unfolding cmd_meminfo_def Let_def
  by (rule prints_as, (rule prints_bind prints_lit prints_state_u64 | (simp; fail))+) (simp add: figures_def)

lemma prints_heapinfo: "uart (ports_of K) sent okd \<Longrightarrow>
  prints sent okd s0 (cmd_heapinfo K) (figures
    [(''Heap total bytes: '', unat (heap_total_bytes (heap_st s0))), (''\<newline>Heap used bytes: '', unat (heap_used_bytes (heap_st s0))),
     (''\<newline>Heap free bytes: '', unat (heap_free_bytes (heap_st s0)))])"
  unfolding cmd_heapinfo_def Let_def
  by (rule prints_as, (rule prints_bind prints_lit prints_state_u64 | (simp; fail))+) (simp add: figures_def)


lemma unat_widen [simp]:
  "unat (ucast (a :: u8) :: u64) = unat a" "unat (ucast (b :: u16) :: u64) = unat b"
  "unat (ucast (c :: u32) :: u64) = unat c"
  using unsigned_less [of a, where 'a = nat] unsigned_less [of b, where 'a = nat] unsigned_less [of c, where 'a = nat]
  by (simp_all add: unsigned_ucast_eq take_bit_nat_eq_self)

lemma yes_no_nonzero: "list_all (\<lambda>c. c \<noteq> CHR 0x00) (yes_no v)"
  by (simp add: yes_no_def)

lemma prints_cpuinfo:
  assumes "uart (ports_of K) sent okd" and "0 \<in> set (vendor (cpu_info_of (cpuid_at K)))"
  shows "prints sent okd s0 (cmd_cpuinfo K) (cpuinfo_script (cpu_info_of (cpuid_at K)))"
  unfolding cmd_cpuinfo_def Let_def cpu_info_read_of Option.bind.bind_lunit
  by (rule prints_as, (rule script_rules prints_kprint assms yes_no_nonzero | (simp; fail))+)
    (simp add: cpuinfo_script_def)

lemma type_name_nonzero: "list_all (\<lambda>c. c \<noteq> CHR 0x00) (boot_memory_type_name t)"
  by (simp add: boot_memory_type_name_def)

lemma prints_entry:
  assumes "uart P sent okd" and "i < 2 ^ 64"
  shows "prints sent okd s0 (print_entry P i e) (entry_script i e)"
  unfolding print_entry_def
  by (rule prints_as, (rule script_rules assms type_name_nonzero | (simp; fail))+)
    (use assms(2) in \<open>simp add: entry_script_def hex_def hex_text_def unat_of_nat take_bit_nat_eq_self\<close>)

lemma prints_mmap:
  fixes s0 :: "'d kern"
  assumes "uart (ports_of K) sent okd" and "map_present K (boot_st s0)"
  shows "prints sent okd s0 (cmd_mmap K) (mmap_script K (boot_st s0))"
proof (rule prints_cong)
  let ?p = "fst (boot_get_memory_map (boot_st s0) True)" and ?n = "the (snd (boot_get_memory_map (boot_st s0) True))"
  let ?f = "if ?p = 0 \<or> ?n = 0 then kprint (ports_of K) (lit ''No memory map available\<newline>'')
    else for_range 0 (unat ?n) (\<lambda>i s. do { e \<leftarrow> rd (map_at K ?p) i; print_entry (ports_of K) i e s })"
  show "cmd_mmap K s = ?f s" if "only_con s0 s" for s
  proof -
    have b: "boot_st s = boot_st s0" using that by (rule only_conE) simp
    have "\<exists>p n. boot_get_memory_map (boot_st s0) True = (p, Some n)"
      by (cases "boot_st s0") (auto simp: boot_get_memory_map_def)
    then obtain p n where "boot_get_memory_map (boot_st s0) True = (p, Some n)" by blast
    then show ?thesis using b by (simp add: cmd_mmap_def)
  qed
  have none: "(?p = 0 \<or> ?n = 0) = (map_entries K (boot_st s0) = [])"
    using assms(2) by (auto simp: map_entries_def map_present_def boot_get_memory_map_def unat_eq_0 split: option.splits)
  show "prints sent okd s0 ?f (mmap_script K (boot_st s0))"
  proof (cases "?p = 0 \<or> ?n = 0")
    case True
    then show ?thesis using none prints_lit [OF assms(1), of "''No memory map available\<newline>''" s0]
      by (simp add: mmap_script_def Let_def)
  next
    case False
    let ?es = "map_entries K (boot_st s0)"
    have es: "unat ?n = length ?es" "\<And>i. i < length ?es \<Longrightarrow> rd (map_at K ?p) i = Some (?es ! i)"
      using False assms(2)
      by (auto simp: map_entries_def map_present_def boot_get_memory_map_def split: option.splits if_splits)
    have "unat ?n < 2 ^ 32" using unsigned_less [of ?n, where 'a = nat] by simp
    then have lt: "i < 2 ^ 64" if "i < length ?es" for i using that es(1) by simp
    have "prints sent okd s0 (\<lambda>s. do { e \<leftarrow> rd (map_at K ?p) i; print_entry (ports_of K) i e s }) (entry_script i (?es ! i))"
      if "i < length ?es" for i
      using prints_entry [OF assms(1) lt [OF that], of s0 "?es ! i"] es(2) [OF that] by (simp add: prints_def)
    then have "prints sent okd s0 (for_range 0 (length ?es) (\<lambda>i s. do { e \<leftarrow> rd (map_at K ?p) i; print_entry (ports_of K) i e s }))
        (concat (map (\<lambda>i. entry_script i (?es ! i)) [0..<length ?es]))"
      by (intro prints_for_range) simp
    then show ?thesis using False none es(1) by (simp add: mmap_script_def Let_def)
  qed
qed


text \<open>The number that a command is given, or the default; \<open>None\<close> when the word is not a number.\<close>

definition asked_number :: "u8 list list \<Rightarrow> u64 \<Rightarrow> u64 option" where
  "asked_number ws dflt =
     (case ws of [] \<Rightarrow> Some dflt
      | w # _ \<Rightarrow> if w \<noteq> [] \<and> (\<forall>c \<in> set w. is_digit c) then Some (of_nat (digits_value 10 (map digit_val w))) else None)"

lemma number_arg_spec:
  "\<forall>a \<in> set args. 0 \<in> set a \<Longrightarrow> number_arg args dflt = Some (asked_number (map cstr args) dflt)"
  by (cases args) (simp_all add: number_arg_def asked_number_def ku64_parse_digits)

text \<open>A command with a number prints its usage when it is given something else.\<close>

definition usage :: "string \<Rightarrow> u64 option \<Rightarrow> action list option" where
  "usage t n = (case n of None \<Rightarrow> Some (out t) | Some _ \<Rightarrow> None)"

lemma usage_Some: "usage t n = Some xs \<longleftrightarrow> n = None \<and> xs = out t"
  by (auto simp: usage_def split: option.splits)

section \<open>What the shell answers\<close>

text \<open>The commands by name, as in \<open>commands\<close>; \<open>None\<close> for one that does more than print.\<close>

type_synonym 'd script = "'d platform \<Rightarrow> 'd kern \<Rightarrow> u8 list list \<Rightarrow> action list option"

definition scripts :: "(string \<times> 'd script) list" where
  "scripts =
     [(''help'', \<lambda>K s as. Some (out help_text)), (''clear'', \<lambda>K s as. Some [Wipe]),
      (''echo'', \<lambda>K s as. Some (spaced (map Put) (out '' '') as @ out ''\<newline>'')),
      (''color'', \<lambda>K s as. Some (color_script as)), (''rainbow'', \<lambda>K s as. Some (rainbow_script as)),
      (''version'', \<lambda>K s as. Some (out ''Kernel version: '' @ out KERNEL_VERSION @ out ''\<newline>Architecture: x86_64\<newline>'')),
      (''uptime'', \<lambda>K s as. Some (figures [(''Uptime (ms): '', unat (timer_ticks s))])),
      (''sleep'', \<lambda>K s as. usage ''Usage: sleep [ms]\<newline>'' (asked_number as 100)), (''time'', \<lambda>K s as. None),
      (''cpuinfo'', \<lambda>K s as. Some (cpuinfo_script (cpu_info_of (cpuid_at K)))), (''pci'', \<lambda>K s as. None),
      (''meminfo'', \<lambda>K s as. Some (figures [(''PMM total bytes: '', unat (pmm_total_bytes (pmm_st s))),
         (''\<newline>PMM free bytes: '', unat (pmm_free_bytes (pmm_st s))),
         (''\<newline>PMM reserved bytes: '', unat (pmm_reserved_bytes (pmm_st s)))])),
      (''heapinfo'', \<lambda>K s as. Some (figures [(''Heap total bytes: '', unat (heap_total_bytes (heap_st s))),
         (''\<newline>Heap used bytes: '', unat (heap_used_bytes (heap_st s))),
         (''\<newline>Heap free bytes: '', unat (heap_free_bytes (heap_st s)))])),
      (''allocdemo'', \<lambda>K s as. usage ''Usage: allocdemo [bytes]\<newline>'' (asked_number as 64)), (''mmap'', \<lambda>K s as. Some (mmap_script K (boot_st s))),
      (''panic'', \<lambda>K s as. None), (''reboot'', \<lambda>K s as. None), (''halt'', \<lambda>K s as. None)]"

definition reply :: "'d platform \<Rightarrow> 'd kern \<Rightarrow> u8 list \<Rightarrow> u8 list list \<Rightarrow> action list option" where
  "reply K s w as =
     (if w = [] then Some []
      else if w = str ''exit'' then None
      else case map_of (map (apfst str) scripts) w of
        Some f \<Rightarrow> f K s as
      | None \<Rightarrow> Some (out ''Unknown command: '' @ map Put w @ out ''\<newline>''))"

lemma vendor_terminated: "0 \<in> set (vendor (cpu_info_of c))"
  by (simp add: cpu_info_of_def Let_def split_beta)

lemma map_of_related:
  assumes "list_all2 (\<lambda>(n, x) (m, y). n = m \<and> R x y) xs ys"
  shows "rel_option R (map_of (map (apfst f) xs) k) (map_of (map (apfst f) ys) k)"
  using assms by (induction rule: list_all2_induct) auto

text \<open>Each entry of the table runs the script of the same name.\<close>

lemma commands_run_scripts:
  assumes "uart (ports_of K) sent okd" and "map_present K (boot_st s)" and "\<forall>a \<in> set args. 0 \<in> set a"
  shows "list_all2 (\<lambda>(n, fn) (m, g). n = m \<and> (\<forall>xs. g K s (map cstr args) = Some xs \<longrightarrow>
      (\<exists>f. (\<forall>s. fn K args s = returns (f s)) \<and> prints sent okd s f xs))) commands scripts"
proof -
  have clear: "prints sent okd s (cmd_clear K) [Wipe]"
    using prints_clear [OF assms(1), of s] by (simp add: cmd_clear_def prints_def)
  have sleep: "\<exists>f. (\<forall>s. cmd_sleep K args s = returns (f s)) \<and> prints sent okd s f xs"
    if "usage ''Usage: sleep [ms]\<newline>'' (asked_number (map cstr args) 100) = Some xs" for xs
    using that prints_lit [OF assms(1), of "''Usage: sleep [ms]\<newline>''" s]
    by (intro exI [of _ "kprint (ports_of K) (lit ''Usage: sleep [ms]\<newline>'')"])
      (simp add: usage_Some cmd_sleep_def number_arg_spec [OF assms(3)])
  have alloc: "\<exists>f. (\<forall>s. returns (cmd_allocdemo K args s) = returns (f s)) \<and> prints sent okd s f xs"
    if "usage ''Usage: allocdemo [bytes]\<newline>'' (asked_number (map cstr args) 64) = Some xs" for xs
    using that prints_lit [OF assms(1), of "''Usage: allocdemo [bytes]\<newline>''" s]
    by (intro exI [of _ "kprint (ports_of K) (lit ''Usage: allocdemo [bytes]\<newline>'')"])
      (simp add: usage_Some cmd_allocdemo_def number_arg_spec [OF assms(3)])
  have runs: "\<exists>f. (\<forall>s. returns (g s) = returns (f s)) \<and> prints sent okd s f xs"
    if "Some ys = Some xs" and "prints sent okd s g ys" for g xs ys
    using that by blast
  show ?thesis
    unfolding commands_def scripts_def list_all2_Cons list_all2_Nil prod.case
    by (intro conjI TrueI refl allI impI; (erule sleep alloc | simp; fail)?; erule runs)
      (rule prints_help [OF assms(1)] clear prints_echo [OF assms(1,3)] prints_color [OF assms(1,3)]
        prints_cmd_rainbow [OF assms(1,3)] prints_version [OF assms(1)] prints_uptime [OF assms(1)]
        prints_cpuinfo [OF assms(1) vendor_terminated] prints_meminfo [OF assms(1)] prints_heapinfo [OF assms(1)]
        prints_mmap [OF assms(1,2)])+
qed

lemma commands_nonzero: "list_all (\<lambda>(n, x). list_all (\<lambda>c. c \<noteq> CHR 0x00) n) commands"
  by (simp add: commands_def)

lemma execute_command_cases:
  fixes K :: "'d platform"
  assumes "0 \<in> set cmd"
  shows "execute_command K cmd args s =
    (if cstr cmd = [] then Some (Returns False s)
     else if cstr cmd = str ''exit'' then Some (Returns True s)
     else case map_of (map (apfst str) commands) (cstr cmd) of
       Some fn \<Rightarrow> and_then (fn K args s) (\<lambda>_ s. Some (Returns False s))
     | None \<Rightarrow>
         do { s \<leftarrow> kprint (ports_of K) (lit ''Unknown command: '') s;
              s \<leftarrow> kprint (ports_of K) cmd s;
              s \<leftarrow> kprint (ports_of K) (lit ''\<newline>'') s;
              Some (Returns False s) })"
proof -
  obtain c cs where c: "cmd = c # cs" using assms by (cases cmd) auto
  obtain r where r: "kstrcmp cmd (lit ''exit'') = Some r" "r = 0 \<longleftrightarrow> cstr cmd = cstr (lit ''exit'')"
    using kstrcmp_cstr [OF assms, of "lit ''exit''"] by (auto simp: lit_def)
  have "cstr cmd = [] \<longleftrightarrow> c = 0" unfolding c by (cases "c = 0") simp_all
  moreover have "cstr (lit ''exit'') = str ''exit''" by (rule cstr_lit) simp
  moreover have "match_name commands cmd = Some (map_of (map (apfst str) (commands :: (string \<times> 'd command) list)) (cstr cmd))"
    by (rule match_name_map [OF assms commands_nonzero])
  ultimately show ?thesis
    using r unfolding execute_command_def c
    by (auto simp del: kstrcmp.simps cstr_simps split: option.splits)
qed

text \<open>Every command that only prints, the unknown ones included, runs its script and nothing else.\<close>

lemma execute_prints:
  fixes K :: "'d platform"
  assumes "uart (ports_of K) sent okd" and "con_ready okd s" and "map_present K (boot_st s)"
    and "0 \<in> set cmd" and "\<forall>a \<in> set args. 0 \<in> set a" and "reply K s (cstr cmd) (map cstr args) = Some xs"
  shows "\<exists>d v. execute_command K cmd args s = Some (Returns False (s\<lparr>con_vga := v, dev := d\<rparr>)) \<and>
    con_ready okd (s\<lparr>con_vga := v, dev := d\<rparr>) \<and> sent d = sent (dev s) @ crlf (put_bytes xs) \<and>
    term_of v = fold act xs (term_of (con_vga s))"
proof -
  have run: ?thesis if ex: "execute_command K cmd args s = and_then (returns (f s)) (\<lambda>_ s. Some (Returns False s))"
    and pr: "prints sent okd s f xs" for f
  proof -
    obtain d v where "f s = Some (s\<lparr>con_vga := v, dev := d\<rparr>)" "con_ready okd (s\<lparr>con_vga := v, dev := d\<rparr>)"
        "sent d = sent (dev s) @ crlf (put_bytes xs)" "term_of v = fold act xs (term_of (con_vga s))"
      using printsD [OF pr assms(2)] by blast
    then show ?thesis using ex by (intro exI [of _ d] exI [of _ v]) simp
  qed
  let ?C = "map_of (map (apfst str) (commands :: (string \<times> 'd command) list)) (cstr cmd)"
  let ?S = "map_of (map (apfst str) (scripts :: (string \<times> 'd script) list)) (cstr cmd)"
  note e = execute_command_cases [OF assms(4), of K args s]
  have ne: "cstr cmd \<noteq> str ''exit''" using assms(6) by (auto simp: reply_def str_def)
  have R: "rel_option (\<lambda>fn g. \<forall>xs. g K s (map cstr args) = Some xs \<longrightarrow>
      (\<exists>f. (\<forall>s. fn K args s = returns (f s)) \<and> prints sent okd s f xs)) ?C ?S"
    by (rule map_of_related [OF commands_run_scripts [OF assms(1,3,5)]])
  show ?thesis
  proof (cases "cstr cmd = []")
    case True
    then have "xs = []" "execute_command K cmd args s = and_then (returns (Some s)) (\<lambda>_ s. Some (Returns False s))"
      using assms(6) e by (simp_all add: reply_def)
    then show ?thesis using run [of Some] prints_none [of sent okd s] by simp
  next
    case False
    show ?thesis
    proof (cases ?C)
      case None
      let ?f = "\<lambda>s. Option.bind (Option.bind (kprint (ports_of K) (lit ''Unknown command: '') s) (kprint (ports_of K) cmd))
        (kprint (ports_of K) (lit ''\<newline>''))"
      have "?S = None" using R unfolding None by (simp only: rel_option_None1)
      then have xs: "xs = (out ''Unknown command: '' @ map Put (cstr cmd)) @ out ''\<newline>''"
        using assms(6) False ne by (simp add: reply_def)
      have "prints sent okd s ?f xs" unfolding xs
        by (intro prints_bind prints_lit prints_kprint assms(1,4)) simp_all
      moreover have "execute_command K cmd args s = and_then (returns (?f s)) (\<lambda>_ s. Some (Returns False s))"
        unfolding e using False ne None by (auto simp: returns_def and_then_def split: bind_splits)
      ultimately show ?thesis by (intro run)
    next
      case (Some fn)
      then obtain g where g: "?S = Some g"
        and gs: "\<And>xs. g K s (map cstr args) = Some xs \<Longrightarrow> \<exists>f. (\<forall>s. fn K args s = returns (f s)) \<and> prints sent okd s f xs"
        using R unfolding Some by (auto simp only: option_rel_Some1)
      have "g K s (map cstr args) = Some xs" using assms(6) False ne g by (simp add: reply_def)
      then obtain f where "\<forall>s. fn K args s = returns (f s)" "prints sent okd s f xs" using gs by blast
      then show ?thesis using run [of f] e False ne Some by simp
    qed
  qed
qed

end
