(* ===== verification/LineEditor.thy ===== *)
theory LineEditor
  imports Shell Replies
begin

text \<open>
  What the line editor of the shell does, on the line as a list of bytes, and that the code does it.
\<close>

section \<open>Changes of the state\<close>

text \<open>From \<open>s\<close> to \<open>s'\<close> the console ran a script; beside it only the line and the history changed.\<close>

definition same_kernel :: "'d kern \<Rightarrow> 'd kern \<Rightarrow> bool" where
  "same_kernel s s' \<longleftrightarrow> (\<exists>d v b h. s' = s\<lparr>con_vga := v, dev := d, cmd_buffer := b, hist := h\<rparr>)"

definition wrote :: "('d \<Rightarrow> u8 list) \<Rightarrow> ('d \<Rightarrow> bool) \<Rightarrow> 'd kern \<Rightarrow> action list \<Rightarrow> 'd kern \<Rightarrow> bool" where
  "wrote sent okd s xs s' \<longleftrightarrow>
     same_kernel s s' \<and> con_ready okd s' \<and> sent (dev s') = sent (dev s) @ crlf (put_bytes xs) \<and>
     term_of (con_vga s') = fold act xs (term_of (con_vga s))"

lemma same_kernelI: "same_kernel s (s\<lparr>con_vga := v, dev := d, cmd_buffer := b, hist := h\<rparr>)"
  unfolding same_kernel_def by blast

lemma same_kernel_refl [simp]: "same_kernel s s"
  using same_kernelI [where s = s and v = "con_vga s" and d = "dev s" and b = "cmd_buffer s" and h = "hist s"] by simp

lemma same_kernel_trans: "same_kernel s t \<Longrightarrow> same_kernel t u \<Longrightarrow> same_kernel s u"
  unfolding same_kernel_def by (elim exE) (simp, blast)

lemma crlf_append [simp]: "crlf (xs @ ys) = crlf xs @ crlf ys"
  by (simp add: crlf_def)

lemma wrote_refl: "con_ready okd s \<Longrightarrow> wrote sent okd s [] s"
  by (simp add: wrote_def)

lemma wrote_trans: "wrote sent okd s xs t \<Longrightarrow> wrote sent okd t ys u \<Longrightarrow> wrote sent okd s (xs @ ys) u"
  unfolding wrote_def by (auto intro: same_kernel_trans)

lemma wrote_ready: "wrote sent okd s xs t \<Longrightarrow> con_ready okd t"
  by (simp add: wrote_def)

lemma same_kernel_buffer [simp]: "same_kernel s (s\<lparr>cmd_buffer := b\<rparr>)"
  using same_kernelI [where s = s and v = "con_vga s" and d = "dev s" and b = b and h = "hist s"] by simp

lemma same_kernel_hist [simp]: "same_kernel s (s\<lparr>hist := h\<rparr>)"
  using same_kernelI [where s = s and v = "con_vga s" and d = "dev s" and b = "cmd_buffer s" and h = h] by simp

lemma same_kernel_dev [simp]: "same_kernel s (s\<lparr>dev := d\<rparr>)"
  using same_kernelI [where s = s and v = "con_vga s" and d = d and b = "cmd_buffer s" and h = "hist s"] by simp

lemma same_kernel_con: "same_kernel s (s\<lparr>con_vga := v, dev := d\<rparr>)"
  using same_kernelI [where s = s and v = v and d = d and b = "cmd_buffer s" and h = "hist s"] by simp

lemma con_ready_buffer [simp]:
  "con_ready okd (s\<lparr>cmd_buffer := b\<rparr>) = con_ready okd s" "con_ready okd (s\<lparr>hist := h\<rparr>) = con_ready okd s"
  by (simp_all add: con_ready_def)

lemma wrote_buffer: "wrote sent okd s xs t \<Longrightarrow> wrote sent okd s xs (t\<lparr>cmd_buffer := b\<rparr>)"
  unfolding wrote_def by (auto intro: same_kernel_trans)

lemma wrote_start: "wrote sent okd (s\<lparr>cmd_buffer := b\<rparr>) xs t \<Longrightarrow> wrote sent okd s xs t"
  unfolding wrote_def using same_kernel_trans [OF same_kernel_buffer [of s b], of t] by simp

lemma prints_wrote:
  assumes "prints sent okd s f xs" and "con_ready okd s"
  shows "\<exists>t. f s = Some t \<and> wrote sent okd s xs t \<and> cmd_buffer t = cmd_buffer s \<and> hist t = hist s"
proof -
  obtain d v where "f s = Some (s\<lparr>con_vga := v, dev := d\<rparr>)" "con_ready okd (s\<lparr>con_vga := v, dev := d\<rparr>)"
      "sent d = sent (dev s) @ crlf (put_bytes xs)" "term_of v = fold act xs (term_of (con_vga s))"
    using printsD [OF assms] by blast
  then show ?thesis
    using same_kernelI [where s = s and v = v and d = d and b = "cmd_buffer s" and h = "hist s"]
    by (intro exI [of _ "s\<lparr>con_vga := v, dev := d\<rparr>"]) (simp add: wrote_def)
qed

section \<open>The line as a list\<close>

text \<open>
  What is on the screen after the prompt, the text in \<open>cmd_buffer\<close> (which is not cleared when a new
  line starts), the position in the history and the line kept for the way back.
\<close>

record line_state =
  visible :: "u8 list"
  stored :: "u8 list"
  at :: nat
  saved :: "u8 list"

definition show_text :: "u8 list \<Rightarrow> line_state \<Rightarrow> line_state \<times> action list" where
  "show_text t l = (l\<lparr>visible := t, stored := t\<rparr>, replicate (length (visible l)) (Put 8) @ map Put t)"

definition back_to_line :: "u8 list list \<Rightarrow> line_state \<Rightarrow> line_state" where
  "back_to_line hs l = (if at l \<noteq> length hs then l\<lparr>saved := stored l, at := length hs\<rparr> else l)"

definition set_line :: "u8 list \<Rightarrow> line_state \<Rightarrow> line_state" where
  "set_line t l = l\<lparr>visible := t, stored := cstr t\<rparr>"

definition edit :: "u8 list list \<Rightarrow> input_event \<Rightarrow> line_state \<Rightarrow> bool \<times> line_state \<times> action list" where
  "edit hs e l =
     (let c = ch e; quiet = (False, l, [View_end]); with = (\<lambda>(l, xs). (False, l, View_end # xs)) in
      case ev_type e of
        INPUT_EVENT_LEFT \<Rightarrow> (False, l, [View_by (-1)])
      | INPUT_EVENT_RIGHT \<Rightarrow> (False, l, [View_by 1])
      | INPUT_EVENT_UP \<Rightarrow>
          if at l = 0 then quiet
          else with (show_text (hs ! (at l - 1))
                 (l\<lparr>saved := (if at l = length hs then stored l else saved l), at := at l - 1\<rparr>))
      | INPUT_EVENT_DOWN \<Rightarrow>
          if at l \<ge> length hs then quiet
          else with (show_text (if at l + 1 = length hs then saved l else hs ! (at l + 1)) (l\<lparr>at := at l + 1\<rparr>))
      | INPUT_EVENT_CHAR \<Rightarrow>
          if c = 10 then (True, l\<lparr>stored := cstr (visible l)\<rparr>, [View_end, Put 10])
          else if c = 8 \<or> c = 0x7F then
            (if visible l = [] then quiet else with (set_line (butlast (visible l)) (back_to_line hs l), [Put 8]))
          else if length (visible l) < 255 then with (set_line (visible l @ [c]) (back_to_line hs l), map Put (cstr [c]))
          else quiet)"

section \<open>The invariant of the editor\<close>

definition line_of :: "editor \<Rightarrow> 'd kern \<Rightarrow> line_state" where
  "line_of ed s = \<lparr>visible = take (unat (pos ed)) (cmd_buffer s), stored = cstr (cmd_buffer s),
     at = history_position ed, saved = cstr (current_line ed)\<rparr>"

definition editor_ok :: "editor \<Rightarrow> 'd kern \<Rightarrow> bool" where
  "editor_ok ed s \<longleftrightarrow>
     row_ok (cmd_buffer s) \<and> history_wf (hist s) \<and> unat (pos ed) \<le> 255 \<and>
     length (current_line ed) = 256 \<and> 0 \<in> set (current_line ed) \<and> history_position ed \<le> entries s"

lemma length_history_texts [simp]: "length (history_texts h) = unat (history_count h)"
  by (simp add: history_texts_def history_items_def)

lemma cstr_take_zero: "n < length b \<Longrightarrow> cstr (b[n := 0]) = cstr (take n b)"
proof (induction b arbitrary: n)
  case (Cons x b)
  show ?case
  proof (cases n)
    case (Suc m)
    then have "cstr (b[m := 0]) = cstr (take m b)" using Cons by simp
    then show ?thesis using Suc by (cases "x = 0") (simp_all del: cstr_simps add: cstr_def)
  qed simp
qed simp

lemma row_ok_update: "row_ok b \<Longrightarrow> n < 255 \<or> n = 255 \<and> c = 0 \<Longrightarrow> row_ok (b[n := c])"
  by (auto simp: row_ok_def nth_list_update)

section \<open>Writing a text over the line\<close>

lemma erase_line_spec:
  assumes "uart (ports_of K) sent okd"
  shows "con_ready okd s \<Longrightarrow> \<exists>t. erase_line K n s = Some t \<and> wrote sent okd s (replicate n (Put 8)) t \<and>
    cmd_buffer t = cmd_buffer s \<and> hist t = hist s"
proof (induction n arbitrary: s)
  case 0
  then show ?case by (simp add: wrote_refl)
next
  case (Suc n)
  have "prints sent okd s (kprint (ports_of K) BACKSPACE) (map Put (cstr BACKSPACE))"
    by (rule prints_kprint [OF assms]) simp
  then obtain t where t: "kprint (ports_of K) BACKSPACE s = Some t" "wrote sent okd s [Put 8] t"
      "cmd_buffer t = cmd_buffer s" "hist t = hist s"
    using prints_wrote [OF _ Suc.prems] by fastforce
  obtain u where u: "erase_line K n t = Some u" "wrote sent okd t (replicate n (Put 8)) u"
      "cmd_buffer u = cmd_buffer t" "hist u = hist t"
    using Suc.IH [OF wrote_ready [OF t(2)]] by blast
  show ?case using t u wrote_trans [OF t(2) u(2)] by simp
qed

lemma copy_text_spec:
  assumes "0 \<in> set cs" and "length (cstr cs) \<le> 255" and "length b = 256" and "i \<le> length (cstr cs)"
    and "take i b = take i (cstr cs)" and "p = of_nat i"
  shows "\<exists>b'. copy_text cs i p b = Some (of_nat (length (cstr cs)), b') \<and> length b' = 256 \<and>
    take (length (cstr cs)) b' = cstr cs \<and> drop 255 b' = drop 255 b"
  using assms
proof (induction cs i p b rule: copy_text.induct)
  case (1 cs i p b)
  have i: "i < length cs" "rd cs i = Some (cs ! i)" using 1(2,5) length_cstr_less [OF 1(2)] by auto
  show ?case
  proof (cases "i = length (cstr cs)")
    case True
    then have "cs ! i = 0" using nth_length_cstr [OF 1(2)] by simp
    then show ?thesis using 1 i True by (subst copy_text.simps) simp
  next
    case False
    then have lt: "i < length (cstr cs)" using 1(5) by simp
    then have c: "cs ! i = cstr cs ! i" by (simp add: cstr_def takeWhile_nth)
    have "cs ! i \<noteq> 0" using lt cstr_nonzero [of cs] unfolding c by (metis nth_mem)
    moreover have i1: "i + 1 < 256" using lt 1(3) by simp
    ultimately have cond: "cs ! i \<noteq> 0 \<and> i + 1 < 256" by blast
    have ib: "i < length b" using i1 1(4) by simp
    have w: "wr b i (cs ! i) = Some (b[i := cs ! i])" using ib by simp
    have tk: "take (i + 1) (b[i := cs ! i]) = take (i + 1) (cstr cs)"
      using 1(6) lt ib c by (simp add: take_Suc_conv_app_nth)
    have "\<exists>b'. copy_text cs (i + 1) (of_nat (i + 1)) (b[i := cs ! i]) = Some (of_nat (length (cstr cs)), b') \<and>
        length b' = 256 \<and> take (length (cstr cs)) b' = cstr cs \<and> drop 255 b' = drop 255 (b[i := cs ! i])"
      by (rule 1(1) [OF i(2) cond w 1(2,3)]) (use 1(4) lt tk in simp_all)
    moreover have "drop 255 (b[i := cs ! i]) = drop 255 b" using i1 by simp
    ultimately show ?thesis using i(2) cond w by (subst copy_text.simps) simp
  qed
qed

lemma shell_set_buffer_spec:
  assumes "uart (ports_of K) sent okd" and "con_ready okd s" and "row_ok (cmd_buffer s)"
    and "0 \<in> set cs" and "length (cstr cs) \<le> 255"
  shows "\<exists>t. shell_set_buffer K cs p s = Some (of_nat (length (cstr cs)), t) \<and>
    wrote sent okd s (replicate (unat p) (Put 8) @ map Put (cstr cs)) t \<and> hist t = hist s \<and> row_ok (cmd_buffer t) \<and>
    take (length (cstr cs)) (cmd_buffer t) = cstr cs \<and> cstr (cmd_buffer t) = cstr cs"
proof -
  let ?n = "length (cstr cs)"
  obtain t where t: "erase_line K (unat p) s = Some t" "wrote sent okd s (replicate (unat p) (Put 8)) t"
      "cmd_buffer t = cmd_buffer s" "hist t = hist s"
    using erase_line_spec [OF assms(1,2)] by blast
  have lb: "length (cmd_buffer t) = 256" using assms(3) t(3) by (simp add: row_ok_def)
  obtain b where b: "copy_text cs 0 0 (cmd_buffer t) = Some (of_nat ?n, b)" "length b = 256" "take ?n b = cstr cs"
      "drop 255 b = drop 255 (cmd_buffer t)"
    using copy_text_spec [OF assms(4,5) lb, of 0 0] by auto
  have n: "unat (of_nat ?n :: u16) = ?n" using assms(5) by (simp add: unat_of_nat take_bit_nat_eq_self)
  let ?b = "b[?n := 0]"
  have "b ! 255 = hd (drop 255 b)" using b(2) by (simp add: hd_drop_conv_nth)
  also have "\<dots> = 0" using b(4) lb t(3) assms(3) by (simp add: row_ok_def hd_drop_conv_nth)
  finally have "row_ok b" using b(2) by (simp add: row_ok_def)
  then have row: "row_ok ?b" using assms(5) by (intro row_ok_update) auto
  have cb: "cstr ?b = cstr cs" using assms(5) b(2,3) cstr_nonzero [of cs] by (simp add: cstr_take_zero cstr_id)
  have "con_ready okd (t\<lparr>cmd_buffer := ?b\<rparr>)" using wrote_ready [OF t(2)] by simp
  from prints_wrote [OF prints_kprint [OF assms(1,4)] this]
  obtain u where u: "kprint (ports_of K) cs (t\<lparr>cmd_buffer := ?b\<rparr>) = Some u"
      "wrote sent okd (t\<lparr>cmd_buffer := ?b\<rparr>) (map Put (cstr cs)) u" "cmd_buffer u = ?b" "hist u = hist t"
    by auto
  have "wrote sent okd s (replicate (unat p) (Put 8) @ map Put (cstr cs)) u"
    by (rule wrote_trans [OF t(2) wrote_start [OF u(2)]])
  moreover have "shell_set_buffer K cs p s = Some (of_nat ?n, u)"
    using t(1) b(1,2) u(1) n assms(5) by (simp add: shell_set_buffer_def)
  moreover have "take ?n ?b = cstr cs" using b(3) by simp
  ultimately show ?thesis using u(3,4) t(4) row cb by (intro exI [of _ u]) simp
qed


section \<open>The events\<close>

text \<open>The editor went from \<open>(ed, s)\<close> to \<open>(ed', s')\<close>, which stands for the line \<open>l\<close>, and ran \<open>xs\<close>.\<close>

definition edited ::
    "('d \<Rightarrow> u8 list) \<Rightarrow> ('d \<Rightarrow> bool) \<Rightarrow> 'd kern \<Rightarrow> line_state \<times> action list \<Rightarrow> editor \<times> 'd kern \<Rightarrow> bool" where
  "edited sent okd s r st \<longleftrightarrow>
     (case (r, st) of ((l, xs), ed, s') \<Rightarrow>
        wrote sent okd s xs s' \<and> hist s' = hist s \<and> editor_ok ed s' \<and> line_of ed s' = l)"

lemma history_text_get:
  assumes "history_wf h" and "i < length (history_texts h)"
  shows "\<exists>l. history_get i h = Some l \<and> row_ok l \<and> cstr l = history_texts h ! i"
proof -
  have i: "i < length (history_items h)" using assms(2) by (simp add: history_texts_def)
  then have "history_items h ! i \<in> set (history h)" using assms(1) by (auto simp: history_items_def history_wf_def)
  then show ?thesis using hist.nth_law [OF assms(1) i] assms(1) i by (auto simp: history_wf_def history_texts_def)
qed

lemma keep_line_spec: "row_ok (cmd_buffer s) \<Longrightarrow> keep_line ed s = Some (ed\<lparr>current_line := cmd_buffer s\<rparr>)"
  by (simp add: keep_line_def row_ok_def)

lemma leave_history_spec:
  assumes "editor_ok ed s"
  shows "\<exists>ed'. leave_history ed s = Some ed' \<and> editor_ok ed' s \<and> pos ed' = pos ed \<and>
    line_of ed' s = back_to_line (history_texts (hist s)) (line_of ed s)"
  using assms row_ok_terminated [of "cmd_buffer s"]
  by (auto simp: leave_history_def keep_line_spec editor_ok_def line_of_def back_to_line_def row_ok_def)

text \<open>A text from the history or the kept line takes the place of the line.\<close>

lemma show_text_spec:
  assumes "uart (ports_of K) sent okd" and "con_ready okd s" and "editor_ok ed s"
    and "0 \<in> set cs" and "length (cstr cs) \<le> 255" and "i \<le> entries s"
  shows "\<exists>p t. shell_set_buffer K cs (pos ed) s = Some (p, t) \<and>
    edited sent okd s (show_text (cstr cs) ((line_of ed s)\<lparr>at := i\<rparr>)) (ed\<lparr>pos := p, history_position := i\<rparr>, t)"
proof -
  have r: "row_ok (cmd_buffer s)" using assms(3) by (simp add: editor_ok_def)
  obtain t where t: "shell_set_buffer K cs (pos ed) s = Some (of_nat (length (cstr cs)), t)"
      "wrote sent okd s (replicate (unat (pos ed)) (Put 8) @ map Put (cstr cs)) t" "hist t = hist s" "row_ok (cmd_buffer t)"
      "take (length (cstr cs)) (cmd_buffer t) = cstr cs" "cstr (cmd_buffer t) = cstr cs"
    using shell_set_buffer_spec [OF assms(1,2) r assms(4,5)] by blast
  have n: "unat (of_nat (length (cstr cs)) :: u16) = length (cstr cs)"
    using assms(5) by (simp add: unat_of_nat take_bit_nat_eq_self)
  have "length (visible (line_of ed s)) = unat (pos ed)" using assms(3) by (simp add: line_of_def editor_ok_def row_ok_def)
  then show ?thesis using t n assms(3,5,6)
    by (intro exI [of _ "of_nat (length (cstr cs))"] exI [of _ t]) (simp add: edited_def show_text_def editor_ok_def line_of_def)
qed

lemma edit_up_spec:
  assumes "uart (ports_of K) sent okd" and "con_ready okd s" and "editor_ok ed s" and "l = line_of ed s" and "at l \<noteq> 0"
  shows "\<exists>st. edit_up K (ed, s) = Some st \<and>
    edited sent okd s (show_text (history_texts (hist s) ! (at l - 1))
      (l\<lparr>saved := (if at l = length (history_texts (hist s)) then stored l else saved l), at := at l - 1\<rparr>)) st"
proof -
  let ?i = "history_position ed - 1"
  have i: "?i < entries s" "?i \<le> entries s" "history_position ed \<noteq> 0" using assms(3-5) by (auto simp: editor_ok_def line_of_def)
  then have c: "history_count (hist s) \<noteq> 0" by auto
  obtain cs where cs: "history_get ?i (hist s) = Some cs" "row_ok cs" "cstr cs = history_texts (hist s) ! ?i"
    using history_text_get [of "hist s" ?i] assms(3) i(1) by (auto simp: editor_ok_def)
  note z = row_ok_terminated [OF cs(2)]
  define ed1 where "ed1 = (if history_position ed = entries s then ed\<lparr>current_line := cmd_buffer s\<rparr> else ed)"
  have ed1: "editor_ok ed1 s" "pos ed1 = pos ed" "history_position ed1 = history_position ed"
      "line_of ed1 s = l\<lparr>saved := (if at l = length (history_texts (hist s)) then stored l else saved l)\<rparr>"
    using assms(3,4) row_ok_terminated [of "cmd_buffer s"] by (auto simp: ed1_def editor_ok_def line_of_def row_ok_def)
  obtain p t where pt: "shell_set_buffer K cs (pos ed1) s = Some (p, t)"
      "edited sent okd s (show_text (cstr cs) ((line_of ed1 s)\<lparr>at := ?i\<rparr>)) (ed1\<lparr>pos := p, history_position := ?i\<rparr>, t)"
    using show_text_spec [OF assms(1,2) ed1(1) conjunct1 [OF z] conjunct2 [OF z] i(2)] by blast
  have "(if history_position ed = entries s then keep_line ed s else Some ed) = Some ed1"
    using assms(3) by (simp add: ed1_def keep_line_spec editor_ok_def)
  then have "edit_up K (ed, s) = Some (ed1\<lparr>pos := p, history_position := ?i\<rparr>, t)"
    using c i(3) cs(1) pt(1) ed1(2,3) by (simp add: edit_up_def del: if_split)
  moreover have "at l = history_position ed" using assms(4) by (simp add: line_of_def)
  ultimately show ?thesis using pt(2) cs(3) ed1(4) by simp
qed

lemma edit_down_spec:
  assumes "uart (ports_of K) sent okd" and "con_ready okd s" and "editor_ok ed s" and "l = line_of ed s"
    and "at l < length (history_texts (hist s))"
  shows "\<exists>st. edit_down K (ed, s) = Some st \<and>
    edited sent okd s (show_text (if at l + 1 = length (history_texts (hist s)) then saved l
      else history_texts (hist s) ! (at l + 1)) (l\<lparr>at := at l + 1\<rparr>)) st"
proof -
  let ?i = "history_position ed + 1"
  have at: "at l = history_position ed" and i: "?i \<le> entries s" using assms(4,5) by (simp_all add: line_of_def)
  obtain cs where cs: "(if ?i = entries s then Some (current_line ed) else history_get ?i (hist s)) = Some cs"
      "0 \<in> set cs" "length (cstr cs) \<le> 255"
      "cstr cs = (if at l + 1 = length (history_texts (hist s)) then saved l else history_texts (hist s) ! (at l + 1))"
  proof (cases "?i = entries s")
    case True
    have z: "0 \<in> set (current_line ed)" "length (current_line ed) = 256" using assms(3) by (simp_all add: editor_ok_def)
    have "saved l = cstr (current_line ed)" using assms(4) by (simp add: line_of_def)
    then show ?thesis using True at z length_cstr_less [OF z(1)] by (intro that [of "current_line ed"]) simp_all
  next
    case False
    then obtain cs where "history_get ?i (hist s) = Some cs" "row_ok cs" "cstr cs = history_texts (hist s) ! ?i"
      using history_text_get [of "hist s" ?i] assms(3) i by (auto simp: editor_ok_def)
    then show ?thesis using that [of cs] row_ok_terminated [of cs] False at by simp
  qed
  obtain p t where pt: "shell_set_buffer K cs (pos ed) s = Some (p, t)"
      "edited sent okd s (show_text (cstr cs) ((line_of ed s)\<lparr>at := ?i\<rparr>)) (ed\<lparr>pos := p, history_position := ?i\<rparr>, t)"
    using show_text_spec [OF assms(1-3) cs(2,3) i] by blast
  have "edit_down K (ed, s) = Some (ed\<lparr>pos := p, history_position := ?i\<rparr>, t)"
    using cs(1) pt(1) i by (auto simp: edit_down_def split: if_split_asm)
  then show ?thesis using pt(2) cs(4) at assms(4) by simp
qed


text \<open>The line without its last byte, and with one more.\<close>

lemma edit_backspace_spec:
  assumes "uart (ports_of K) sent okd" and "con_ready okd s" and "editor_ok ed s" and "l = line_of ed s" and "visible l \<noteq> []"
  shows "\<exists>st. edit_backspace K (ed, s) = Some st \<and>
    edited sent okd s (set_line (butlast (visible l)) (back_to_line (history_texts (hist s)) l), [Put 8]) st"
proof -
  have lb: "length (cmd_buffer s) = 256" and p: "unat (pos ed) \<le> 255" using assms(3) by (simp_all add: editor_ok_def row_ok_def)
  have pos: "pos ed > 0" "unat (pos ed) > 0" using assms(4,5) by (auto simp: line_of_def word_gt_0 unat_gt_0)
  then have p1: "unat (pos ed - 1) = unat (pos ed) - 1" by (simp add: unat_minus_one)
  obtain ed1 where ed1: "leave_history ed s = Some ed1" "editor_ok ed1 s" "pos ed1 = pos ed"
      "line_of ed1 s = back_to_line (history_texts (hist s)) l"
    using leave_history_spec [OF assms(3)] assms(4) by blast
  let ?b = "(cmd_buffer s)[unat (pos ed) - 1 := 0]"
  have "con_ready okd (s\<lparr>cmd_buffer := ?b\<rparr>)" using assms(2) by simp
  from prints_wrote [OF prints_kprint [OF assms(1), of BACKSPACE] this]
  obtain t where t: "kprint (ports_of K) BACKSPACE (s\<lparr>cmd_buffer := ?b\<rparr>) = Some t"
      "wrote sent okd (s\<lparr>cmd_buffer := ?b\<rparr>) [Put 8] t" "cmd_buffer t = ?b" "hist t = hist s"
    by auto
  have run: "edit_backspace K (ed, s) = Some (ed1\<lparr>pos := pos ed - 1\<rparr>, t)"
    using pos(1) ed1(1,3) t(1) lb p by (simp add: edit_backspace_def p1)
  have w: "wrote sent okd s [Put 8] t" by (rule wrote_start [OF t(2)])
  have row: "row_ok ?b" using assms(3) p by (intro row_ok_update) (auto simp: editor_ok_def)
  have ok: "editor_ok (ed1\<lparr>pos := pos ed - 1\<rparr>) t" using ed1(2) t(3,4) row p by (simp add: editor_ok_def p1)
  have "visible l = take (unat (pos ed)) (cmd_buffer s)" using assms(4) by (simp add: line_of_def)
  then have "butlast (visible l) = take (unat (pos ed) - 1) (cmd_buffer s)" using lb p by (simp add: butlast_take)
  moreover have "cstr ?b = cstr (take (unat (pos ed) - 1) (cmd_buffer s))" using lb p by (intro cstr_take_zero) simp
  ultimately have "line_of (ed1\<lparr>pos := pos ed - 1\<rparr>) t = set_line (butlast (visible l)) (back_to_line (history_texts (hist s)) l)"
    unfolding ed1(4) [symmetric] using t(3) p1 by (simp add: line_of_def set_line_def)
  then show ?thesis using run w ok t(4) by (simp add: edited_def)
qed

lemma edit_insert_spec:
  assumes "uart (ports_of K) sent okd" and "con_ready okd s" and "editor_ok ed s" and "l = line_of ed s"
    and "length (visible l) < 255"
  shows "\<exists>st. edit_insert K c (ed, s) = Some st \<and>
    edited sent okd s (set_line (visible l @ [c]) (back_to_line (history_texts (hist s)) l), map Put (cstr [c])) st"
proof -
  let ?n = "unat (pos ed)"
  have lb: "length (cmd_buffer s) = 256" and n: "?n \<le> 255" using assms(3) by (simp_all add: editor_ok_def row_ok_def)
  have sh: "visible l = take ?n (cmd_buffer s)" using assms(4) by (simp add: line_of_def)
  then have lt: "?n < 255" using assms(5) lb n by simp
  then have p1: "unat (pos ed + 1) = ?n + 1" by (simp add: unat_plus_if')
  obtain ed1 where ed1: "leave_history ed s = Some ed1" "editor_ok ed1 s" "pos ed1 = pos ed"
      "line_of ed1 s = back_to_line (history_texts (hist s)) l"
    using leave_history_spec [OF assms(3)] assms(4) by blast
  let ?b = "(cmd_buffer s)[?n := c, ?n + 1 := 0]"
  have "con_ready okd (s\<lparr>cmd_buffer := ?b\<rparr>)" using assms(2) by simp
  from prints_wrote [OF prints_kprint [OF assms(1), of "[c, 0]"] this]
  obtain t where t: "kprint (ports_of K) [c, 0] (s\<lparr>cmd_buffer := ?b\<rparr>) = Some t"
      "wrote sent okd (s\<lparr>cmd_buffer := ?b\<rparr>) (map Put (cstr [c, 0])) t" "cmd_buffer t = ?b" "hist t = hist s"
    by auto
  have run: "edit_insert K c (ed, s) = Some (ed1\<lparr>pos := pos ed + 1\<rparr>, t)"
    using ed1(1,3) t(1) lb lt p1 by (simp add: edit_insert_def)
  have c: "cstr [c, 0] = cstr [c]" by (cases "c = 0") simp_all
  have w: "wrote sent okd s (map Put (cstr [c])) t" using wrote_start [OF t(2)] by (simp only: c)
  have "row_ok ((cmd_buffer s)[?n := c])" using assms(3) lt by (intro row_ok_update) (auto simp: editor_ok_def)
  moreover have "?n + 1 < 255 \<or> ?n + 1 = 255 \<and> (0 :: u8) = 0" using lt by (cases "?n = 254") auto
  ultimately have row: "row_ok ?b" by (rule row_ok_update)
  have ok: "editor_ok (ed1\<lparr>pos := pos ed + 1\<rparr>) t" using ed1(2) t(3,4) row lt by (simp add: editor_ok_def p1)
  have tk: "take (?n + 1) ?b = visible l @ [c]" using sh lb lt by (simp add: take_Suc_conv_app_nth)
  have "cstr ?b = cstr (take (?n + 1) ((cmd_buffer s)[?n := c]))" using lb lt by (intro cstr_take_zero) simp
  also have "take (?n + 1) ((cmd_buffer s)[?n := c]) = visible l @ [c]" using sh lb lt by (simp add: take_Suc_conv_app_nth)
  finally have "line_of (ed1\<lparr>pos := pos ed + 1\<rparr>) t = set_line (visible l @ [c]) (back_to_line (history_texts (hist s)) l)"
    unfolding ed1(4) [symmetric] using t(3) p1 tk by (simp add: line_of_def set_line_def)
  then show ?thesis using run w ok t(4) by (simp add: edited_def)
qed

text \<open>Scrolling first, then one of the operations.\<close>

lemma edited_after:
  assumes "wrote sent okd s xs u" and "hist u = hist s" and "edited sent okd u (l, ys) st"
  shows "edited sent okd s (l, xs @ ys) st"
  using assms(2,3) wrote_trans [OF assms(1)] by (auto simp: edited_def)

lemma editor_after:
  "editor_ok ed s \<Longrightarrow> cmd_buffer t = cmd_buffer s \<Longrightarrow> hist t = hist s \<Longrightarrow> editor_ok ed t \<and> line_of ed t = line_of ed s"
  by (simp add: editor_ok_def line_of_def)

text \<open>Each operation, including where it does nothing.\<close>

lemma edited_same: "con_ready okd s \<Longrightarrow> editor_ok ed s \<Longrightarrow> edited sent okd s (line_of ed s, []) (ed, s)"
  by (simp add: edited_def wrote_refl)

lemma edit_up_total:
  assumes "uart (ports_of K) sent okd" and "con_ready okd s" and "editor_ok ed s" and "l = line_of ed s"
  shows "\<exists>st. edit_up K (ed, s) = Some st \<and>
    edited sent okd s (if at l = 0 then (l, []) else show_text (history_texts (hist s) ! (at l - 1))
      (l\<lparr>saved := (if at l = length (history_texts (hist s)) then stored l else saved l), at := at l - 1\<rparr>)) st"
proof (cases "at l = 0")
  case True
  then have "edit_up K (ed, s) = Some (ed, s)" using assms(4) by (simp add: edit_up_def line_of_def)
  then show ?thesis using True edited_same [OF assms(2,3)] assms(4) by simp
qed (use edit_up_spec [OF assms] in simp)

lemma edit_down_total:
  assumes "uart (ports_of K) sent okd" and "con_ready okd s" and "editor_ok ed s" and "l = line_of ed s"
  shows "\<exists>st. edit_down K (ed, s) = Some st \<and>
    edited sent okd s (if at l \<ge> length (history_texts (hist s)) then (l, [])
      else show_text (if at l + 1 = length (history_texts (hist s)) then saved l else history_texts (hist s) ! (at l + 1))
        (l\<lparr>at := at l + 1\<rparr>)) st"
proof (cases "at l < length (history_texts (hist s))")
  case False
  then have "edit_down K (ed, s) = Some (ed, s)" using assms(4) by (simp add: edit_down_def line_of_def)
  then show ?thesis using False edited_same [OF assms(2,3)] assms(4) by simp
qed (use edit_down_spec [OF assms] in simp)

lemma edit_backspace_total:
  assumes "uart (ports_of K) sent okd" and "con_ready okd s" and "editor_ok ed s" and "l = line_of ed s"
  shows "\<exists>st. edit_backspace K (ed, s) = Some st \<and>
    edited sent okd s (if visible l = [] then (l, [])
      else (set_line (butlast (visible l)) (back_to_line (history_texts (hist s)) l), [Put 8])) st"
proof (cases "visible l = []")
  case True
  then have "pos ed = 0" using assms(3,4) by (auto simp: line_of_def editor_ok_def row_ok_def unat_eq_0)
  then have "edit_backspace K (ed, s) = Some (ed, s)" by (simp add: edit_backspace_def)
  then show ?thesis using True edited_same [OF assms(2,3)] assms(4) by simp
qed (use edit_backspace_spec [OF assms] in simp)

lemma edit_insert_total:
  assumes "uart (ports_of K) sent okd" and "con_ready okd s" and "editor_ok ed s" and "l = line_of ed s"
  shows "\<exists>st. edit_insert K c (ed, s) = Some st \<and>
    edited sent okd s (if length (visible l) < 255
      then (set_line (visible l @ [c]) (back_to_line (history_texts (hist s)) l), map Put (cstr [c])) else (l, [])) st"
proof (cases "length (visible l) < 255")
  case False
  then have "\<not> unat (pos ed) + 1 < 256" using assms(3,4) by (auto simp: line_of_def editor_ok_def row_ok_def)
  then have "edit_insert K c (ed, s) = Some (ed, s)" by (simp add: edit_insert_def)
  then show ?thesis using False edited_same [OF assms(2,3)] assms(4) by simp
qed (use edit_insert_spec [OF assms] in simp)

lemma edit_view_spec:
  assumes "uart (ports_of K) sent okd" and "con_ready okd s" and "editor_ok ed s" and "n = -1 \<or> n = 1"
  shows "\<exists>t. on_vga (vga_scroll_view (ports_of K) n) s = Some t \<and> edited sent okd s (line_of ed s, [View_by n]) (ed, t)"
proof -
  have "prints sent okd s (on_vga (vga_scroll_view (ports_of K) n)) [View_by n]"
    using assms(4) by (intro prints_scroll_view assms(1)) auto
  from prints_wrote [OF this assms(2)] obtain t where "on_vga (vga_scroll_view (ports_of K) n) s = Some t"
      "wrote sent okd s [View_by n] t" "cmd_buffer t = cmd_buffer s" "hist t = hist s" by blast
  then show ?thesis using editor_after [OF assms(3), of t] by (simp add: edited_def)
qed

lemma edit_enter_spec:
  assumes "uart (ports_of K) sent okd" and "con_ready okd s" and "editor_ok ed s" and "l = line_of ed s"
  shows "\<exists>t. do { s \<leftarrow> kprint (ports_of K) (lit ''\<newline>'') s; b \<leftarrow> wr (cmd_buffer s) (unat (pos ed)) 0;
      Some (s\<lparr>cmd_buffer := b\<rparr>) } = Some t \<and>
    edited sent okd s (l\<lparr>stored := cstr (visible l)\<rparr>, [Put 10]) (ed, t)"
proof -
  obtain t where t: "kprint (ports_of K) (lit ''\<newline>'') s = Some t" "wrote sent okd s [Put 10] t"
      "cmd_buffer t = cmd_buffer s" "hist t = hist s"
    using prints_wrote [OF prints_lit [OF assms(1), of "''\<newline>''"] assms(2)] by (auto simp: str_def)
  let ?b = "(cmd_buffer s)[unat (pos ed) := 0]"
  have b: "unat (pos ed) < length (cmd_buffer s)" "unat (pos ed) \<le> 255" "row_ok (cmd_buffer s)"
    using assms(3) by (auto simp: editor_ok_def row_ok_def)
  have "row_ok ?b" using b(2,3) by (intro row_ok_update) auto
  then have "editor_ok ed (t\<lparr>cmd_buffer := ?b\<rparr>)" using assms(3) t(4) by (simp add: editor_ok_def)
  moreover have "line_of ed (t\<lparr>cmd_buffer := ?b\<rparr>) = l\<lparr>stored := cstr (visible l)\<rparr>"
    using cstr_take_zero [OF b(1)] assms(4) by (simp add: line_of_def)
  ultimately show ?thesis using t b(1) wrote_buffer [OF t(2)] by (simp add: edited_def)
qed

lemma edit_event_spec:
  assumes "uart (ports_of K) sent okd" and "con_ready okd s" and "editor_ok ed s"
  shows "\<exists>st. edit_event K e (ed, s) = Some (fst (edit (history_texts (hist s)) e (line_of ed s)), st) \<and>
    edited sent okd s (snd (edit (history_texts (hist s)) e (line_of ed s))) st"
proof -
  let ?l = "line_of ed s" and ?hs = "history_texts (hist s)"
  obtain u where u: "on_vga (vga_scroll_to_bottom (ports_of K)) s = Some u" "wrote sent okd s [View_end] u"
      "cmd_buffer u = cmd_buffer s" "hist u = hist s"
    using prints_wrote [OF prints_scroll_to_bottom [OF assms(1)] assms(2)] by blast
  have uk: "editor_ok ed u" "?l = line_of ed u" using editor_after [OF assms(3) u(3,4)] by simp_all
  note at_u = assms(1) wrote_ready [OF u(2)] uk
  note after = edited_after [OF u(2,4), simplified]
  note run = edit_event_def edit_def Let_def u(1)
  show ?thesis
  proof (cases "ev_type e")
    case INPUT_EVENT_LEFT
    then show ?thesis using edit_view_spec [OF assms, of "-1"] by (auto simp: run)
  next
    case INPUT_EVENT_RIGHT
    then show ?thesis using edit_view_spec [OF assms, of 1] by (auto simp: run)
  next
    case INPUT_EVENT_UP
    then show ?thesis using edit_up_total [OF at_u] u(4)
      by (auto simp: run show_text_def split: if_splits dest!: after)
  next
    case INPUT_EVENT_DOWN
    then show ?thesis using edit_down_total [OF at_u] u(4)
      by (auto simp: run show_text_def split: if_splits dest!: after)
  next
    case INPUT_EVENT_CHAR
    then show ?thesis
      using edit_enter_spec [OF at_u] edit_backspace_total [OF at_u] edit_insert_total [OF at_u, of "ch e"] u(4)
      by (cases "ch e = 10"; cases "ch e = 8 \<or> ch e = 0x7F")
        (auto simp: run Option.bind_eq_Some_conv split: if_splits dest!: after)
  qed
qed


section \<open>The line on the screen\<close>

text \<open>What a terminal that erases on a backspace, as the text screen of \<open>vga.c\<close> does, shows of a stream of
  bytes on the line after the prompt.  (One that only moves its cursor still shows the erased characters.)\<close>

fun replay :: "u8 list \<Rightarrow> u8 list \<Rightarrow> u8 list" where
  "replay line [] = line"
| "replay line (c # cs) = replay (if c = 8 then butlast line else line @ [c]) cs"

lemma replay_append [simp]: "replay line (xs @ ys) = replay (replay line xs) ys"
  by (induction xs arbitrary: line) simp_all

lemma replay_erase: "replay line (replicate (length line) 8) = []"
  by (induction line rule: rev_induct) simp_all

lemma replay_text: "8 \<notin> set cs \<Longrightarrow> replay line cs = line @ cs"
  by (induction cs arbitrary: line) auto

lemma put_bytes_replicate [simp]: "put_bytes (replicate n (Put c)) = replicate n c"
  by (induction n) simp_all

text \<open>No text of the editor contains a backspace.\<close>

definition clean :: "u8 list list \<Rightarrow> line_state \<Rightarrow> bool" where
  "clean hs l \<longleftrightarrow> (\<forall>t \<in> set hs. 8 \<notin> set t) \<and> 8 \<notin> set (visible l) \<and> 8 \<notin> set (stored l) \<and> 8 \<notin> set (saved l)"

lemma set_cstr: "set (cstr t) \<subseteq> set t"
  by (auto simp: cstr_def dest: set_takeWhileD)

lemma clean_back [simp]: "clean hs l \<Longrightarrow> clean hs (back_to_line hs l)" "visible (back_to_line hs l) = visible l"
  by (simp_all add: clean_def back_to_line_def)

lemma clean_set_line: "clean hs l \<Longrightarrow> 8 \<notin> set t \<Longrightarrow> clean hs (set_line t l)"
  using set_cstr [of t] by (auto simp: clean_def set_line_def)

lemma clean_show_text: "clean hs l \<Longrightarrow> 8 \<notin> set t \<Longrightarrow> clean hs (fst (show_text t l))"
  by (auto simp: clean_def show_text_def)

lemma replay_show_text:
  assumes "8 \<notin> set t"
  shows "replay (visible l) (put_bytes (snd (show_text t l))) = visible (fst (show_text t l))"
  using replay_text [OF assms, of "[]"] by (simp add: show_text_def replay_erase)

text \<open>Every event keeps what is visible and what is on the screen together, but for a typed zero byte.\<close>

lemma edit_replay:
  assumes "clean hs l" and "at l \<le> length hs" and "edit hs e l = (complete, l', xs)"
    and "ev_type e = INPUT_EVENT_CHAR \<Longrightarrow> ch e \<notin> {0, 10}"
  shows "\<not> complete \<and> clean hs l' \<and> replay (visible l) (put_bytes xs) = visible l'"
proof (cases "ev_type e")
  case INPUT_EVENT_UP
  show ?thesis
  proof (cases "at l = 0")
    case False
    let ?t = "hs ! (at l - 1)"
    let ?l = "l\<lparr>saved := (if at l = length hs then stored l else saved l), at := at l - 1\<rparr>"
    have "?t \<in> set hs" using False assms(2) by (intro nth_mem) simp
    then have t: "8 \<notin> set ?t" using assms(1) by (simp add: clean_def)
    have l: "clean hs ?l" using assms(1) by (simp add: clean_def)
    show ?thesis using INPUT_EVENT_UP False assms(3) clean_show_text [OF l t] replay_show_text [OF t, of ?l]
      by (auto simp: edit_def Let_def split: prod.splits)
  qed (use INPUT_EVENT_UP assms(1,3) in \<open>auto simp: edit_def Let_def\<close>)
next
  case INPUT_EVENT_DOWN
  show ?thesis
  proof (cases "at l < length hs")
    case True
    let ?t = "if at l + 1 = length hs then saved l else hs ! (at l + 1)" and ?l = "l\<lparr>at := at l + 1\<rparr>"
    have t: "8 \<notin> set ?t"
    proof (cases "at l + 1 = length hs")
      case False
      then have "hs ! (at l + 1) \<in> set hs" using True by (intro nth_mem) simp
      then show ?thesis using assms(1) False by (simp add: clean_def)
    qed (use assms(1) in \<open>simp add: clean_def\<close>)
    have l: "clean hs ?l" using assms(1) by (simp add: clean_def)
    show ?thesis using INPUT_EVENT_DOWN True assms(3) clean_show_text [OF l t] replay_show_text [OF t, of ?l]
      by (auto simp: edit_def Let_def split: prod.splits simp del: if_split)
  qed (use INPUT_EVENT_DOWN assms(1,3) in \<open>auto simp: edit_def Let_def\<close>)
next
  case INPUT_EVENT_CHAR
  then have c: "ch e \<noteq> 0" "ch e \<noteq> 10" using assms(4) by auto
  show ?thesis
  proof (cases "ch e = 8 \<or> ch e = 0x7F")
    case True
    have "8 \<notin> set (butlast (visible l))" using assms(1) by (auto simp: clean_def dest: in_set_butlastD)
    then show ?thesis using clean_set_line [OF clean_back(1) [OF assms(1)]] assms(1,3) c True INPUT_EVENT_CHAR
      by (auto simp: edit_def Let_def set_line_def split: if_splits)
  next
    case False
    then have "8 \<notin> set (visible l @ [ch e])" using assms(1) by (auto simp: clean_def)
    then show ?thesis using clean_set_line [OF clean_back(1) [OF assms(1)]] assms(1,3) c False INPUT_EVENT_CHAR
      by (auto simp: edit_def Let_def set_line_def split: if_splits)
  qed
qed (use assms(1,3) in \<open>auto simp: edit_def Let_def\<close>)

section \<open>Sequences of events\<close>

text \<open>The editor on a list of events, until the line is complete.\<close>

fun edit_events :: "'d platform \<Rightarrow> input_event list \<Rightarrow> editor \<times> 'd kern \<Rightarrow> (bool \<times> editor \<times> 'd kern) option" where
  "edit_events K [] st = Some (False, st)"
| "edit_events K (e # es) st =
     do { (complete, st) \<leftarrow> edit_event K e st; if complete then Some (True, st) else edit_events K es st }"

lemma edit_events_visible:
  assumes "uart (ports_of K) sent okd" and "\<forall>e \<in> set es. ev_type e = INPUT_EVENT_CHAR \<longrightarrow> ch e \<notin> {0, 10}"
  shows "con_ready okd s \<Longrightarrow> editor_ok ed s \<Longrightarrow> clean (history_texts (hist s)) (line_of ed s) \<Longrightarrow>
    \<exists>ed' t xs. edit_events K es (ed, s) = Some (False, ed', t) \<and> wrote sent okd s xs t \<and> hist t = hist s \<and>
      editor_ok ed' t \<and> clean (history_texts (hist t)) (line_of ed' t) \<and>
      replay (visible (line_of ed s)) (put_bytes xs) = visible (line_of ed' t)"
  using assms(2)
proof (induction es arbitrary: ed s)
  case Nil
  then show ?case using wrote_refl by (intro exI [of _ ed] exI [of _ s] exI [of _ "[]"]) auto
next
  case (Cons e es)
  let ?r = "edit (history_texts (hist s)) e (line_of ed s)"
  obtain b l xs where r: "?r = (b, l, xs)" by (cases ?r) auto
  obtain ed1 u where u: "edit_event K e (ed, s) = Some (b, ed1, u)" "wrote sent okd s xs u" "hist u = hist s"
      "editor_ok ed1 u" "line_of ed1 u = l"
    using edit_event_spec [OF assms(1) Cons.prems(1,2), of e] r by (auto simp: edited_def)
  have "at (line_of ed s) \<le> length (history_texts (hist s))"
    using Cons.prems(2) by (simp add: line_of_def editor_ok_def)
  then have k: "\<not> b" "clean (history_texts (hist s)) l" "replay (visible (line_of ed s)) (put_bytes xs) = visible l"
    using edit_replay [OF Cons.prems(3) _ r] Cons.prems(4) by auto
  obtain ed' t ys where t: "edit_events K es (ed1, u) = Some (False, ed', t)" "wrote sent okd u ys t" "hist t = hist u"
      "editor_ok ed' t" "clean (history_texts (hist t)) (line_of ed' t)"
      "replay (visible l) (put_bytes ys) = visible (line_of ed' t)"
    using Cons.IH [OF wrote_ready [OF u(2)] u(4)] k(2) u(3,5) Cons.prems(4) by auto
  show ?case using u(1,3) k(1,3) t wrote_trans [OF u(2) t(2)]
    by (intro exI [of _ ed'] exI [of _ t] exI [of _ "xs @ ys"]) simp
qed



section \<open>Properties\<close>

text \<open>A kernel for the examples: idle devices, the statics as the loader leaves them, a line typed before.\<close>

definition platform_of :: "'d env \<Rightarrow> 'd platform" where
  "platform_of E = \<lparr>env = E, cpuid_at = example_cpuid, map_at = (\<lambda>_. example_map), idt_addr = 0x5000, gdt_addr = 0x6000,
     tss_addr = 0x6100, isr_stub_table = map of_nat [0..<48], stack_line = replicate 256 0xCC,
     stack_info = \<lparr>vendor = replicate 13 0xCC, family = 0xCC, model = 0xCC, stepping = 0xCC, apic_present = 0xCC, msr_supported = 0xCC\<rparr>\<rparr>"

lemma platform_of_simps [simp]:
  "env (platform_of E) = E" "map_at (platform_of E) a = example_map" "stack_line (platform_of E) = replicate 256 0xCC"
  "isr_stub_table (platform_of E) = map of_nat [0..<48]" "cpuid_at (platform_of E) = example_cpuid"
  by (simp_all add: platform_of_def)

definition static_gdt :: gdt_state where
  "static_gdt = \<lparr>gdt = \<lparr>null_seg = zero_segment, code_seg = zero_segment, data_seg = zero_segment, tss_seg = zero_tss_descriptor\<rparr>,
     tss = zero_tss, gdtr = \<lparr>gdt_limit = 0, gdt_base = 0\<rparr>, task_register = 0\<rparr>"

definition static_kern :: "'d machine \<Rightarrow> 'd kern" where
  "static_kern m = machine.extend m
     \<lparr>gdt_st = static_gdt, boot_st = None, pmm_st = pmm_static, heap_st = empty_heap, cmd_buffer = replicate 256 0,
      pci_devices = replicate 64 (describe one_device 0 0 0), hist = empty_history\<rparr>"

lemma static_kern_simps [simp]:
  "dev (static_kern m) = dev m" "con_vga (static_kern m) = con_vga m" "cmd_buffer (static_kern m) = replicate 256 0"
  "hist (static_kern m) = empty_history" "boot_st (static_kern m) = None" "timer_ticks (static_kern m) = timer_ticks m"
  "serial_initialized (static_kern m) = serial_initialized m" "interrupts (static_kern m) = interrupts m"
  "kbd (static_kern m) = kbd m" "pmm_st (static_kern m) = pmm_static" "heap_st (static_kern m) = empty_heap"
  "idt_st (static_kern m) = idt_st m"
  by (simp_all add: static_kern_def machine.defs)

definition example_kern :: "log_device kern" where
  "example_kern = (static_kern example_machine)\<lparr>cmd_buffer := row ''echo'',
     hist := \<lparr>history = (row ''echo a'') # replicate 31 (row []), history_head = 1, history_count = 1\<rparr>\<rparr>"

definition fresh_editor :: editor where
  "fresh_editor = \<lparr>pos = 0, history_position = 1, current_line = replicate 256 0\<rparr>"

lemma example_kern_ready: "con_ready idle_device example_kern"
  using example_machine_ready by (simp add: con_ready_def example_kern_def)

lemma cstr_zeros [simp]: "cstr (replicate n 0) = []"
  by (cases n) simp_all

lemma row_terminated: "length t < 256 \<Longrightarrow> 0 \<in> set (row t)"
  by (simp add: row_def)

lemma row_ok_row: "length t < 256 \<Longrightarrow> row_ok (row t)"
  by (simp add: row_ok_def row_def nth_append)

lemma row_text: "length t < 256 \<Longrightarrow> list_all (\<lambda>c. c \<noteq> CHR 0x00) t \<Longrightarrow> cstr (row t) = str t"
proof -
  assume t: "length t < 256" "list_all (\<lambda>c. c \<noteq> CHR 0x00) t"
  have "row t = str t @ 0 # replicate (255 - length t) 0"
    using t(1) by (simp add: row_def flip: replicate_Suc)
  then show ?thesis using str_nonzero [OF t(2)] by (simp add: cstr_append_zero)
qed

lemma example_editor:
  "editor_ok fresh_editor example_kern" "pos fresh_editor = 0" "history_position fresh_editor = entries example_kern"
  "0 < entries example_kern" "history_texts (hist example_kern) = [str ''echo a'']" "cmd_buffer example_kern = row ''echo''"
  by (simp_all add: editor_ok_def example_kern_def fresh_editor_def row_ok_row history_wf_def history_texts_def
      history_items_def history_oldest_index_def row_text)

text \<open>C8: the line editor refines an editor of lists: for every event, in every reachable position of
  the history, the code stays inside its buffers, keeps its invariant, arrives at the line, the kept
  line and the position that the abstract editor gives, and sends to the terminal exactly what the
  abstract editor writes; nothing else of the kernel changes.\<close>

theorem shell_edit_refines:
  assumes "uart (ports_of K) sent okd" and "con_ready okd s" and "editor_ok ed s"
    and "edit (history_texts (hist s)) e (line_of ed s) = (complete, l, xs)"
  shows "\<exists>ed' t. edit_event K e (ed, s) = Some (complete, ed', t) \<and> editor_ok ed' t \<and> line_of ed' t = l \<and>
    wrote sent okd s xs t \<and> hist t = hist s"
  using edit_event_spec [OF assms(1-3), of e] assms(4) by (auto simp: edited_def)

theorem shell_edit_refines_witness:
  "\<exists>ed' t. edit_event (platform_of log_env) \<lparr>ev_type = INPUT_EVENT_UP, ch = 0\<rparr> (fresh_editor, example_kern) = Some (False, ed', t) \<and>
     visible (line_of ed' t) = str ''echo a'' \<and> log_sent (dev t) = str ''echo a''"
proof -
  have "line_of fresh_editor example_kern = \<lparr>visible = [], stored = str ''echo'', at = 1, saved = []\<rparr>"
    by (simp add: line_of_def fresh_editor_def example_kern_def row_text)
  then have "edit (history_texts (hist example_kern)) \<lparr>ev_type = INPUT_EVENT_UP, ch = 0\<rparr> (line_of fresh_editor example_kern) =
      (False, \<lparr>visible = str ''echo a'', stored = str ''echo a'', at = 0, saved = str ''echo''\<rparr>, View_end # out ''echo a'')"
    by (simp add: edit_def show_text_def example_editor)
  moreover have "crlf (put_bytes (View_end # out ''echo a'')) = str ''echo a''" by code_simp
  moreover have "log_sent (dev example_kern) = []" by (simp add: example_kern_def log_sent_def log_device0_def)
  ultimately show ?thesis
    using shell_edit_refines [of "platform_of log_env" log_sent idle_device example_kern fresh_editor
        "\<lparr>ev_type = INPUT_EVENT_UP, ch = 0\<rparr>" False] log_uart example_kern_ready example_editor(1)
    by (fastforce simp: wrote_def)
qed

text \<open>C10: what is on the terminal after the prompt is what will be executed: after any sequence of keys
  that holds no newline and no zero byte (arrows, backspaces, history lines and full lines included),
  the bytes sent since the prompt, with each backspace taking back one byte, spell exactly the first
  \<open>pos\<close> bytes of the command buffer.\<close>

theorem shell_line_visible:
  assumes "uart (ports_of K) sent okd" and "con_ready okd s" and "editor_ok ed s" and "pos ed = 0"
    and "clean (history_texts (hist s)) (line_of ed s)"
    and "\<forall>e \<in> set es. ev_type e = INPUT_EVENT_CHAR \<longrightarrow> ch e \<notin> {0, 10}"
  shows "\<exists>ed' t xs. edit_events K es (ed, s) = Some (False, ed', t) \<and> editor_ok ed' t \<and> wrote sent okd s xs t \<and>
    replay [] (put_bytes xs) = take (unat (pos ed')) (cmd_buffer t)"
proof -
  have "visible (line_of ed s) = []" using assms(4) by (simp add: line_of_def)
  moreover have "visible (line_of ed' t) = take (unat (pos ed')) (cmd_buffer t)" for ed' and t :: "'a kern"
    by (simp add: line_of_def)
  ultimately show ?thesis using edit_events_visible [OF assms(1,6,2,3,5)] by metis
qed

theorem shell_line_visible_witness:
  "\<exists>ed' t xs. edit_events (platform_of log_env)
       [\<lparr>ev_type = INPUT_EVENT_UP, ch = 0\<rparr>, \<lparr>ev_type = INPUT_EVENT_CHAR, ch = 8\<rparr>, \<lparr>ev_type = INPUT_EVENT_CHAR, ch = 98\<rparr>]
       (fresh_editor, example_kern) = Some (False, ed', t) \<and>
     replay [] (put_bytes xs) = take (unat (pos ed')) (cmd_buffer t)"
proof -
  have "clean (history_texts (hist example_kern)) (line_of fresh_editor example_kern)"
    unfolding clean_def example_editor(5) line_of_def example_editor(2,6) by (simp add: row_text fresh_editor_def str_def)
  then show ?thesis
    using shell_line_visible [of "platform_of log_env" log_sent idle_device example_kern fresh_editor
        "[\<lparr>ev_type = INPUT_EVENT_UP, ch = 0\<rparr>, \<lparr>ev_type = INPUT_EVENT_CHAR, ch = 8\<rparr>, \<lparr>ev_type = INPUT_EVENT_CHAR, ch = 98\<rparr>]"]
      log_uart example_kern_ready example_editor(1,2) by auto
qed

text \<open>C18: \<open>cmd_buffer\<close> is not cleared for a new line, but \<open>UP\<close> keeps it as the line to come back to: on
  an empty line with a history, \<open>UP\<close> and \<open>DOWN\<close> do not give the empty line back but what the buffer
  holds, the command word of the line before.\<close>

theorem shell_stale_line:
  assumes "uart (ports_of K) sent okd" and "con_ready okd s" and "editor_ok ed s" and "pos ed = 0"
    and "history_position ed = entries s" and "0 < entries s"
  shows "\<exists>ed' t. edit_events K [\<lparr>ev_type = INPUT_EVENT_UP, ch = 0\<rparr>, \<lparr>ev_type = INPUT_EVENT_DOWN, ch = 0\<rparr>] (ed, s) = Some (False, ed', t) \<and>
    take (unat (pos ed')) (cmd_buffer t) = cstr (cmd_buffer s)"
proof -
  let ?hs = "history_texts (hist s)" and ?n = "entries s" and ?l = "line_of ed s"
  have l: "at ?l = ?n" "stored ?l = cstr (cmd_buffer s)" using assms(5) by (simp_all add: line_of_def)
  let ?e1 = "\<lparr>ev_type = INPUT_EVENT_UP, ch = 0\<rparr>" and ?e2 = "\<lparr>ev_type = INPUT_EVENT_DOWN, ch = 0\<rparr>"
  obtain b1 l1 xs1 where r1: "edit ?hs ?e1 ?l = (b1, l1, xs1)" by (cases "edit ?hs ?e1 ?l") auto
  then have l1: "\<not> b1" "at l1 = ?n - 1" "saved l1 = cstr (cmd_buffer s)"
    using l assms(6) by (auto simp: edit_def show_text_def)
  obtain ed1 u where u: "edit_event K ?e1 (ed, s) = Some (b1, ed1, u)" "editor_ok ed1 u" "line_of ed1 u = l1"
      "wrote sent okd s xs1 u" "hist u = hist s"
    using edit_event_spec [OF assms(1-3), of ?e1] r1 by (auto simp: edited_def)
  obtain b2 l2 xs2 where r2: "edit (history_texts (hist u)) ?e2 (line_of ed1 u) = (b2, l2, xs2)"
    by (cases "edit (history_texts (hist u)) ?e2 (line_of ed1 u)") auto
  then have l2: "\<not> b2" "visible l2 = cstr (cmd_buffer s)"
    using l1 u(3,5) assms(6) by (auto simp: edit_def show_text_def split: if_split_asm)
  obtain ed2 t where t: "edit_event K ?e2 (ed1, u) = Some (b2, ed2, t)" "line_of ed2 t = l2"
    using edit_event_spec [OF assms(1) wrote_ready [OF u(4)] u(2), of ?e2] r2 by (auto simp: edited_def)
  have "visible l2 = take (unat (pos ed2)) (cmd_buffer t)" unfolding t(2) [symmetric] by (simp add: line_of_def)
  then show ?thesis using u(1) t(1) l1(1) l2 by auto
qed

theorem shell_stale_line_witness:
  "\<exists>ed' t. edit_events (platform_of log_env) [\<lparr>ev_type = INPUT_EVENT_UP, ch = 0\<rparr>, \<lparr>ev_type = INPUT_EVENT_DOWN, ch = 0\<rparr>]
       (fresh_editor, example_kern) = Some (False, ed', t) \<and>
     take (unat (pos ed')) (cmd_buffer t) = str ''echo''"
  using shell_stale_line [of "platform_of log_env" log_sent idle_device example_kern fresh_editor]
    log_uart example_kern_ready example_editor by (simp add: row_text)


end
