(* ===== verification/HeapRest.thy ===== *)
theory HeapRest
  imports HeapAlloc
begin

text \<open>
  The heap at rest: every block is a whole region of frames and none is in use.  This is how the kernel's
  heap looks between commands of the shell, and there the allocator is exact: which pointer a request
  gets, and how much the heap grows, follow from the regions alone.
\<close>

section \<open>Whole regions\<close>

definition whole_region :: "blk \<Rightarrow> bool" where
  "whole_region x \<longleftrightarrow> isfree x \<and> unat (addr x) mod 4096 = 0 \<and> bend x mod 4096 = 0"

definition at_rest :: "blk list \<Rightarrow> bool" where
  "at_rest bs \<longleftrightarrow> (\<forall>x \<in> set bs. whole_region x)"

lemma at_rest_simps [simp]:
  "at_rest []"
  "at_rest (x # bs) \<longleftrightarrow> whole_region x \<and> at_rest bs"
  "at_rest (xs @ ys) \<longleftrightarrow> at_rest xs \<and> at_rest ys"
  by (auto simp: at_rest_def)

lemma at_rest_used: "at_rest bs \<Longrightarrow> used_sum bs = 0"
  by (induction bs) (auto simp: whole_region_def)

lemma at_rest_live: "at_rest bs \<Longrightarrow> live bs = {}"
  by (auto simp: at_rest_def live_def whole_region_def)

lemma at_rest_insert: "at_rest (insert_blk n bs) \<longleftrightarrow> whole_region n \<and> at_rest bs"
  by (auto simp: at_rest_def)

lemma page_aligned_16: "(n :: nat) mod 4096 = 0 \<Longrightarrow> n mod 16 = 0"
  using mod_mod_cancel [of 16 4096 n] by simp

lemma region_whole:
  assumes "c \<noteq> 0" and "unat r mod 4096 = 0" and "unat r + 4096 * unat c \<le> HEAP_LIMIT"
  shows "whole_region (region_blk r c)"
  using assms bend_region(1) [OF assms(1,3)] by (simp add: whole_region_def) (simp add: region_blk_def)

text \<open>The size of a region is 8 above a multiple of 16, so no block that starts at a multiple of 16 is
  where \<open>heap_coalesce\<close> expects the next one.\<close>

lemma whole_not_mergeable:
  assumes "whole_region x" and "bend x \<le> HEAP_LIMIT" and "unat (addr y) mod 16 = 0"
  shows "\<not> mergeable x y"
proof
  assume m: "mergeable x y"
  obtain j k where jk: "unat (addr x) = 4096 * j" "bend x = 4096 * k"
    using assms(1) by (auto simp: whole_region_def mod_eq_0_iff_dvd dvd_def)
  then have s: "4096 * j + 24 + unat (bsize x) = 4096 * k" by (simp add: bend_def)
  have "unat (align_up (bsize x)) = (unat (bsize x) + 15) div 16 * 16"
    using s jk assms(2) by (intro align_up_bounds) simp
  also have "\<dots> = unat (bsize x) + 8"
  proof -
    have "j + 1 \<le> k" using s by simp
    then obtain d where "k = j + 1 + d" using le_Suc_ex by blast
    then have "unat (bsize x) = 8 + 16 * (256 * d + 254)" using s by simp
    then obtain m where "unat (bsize x) = 8 + 16 * m" by blast
    then show ?thesis by presburger
  qed
  finally have a: "unat (align_up (bsize x)) = unat (bsize x) + 8" .
  have "unat (addr x + HEADER) = unat (addr x) + 24" using unat_payload [OF assms(2)] .
  then have "unat (addr x + HEADER + align_up (bsize x)) = 4096 * k + 8"
    using a s jk assms(2) by (subst unat_add64) simp_all
  then have "unat (addr y) = 4096 * k + 8" using m by (simp add: mergeable_def)
  then have "unat (addr y) mod 16 = (4096 * k + 8) mod 16" by simp
  also have "\<dots> = (8 + 16 * (256 * k)) mod 16" by (simp add: add.commute)
  also have "\<dots> = 8" by (subst mod_mult_self2) simp
  finally show False using assms(3) by simp
qed

lemma coal_after_rest:
  assumes "at_rest xs" and "\<forall>x \<in> set xs. bend x \<le> HEAP_LIMIT" and "zs \<noteq> [] \<longrightarrow> unat (addr (hd zs)) mod 16 = 0"
  shows "coal (xs @ zs) = xs @ coal zs"
  using assms
proof (induction xs)
  case (Cons x xs)
  show ?case
  proof (cases "xs @ zs")
    case (Cons y r)
    have "unat (addr y) mod 16 = 0"
    proof (cases xs)
      case Nil
      then show ?thesis using Cons Cons.prems(3) by simp
    next
      case (Cons z xs')
      then have "unat (addr y) mod 4096 = 0" using \<open>xs @ zs = y # r\<close> Cons.prems(1) by (simp add: whole_region_def)
      then show ?thesis by (rule page_aligned_16)
    qed
    then have "\<not> mergeable x y" using whole_not_mergeable Cons.prems(1,2) by simp
    then show ?thesis using Cons.IH Cons.prems Cons by simp
  qed simp
qed simp

lemma coal_rest: "at_rest bs \<Longrightarrow> blocks_ok bs \<Longrightarrow> coal bs = bs"
  using coal_after_rest [of bs "[]"] by (simp add: blocks_ok_def)

text \<open>Freeing what was taken from a region gives the region back.\<close>

lemma coal_taken:
  assumes "blocks_ok (x # ys)" and "at_rest (x # ys)" and "align_up sz \<le> bsize x" and "taken (align_up sz) x = y # zs"
  shows "coal ((addr y, bsize y, True) # zs @ ys) = x # ys"
proof (cases "splits (align_up sz) x")
  case True
  have x: "isfree x" using assms(2) by (simp add: whole_region_def)
  have yz: "y = (addr x, align_up sz, False)"
      "zs = [(addr x + HEADER + align_up sz, bsize x - align_up sz - HEADER, True)]"
    using True assms(4) by (auto simp: taken_def align_up_idem)
  have "mergeable (addr y, bsize y, True) (hd zs)" by (simp add: mergeable_def yz align_up_idem)
  moreover have "merge (addr y, bsize y, True) (hd zs) = x" using x by (simp add: merge_def yz prod_eq_iff)
  ultimately have "coal ((addr y, bsize y, True) # zs @ ys) = coal (x # ys)" by (simp add: yz)
  also have "\<dots> = x # ys" by (rule coal_rest [OF assms(2,1)])
  finally show ?thesis .
next
  case False
  then have "(addr y, bsize y, True) = x" "zs = []" using assms(2,4) by (auto simp: taken_def whole_region_def prod_eq_iff)
  then show ?thesis using coal_rest [OF assms(2,1)] by simp
qed

section \<open>The invariant\<close>

definition heap_rest :: "heap \<Rightarrow> blk list \<Rightarrow> nat set \<Rightarrow> bool" where
  "heap_rest h bs F \<longleftrightarrow> heap_sys h bs F \<and> at_rest bs \<and> total_bytes h = sum_list (map bsize bs)"

lemma heap_rest_init: "heap_rest (heap_init h) [] F"
  by (simp add: heap_rest_def heap_sys_def heap_inv_init) (simp add: heap_init_def)

lemma heap_rest_used:
  assumes "heap_rest h bs F"
  shows "heap_used_bytes h = 0" and "heap_free_bytes h = heap_total_bytes h"
proof -
  have "unat (used_bytes h) = 0" using assms at_rest_used by (simp add: heap_rest_def heap_sys_def heap_inv_def)
  then show "heap_used_bytes h = 0" and "heap_free_bytes h = heap_total_bytes h"
    by (simp_all add: heap_used_bytes_def heap_free_bytes_def heap_total_bytes_def unat_eq_0)
qed

lemma sum_insert_blk: "sum_list (map bsize (insert_blk n bs)) = bsize n + sum_list (map bsize bs)"
proof -
  obtain xs ys where "bs = xs @ ys" "insert_blk n bs = xs @ n # ys" using insert_blk_split by blast
  then show ?thesis by simp
qed

text \<open>A block is taken from a region of a heap at rest, filled with anything, and freed.\<close>

lemma taken_and_freed:
  assumes "heap_sys h (xs @ x # ys) F" and "at_rest (xs @ x # ys)" and "align_up sz \<le> bsize x" and "sane_request sz"
  shows "\<exists>h'. take_block (addr x) (align_up sz) h = (addr x + HEADER, h') \<and> payload h' = payload h \<and>
    (\<forall>f. \<exists>h''. kfree (addr x + HEADER) (h'\<lparr>payload := f\<rparr>) = Some h'' \<and> heap_sys h'' (xs @ x # ys) F \<and>
       total_bytes h'' = total_bytes h)"
proof -
  have x: "isfree x" using assms(2) by (simp add: whole_region_def)
  obtain h' where h': "take_block (addr x) (align_up sz) h = (addr x + HEADER, h')"
      "heap_sys h' (xs @ taken (align_up sz) x @ ys) F" "payload h' = payload h" "total_bytes h' = total_bytes h"
    using take_block_sys [OF assms(1) x assms(3) sane_request_align(1) [OF assms(4)]] by blast
  obtain y zs where y: "taken (align_up sz) x = y # zs" by (cases "taken (align_up sz) x") (simp_all add: taken_nonempty)
  then have a: "addr y = addr x" "\<not> isfree y" using addr_hd_taken [of "align_up sz" x] by (auto simp: taken_def split: if_splits)
  have ok: "blocks_ok (xs @ x # ys)" by (rule heap_sys_blocks_ok [OF assms(1)])
  have "coal ((addr y, bsize y, True) # zs @ ys) = x # ys"
    by (rule coal_taken [OF _ _ assms(3) y]) (use ok assms(2) in \<open>simp_all add: blocks_ok_append\<close>)
  moreover have "unat (addr x) mod 16 = 0"
    using assms(2) by (intro page_aligned_16) (simp add: whole_region_def)
  then have "coal (xs @ (addr y, bsize y, True) # zs @ ys) = xs @ coal ((addr y, bsize y, True) # zs @ ys)"
    using ok assms(2) a(1) by (intro coal_after_rest) (simp_all add: blocks_ok_def)
  ultimately have c: "coal (xs @ (addr y, bsize y, True) # zs @ ys) = xs @ x # ys" by simp
  have "\<exists>h''. kfree (addr x + HEADER) (h'\<lparr>payload := f\<rparr>) = Some h'' \<and> heap_sys h'' (xs @ x # ys) F \<and>
      total_bytes h'' = total_bytes h" for f
  proof -
    have "heap_inv (h'\<lparr>payload := f\<rparr>) (xs @ y # zs @ ys)" using h'(2) y by (simp add: heap_sys_def heap_inv_def)
    from kfree_spec [OF this a(2)] show ?thesis using c a(1) h'(4) assms(1) by (auto simp: heap_sys_def)
  qed
  then show ?thesis using h' by blast
qed

section \<open>What a request gets\<close>

text \<open>The pointer, the regions and the frame source after a request on a heap at rest: first fit among the
  regions, else a new region.\<close>

definition serve ::
    "(u64 \<Rightarrow> 'p \<Rightarrow> (u64 \<times> 'p) option) \<Rightarrow> u64 \<Rightarrow> blk list \<Rightarrow> 'p \<Rightarrow> (u64 \<times> blk list \<times> 'p) option" where
  "serve alloc sz bs p =
     (if sz = 0 then Some (0, bs, p)
      else case find (fits (align_up sz)) bs of
        Some x \<Rightarrow> Some (addr x + HEADER, bs, p)
      | None \<Rightarrow>
          do { let c = heap_pages (align_up sz);
               (r, q) \<leftarrow> alloc c p;
               Some (if r = 0 then (0, bs, p) else (r + HEADER, insert_blk (region_blk r c) bs, q)) })"

text \<open>\<open>served h r h' bs' F\<close>: the request that gave \<open>r\<close> and the heap \<open>h'\<close> can be undone: freeing \<open>r\<close>,
  whatever was written meanwhile, leaves the heap at rest with the regions \<open>bs'\<close>.\<close>

definition served :: "u64 \<Rightarrow> heap \<Rightarrow> blk list \<Rightarrow> nat set \<Rightarrow> bool" where
  "served r h' bs' F \<longleftrightarrow>
     (if r = 0 then heap_rest h' bs' F
      else \<forall>f. \<exists>h''. kfree r (h'\<lparr>payload := f\<rparr>) = Some h'' \<and> heap_rest h'' bs' F)"

context frame_source
begin

lemma serve_fit:
  assumes "ok p" and "heap_rest h bs (owned p)" and "sane_request sz" and "sz \<noteq> 0" and "find (fits (align_up sz)) bs = Some x"
  shows "\<exists>h'. kmalloc alloc sz h p = Some (addr x + HEADER, h', p) \<and> payload h' = payload h \<and> served (addr x + HEADER) h' bs (owned p)"
proof -
  have sys: "heap_sys h bs (owned p)" and rest: "at_rest bs" and tot: "total_bytes h = sum_list (map bsize bs)"
    using assms(2) by (simp_all add: heap_rest_def)
  obtain xs ys where bs: "bs = xs @ x # ys" "fits (align_up sz) x" using find_first_split [OF assms(5)] by blast
  then have le: "align_up sz \<le> bsize x" by (simp add: fits_def)
  have "find_fit (align_up sz) (heap_head h) h = Some (addr x)"
    using find_fit_spec [of h "heap_head h" bs "align_up sz"] sys assms(5) by (simp add: heap_sys_def heap_inv_def)
  moreover have nz: "addr x \<noteq> 0" "addr x + HEADER \<noteq> 0" using heap_sys_nonnull [OF sys, of x] bs(1) by simp_all
  moreover obtain h' where h': "take_block (addr x) (align_up sz) h = (addr x + HEADER, h')" "payload h' = payload h"
      "\<forall>f. \<exists>h''. kfree (addr x + HEADER) (h'\<lparr>payload := f\<rparr>) = Some h'' \<and> heap_sys h'' bs (owned p) \<and>
       total_bytes h'' = total_bytes h"
    using taken_and_freed [OF sys [unfolded bs(1)] rest [unfolded bs(1)] le assms(3)] bs(1) by blast
  ultimately show ?thesis using assms(4) rest tot
    by (intro exI [of _ h']) (auto simp: kmalloc_def served_def heap_rest_def Let_def)
qed

lemma serve_grow:
  assumes "ok p" and "heap_rest h bs (owned p)" and "sane_request sz" and "sz \<noteq> 0" and "find (fits (align_up sz)) bs = None"
    and "alloc (heap_pages (align_up sz)) p = Some (r, q)" and "r \<noteq> 0"
  defines "n \<equiv> region_blk r (heap_pages (align_up sz))"
  shows "\<exists>h'. kmalloc alloc sz h p = Some (r + HEADER, h', q) \<and> payload h' = payload h \<and>
    served (r + HEADER) h' (insert_blk n bs) (owned q) \<and> r + HEADER \<noteq> 0"
proof -
  have sys: "heap_sys h bs (owned p)" and rest: "at_rest bs" and tot: "total_bytes h = sum_list (map bsize bs)"
    using assms(2) by (simp_all add: heap_rest_def)
  have run: "heap_pages (align_up sz) \<noteq> 0" "unat r mod 4096 = 0" "unat r + 4096 * unat (heap_pages (align_up sz)) \<le> HEAP_LIMIT"
    using alloc_run [OF assms(1,6,7)] by auto
  have restn: "at_rest (insert_blk n bs)" using region_whole [OF run] rest by (simp add: at_rest_insert n_def)
  obtain h1 where ex: "heap_expand alloc (align_up sz) h p = Some (r, h1, q)"
      and sys1: "heap_sys h1 (coal (insert_blk n bs)) (owned q)" and ok: "blocks_ok (insert_blk n bs)"
      and tot1: "total_bytes h1 = total_bytes h + bsize n" and pl: "payload h1 = payload h"
    using expand_spec [OF assms(1) sys assms(6,7)] unfolding n_def by blast
  have n: "addr n = r" by (simp add: n_def region_blk_def)
  obtain xs ys where sp: "bs = xs @ ys" "insert_blk n bs = xs @ n # ys" using insert_blk_split by blast
  have sys2: "heap_sys h1 (xs @ n # ys) (owned q)" using sys1 coal_rest [OF restn ok] sp(2) by simp
  have "unat (bsize n) = 4096 * unat (heap_pages (align_up sz)) - 24" unfolding n_def by (rule bend_region(2) [OF run(1,3)])
  then have le: "align_up sz \<le> bsize n" using sane_request_align(2) [OF assms(3)] by (simp add: word_le_nat_alt)
  obtain h' where h': "take_block r (align_up sz) h1 = (r + HEADER, h')" "payload h' = payload h1"
      "\<forall>f. \<exists>h''. kfree (r + HEADER) (h'\<lparr>payload := f\<rparr>) = Some h'' \<and> heap_sys h'' (xs @ n # ys) (owned q) \<and>
       total_bytes h'' = total_bytes h1"
    using taken_and_freed [OF sys2 restn [unfolded sp(2)] le assms(3)] n by auto
  have "find_fit (align_up sz) (heap_head h) h = Some 0"
    using find_fit_spec [of h "heap_head h" bs "align_up sz"] sys assms(5) by (simp add: heap_sys_def heap_inv_def)
  then have "kmalloc alloc sz h p = Some (r + HEADER, h', q)"
    using assms(4,7) ex h'(1) by (simp add: kmalloc_def Let_def)
  moreover have "r + HEADER \<noteq> 0" using heap_sys_nonnull(2) [OF sys2, of n] n by simp
  moreover have "total_bytes h1 = sum_list (map bsize (insert_blk n bs))" using tot1 tot by (simp add: sum_insert_blk)
  ultimately show ?thesis using h'(2,3) restn sp(2) pl
    by (intro exI [of _ h']) (simp add: served_def heap_rest_def)
qed

text \<open>On a heap at rest \<open>kmalloc\<close> gives exactly what \<open>serve\<close> says, and what it gave can be freed.\<close>

lemma serve_spec:
  assumes "ok p" and "heap_rest h bs (owned p)" and "sane_request sz"
  shows "\<exists>r bs' h' q. serve alloc sz bs p = Some (r, bs', q) \<and> kmalloc alloc sz h p = Some (r, h', q) \<and> ok q \<and>
    payload h' = payload h \<and> served r h' bs' (owned q) \<and> (r = 0 \<longrightarrow> h' = h \<and> q = p)"
proof (cases "sz = 0")
  case True
  then show ?thesis using assms by (simp add: serve_def served_def)
next
  case nz: False
  have sys: "heap_sys h bs (owned p)" using assms(2) by (simp add: heap_rest_def)
  show ?thesis
  proof (cases "find (fits (align_up sz)) bs")
    case (Some x)
    then have "addr x + HEADER \<noteq> 0" using heap_sys_nonnull(2) [OF sys, of x] find_first_split [OF Some] by auto
    then show ?thesis using serve_fit [OF assms nz Some] Some nz assms(1) by (auto simp: serve_def)
  next
    case None
    obtain r q where a: "alloc (heap_pages (align_up sz)) p = Some (r, q)" using alloc_returns [OF assms(1)] by blast
    show ?thesis
    proof (cases "r = 0")
      case True
      then show ?thesis using kmalloc_no_memory [OF assms(1) sys nz None] None a nz assms by (simp add: serve_def served_def)
    next
      case False
      show ?thesis using serve_grow [OF assms nz None a False] None a nz False alloc_ok [OF assms(1) a]
        by (auto simp: serve_def)
    qed
  qed
qed

end

section \<open>One client after the other\<close>

text \<open>A client asks for memory, writes what it likes into it, and frees it before the next one comes.\<close>

inductive visit :: "(u64 \<Rightarrow> 'p \<Rightarrow> (u64 \<times> 'p) option) \<Rightarrow> heap \<times> 'p \<Rightarrow> heap \<times> 'p \<Rightarrow> bool"
    for alloc :: "u64 \<Rightarrow> 'p \<Rightarrow> (u64 \<times> 'p) option" where
  visit_refused: "kmalloc alloc sz h p = Some (0, h', q) \<Longrightarrow> sane_request sz \<Longrightarrow> visit alloc (h, p) (h', q)"
| visit_served: "kmalloc alloc sz h p = Some (r, h', q) \<Longrightarrow> r \<noteq> 0 \<Longrightarrow> sane_request sz \<Longrightarrow>
     kfree r (h'\<lparr>payload := f\<rparr>) = Some h'' \<Longrightarrow> visit alloc (h, p) (h'', q)"

inductive_cases visitE: "visit alloc (h, p) (h', q)"

text \<open>Growth merges nothing when every block is a whole region.\<close>

lemma rest_growth_clean:
  assumes "blocks_ok (insert_blk (region_blk r c) bs)" and "at_rest bs" and "whole_region (region_blk r c)"
  shows "list_ex (\<lambda>x. addr x = r) (coal (insert_blk (region_blk r c) bs))"
proof -
  have "at_rest (insert_blk (region_blk r c) bs)" using assms(2,3) by (simp add: at_rest_insert)
  then have "coal (insert_blk (region_blk r c) bs) = insert_blk (region_blk r c) bs" using assms(1) by (rule coal_rest)
  then show ?thesis by (simp add: list_ex_iff) (simp add: region_blk_def)
qed

context frame_source
begin

lemma rest_clean:
  assumes "ok p" and "heap_rest h bs (owned p)"
  shows "growth_clean alloc sz bs p"
proof -
  have inv: "blocks_ok bs" "blocks_in bs (owned p)" "at_rest bs"
    using assms(2) by (simp_all add: heap_rest_def heap_sys_def heap_inv_def)
  have "list_ex (\<lambda>x. addr x = r) (coal (insert_blk (region_blk r c) bs))" if a: "alloc c p = Some (r, q)" "r \<noteq> 0" for c r q
  proof -
    note run = alloc_run [OF assms(1) a]
    have "blocks_ok (insert_blk (region_blk r c) bs)"
      by (rule region_between [OF inv(1,2) a(2)]) (use run in simp_all)
    moreover have "whole_region (region_blk r c)" by (rule region_whole) (use run in simp_all)
    ultimately show ?thesis using inv(3) by (intro rest_growth_clean)
  qed
  then show ?thesis by (auto simp: growth_clean_def Let_def split: option.splits)
qed

lemma visit_rest:
  assumes "visit alloc (h, p) (h', q)" and "ok p" and "heap_rest h bs (owned p)"
  shows "ok q \<and> (\<exists>bs'. heap_rest h' bs' (owned q))"
  using assms(1)
proof (rule visitE)
  fix sz
  assume "kmalloc alloc sz h p = Some (0, h', q)" "sane_request sz"
  then show ?thesis using serve_spec [OF assms(2,3), of sz] by (auto simp: served_def)
next
  fix sz r h1 f
  assume k: "kmalloc alloc sz h p = Some (r, h1, q)" "r \<noteq> 0" "sane_request sz" "kfree r (h1\<lparr>payload := f\<rparr>) = Some h'"
  then obtain bs' where "ok q" "served r h1 bs' (owned q)" using serve_spec [OF assms(2,3), of sz] by auto
  then show ?thesis using k(2,4) unfolding served_def by (metis option.inject)
qed

lemma visits_rest:
  assumes "(visit alloc)\<^sup>*\<^sup>* (heap_init h0, p0) (h, p)" and "ok p0"
  shows "ok p \<and> (\<exists>bs. heap_rest h bs (owned p))"
  using assms
proof (induction rule: rtranclp_induct2)
  case refl
  then show ?case using heap_rest_init by blast
next
  case (step h p h' q)
  then show ?case using visit_rest by blast
qed

end

section \<open>Properties\<close>

text \<open>C5: a kernel whose clients come one after the other never meets the overlap of \<open>kmalloc_overlap\<close>:
  however many clients have asked for memory, written to it and freed it, the heap is at rest, with no byte in
  use and all of it free; the growth of the heap is clean, and the next request gets exactly what the regions
  say, first fit among them or a new region.\<close>

theorem heap_at_rest:
  assumes "(visit pmm_alloc_frames)\<^sup>*\<^sup>* (heap_init h0, p0) (h, p)" and "pmm_ok p0" and "sane_request sz"
  shows "\<exists>bs r bs' h' q. heap_rest h bs (used_frames p) \<and> heap_used_bytes h = 0 \<and> heap_free_bytes h = heap_total_bytes h \<and>
    growth_clean pmm_alloc_frames sz bs p \<and>
    kmalloc pmm_alloc_frames sz h p = Some (r, h', q) \<and> serve pmm_alloc_frames sz bs p = Some (r, bs', q) \<and>
    served r h' bs' (used_frames q)"
proof -
  obtain bs where bs: "pmm_ok p" "heap_rest h bs (used_frames p)" using frames.visits_rest [OF assms(1,2)] by blast
  then show ?thesis
    using frames.serve_spec [OF bs assms(3)] frames.rest_clean [OF bs, of sz] heap_rest_used [OF bs(2)] by blast
qed

theorem heap_at_rest_witness:
  "\<exists>h p h' q. visit pmm_alloc_frames (heap_init empty_heap, open_pmm) (h, p) \<and> heap_used_bytes h = 0 \<and>
     kmalloc pmm_alloc_frames 64 h p = Some (0x1018, h', q)"
proof -
  have "map_option (\<lambda>(h, r). (r, heap_total_bytes h)) (do { (r1, h1, p1) \<leftarrow> kmalloc pmm_alloc_frames 100 empty_heap open_pmm;
             h2 \<leftarrow> kfree r1 (h1\<lparr>payload := \<lambda>_. 7\<rparr>);
             (r2, h3, p3) \<leftarrow> kmalloc pmm_alloc_frames 64 h2 p1;
             if r1 = 0x1018 then Some (h2, r2) else None }) = Some (0x1018, 4072)"
    by code_simp
  then obtain h1 p1 h2 h3 p3 where k: "kmalloc pmm_alloc_frames 100 empty_heap open_pmm = Some (0x1018, h1, p1)"
      "kfree 0x1018 (h1\<lparr>payload := \<lambda>_. 7\<rparr>) = Some h2" "kmalloc pmm_alloc_frames 64 h2 p1 = Some (0x1018, h3, p3)"
    by (auto simp: Option.bind_eq_Some_conv split: if_splits)
  have "sane_request 100" "sane_request 64" by code_simp+
  then have v: "visit pmm_alloc_frames (heap_init empty_heap, open_pmm) (h2, p1)"
    using k(1,2) by (intro visit_served) (simp_all add: empty_heap_init)
  then have "(visit pmm_alloc_frames)\<^sup>*\<^sup>* (heap_init empty_heap, open_pmm) (h2, p1)" by (rule r_into_rtranclp)
  from heap_at_rest [OF this open_pmm_ok \<open>sane_request 64\<close>] have "heap_used_bytes h2 = 0" by blast
  then show ?thesis using v k(3) by blast
qed

end
