(* ===== verification/Effects.thy ===== *)
theory Effects
  imports LineEditor HeapRest
begin

text \<open>
  The commands of the shell that do more than print: the ones that read a device, the one that
  allocates, the one that sleeps, and the ones that never return.
\<close>

section \<open>Devices beside the serial port\<close>

text \<open>Whatever was sent so far, the law \<open>R\<close> of a device holds while nothing is sent.\<close>

definition silently :: "(('d \<Rightarrow> bool) \<Rightarrow> bool) \<Rightarrow> ('d \<Rightarrow> u8 list) \<Rightarrow> ('d \<Rightarrow> bool) \<Rightarrow> bool" where
  "silently R sent okd \<longleftrightarrow> (\<forall>bs. R (\<lambda>d. okd d \<and> sent d = bs))"

lemma silentlyD: "silently R sent okd \<Longrightarrow> R (\<lambda>d. okd d \<and> sent d = bs)"
  by (simp add: silently_def)

lemma wrote_dev:
  assumes "con_ready okd s" and "okd d" and "sent d = sent (dev s)"
  shows "wrote sent okd s [] (s\<lparr>dev := d\<rparr>)"
  using assms by (simp add: wrote_def con_ready_def)

lemma execute_entry:
  fixes K :: "'d platform"
  assumes "0 \<in> set cmd" and "cstr cmd = str n" and "str n \<noteq> []" and "str n \<noteq> str ''exit''"
    and "map_of (map (apfst str) (commands :: (string \<times> 'd command) list)) (str n) = Some fn"
  shows "execute_command K cmd args s = and_then (fn K args s) (\<lambda>_ s. Some (Returns False s))"
  using execute_command_cases [OF assms(1), of K args s] assms(2-5) by simp

lemma execute_time:
  "0 \<in> set cmd \<Longrightarrow> cstr cmd = str ''time'' \<Longrightarrow>
     execute_command K cmd args s = and_then (returns (cmd_time K s)) (\<lambda>_ s. Some (Returns False s))"
  by (subst execute_entry [where n = "''time''"]) (simp_all add: commands_def str_def)

lemma execute_pci:
  "0 \<in> set cmd \<Longrightarrow> cstr cmd = str ''pci'' \<Longrightarrow>
     execute_command K cmd args s = and_then (returns (cmd_pci K s)) (\<lambda>_ s. Some (Returns False s))"
  by (subst execute_entry [where n = "''pci''"]) (simp_all add: commands_def str_def)

lemma execute_allocdemo:
  "0 \<in> set cmd \<Longrightarrow> cstr cmd = str ''allocdemo'' \<Longrightarrow>
     execute_command K cmd args s = and_then (returns (cmd_allocdemo K args s)) (\<lambda>_ s. Some (Returns False s))"
  by (subst execute_entry [where n = "''allocdemo''"]) (simp_all add: commands_def str_def)

lemma execute_sleep:
  "0 \<in> set cmd \<Longrightarrow> cstr cmd = str ''sleep'' \<Longrightarrow>
     execute_command K cmd args s = and_then (cmd_sleep K args s) (\<lambda>_ s. Some (Returns False s))"
  by (subst execute_entry [where n = "''sleep''"]) (simp_all add: commands_def str_def)

lemma execute_stops:
  "0 \<in> set cmd \<Longrightarrow> cstr cmd = str ''panic'' \<Longrightarrow>
     execute_command K cmd args s = and_then (cmd_panic K s) (\<lambda>_ s. Some (Returns False s))"
  "0 \<in> set cmd \<Longrightarrow> cstr cmd = str ''reboot'' \<Longrightarrow>
     execute_command K cmd args s = and_then (cmd_reboot K s) (\<lambda>_ s. Some (Returns False s))"
  "0 \<in> set cmd \<Longrightarrow> cstr cmd = str ''halt'' \<Longrightarrow>
     execute_command K cmd args s = and_then (cmd_halt K s) (\<lambda>_ s. Some (Returns False s))"
  by (subst execute_entry [where n = "''panic''"] execute_entry [where n = "''reboot''"] execute_entry [where n = "''halt''"],
      simp_all add: commands_def str_def)+

section \<open>time\<close>

definition two_digits :: "nat \<Rightarrow> action list" where
  "two_digits n = (if n < 10 then out ''0'' else []) @ dec n"

definition time_script :: "date_time \<Rightarrow> action list" where
  "time_script t =
     out ''RTC time: '' @ dec (2000 + dt_year t) @ out ''-'' @ two_digits (dt_month t) @ out ''-'' @ two_digits (dt_day t) @
     out '' '' @ two_digits (dt_hour t) @ out '':'' @ two_digits (dt_minute t) @ out '':'' @ two_digits (dt_second t) @
     out ''\<newline>''"

lemma prints_padded:
  assumes "uart P sent okd"
  shows "prints sent okd s0 (kprint_padded P v) (two_digits (unat v))"
proof -
  have "prints sent okd s0 (\<lambda>s. do { s \<leftarrow> (if v < 10 then kprint P (lit ''0'') s else Some s); kprint_u64 P (ucast v) s })
      ((if v < 10 then out ''0'' else []) @ dec (unat (ucast v :: u64)))"
    by (intro prints_bind prints_if prints_lit prints_numbers prints_none assms) simp
  then show ?thesis by (simp add: kprint_padded_def [abs_def] two_digits_def word_less_nat_alt)
qed

text \<open>What \<open>cmd_time\<close> does after the clock was read.\<close>

lemma cmd_time_read:
  assumes "rtc_read_time (ports_of K) (dev s) = Some (rtc_of t, d)" and "valid_time t"
    and "uart (ports_of K) sent okd" and "con_ready okd s" and "okd d" and "sent d = sent (dev s)"
  shows "\<exists>u. cmd_time K s = Some u \<and> cmd_buffer u = cmd_buffer s \<and> hist u = hist s \<and> wrote sent okd s (time_script t) u"
proof -
  let ?P = "ports_of K" and ?now = "rtc_of t"
  let ?f = "\<lambda>s. do { s \<leftarrow> kprint ?P (lit ''RTC time: '') s;
          s \<leftarrow> kprint_u64 ?P (ucast (year ?now)) s;
          s \<leftarrow> kprint ?P (lit ''-'') s;
          s \<leftarrow> kprint_padded ?P (month ?now) s;
          s \<leftarrow> kprint ?P (lit ''-'') s;
          s \<leftarrow> kprint_padded ?P (day ?now) s;
          s \<leftarrow> kprint ?P (lit '' '') s;
          s \<leftarrow> kprint_padded ?P (hour ?now) s;
          s \<leftarrow> kprint ?P (lit '':'') s;
          s \<leftarrow> kprint_padded ?P (minute ?now) s;
          s \<leftarrow> kprint ?P (lit '':'') s;
          s \<leftarrow> kprint_padded ?P (second ?now) s;
          kprint ?P (lit ''\<newline>'') s }"
  have small: "unat (of_nat n :: u8) = n" if "n < 100" for n using that by (simp add: unat_of_nat take_bit_eq_mod)
  have y: "unat (2000 + of_nat n :: u16) = 2000 + n" if "n < 100" for n
    using that by (subst unat_add_lem [THEN iffD1]) (simp_all add: unat_of_nat take_bit_eq_mod)
  have fields: "unat (year ?now) = 2000 + dt_year t" "unat (month ?now) = dt_month t" "unat (day ?now) = dt_day t"
      "unat (hour ?now) = dt_hour t" "unat (minute ?now) = dt_minute t" "unat (second ?now) = dt_second t"
    using assms(2) by (simp_all add: rtc_of_def valid_time_def small y)
  have p: "prints sent okd s0 ?f (time_script t)" for s0
    by (rule prints_as, (rule script_rules prints_padded assms(3) | (simp; fail))+)
      (simp add: time_script_def fields)
  have w: "wrote sent okd s [] (s\<lparr>dev := d\<rparr>)" by (rule wrote_dev [OF assms(4-6)])
  obtain u where "?f (s\<lparr>dev := d\<rparr>) = Some u" "wrote sent okd (s\<lparr>dev := d\<rparr>) (time_script t) u"
      "cmd_buffer u = cmd_buffer s" "hist u = hist s"
    using prints_wrote [OF p wrote_ready [OF w]] by auto
  then show ?thesis using assms(1) wrote_trans [OF w] by (intro exI [of _ u]) (simp add: cmd_time_def Let_def)
qed

lemma cmd_time_spec:
  assumes "uart (ports_of K) sent okd" and "silently (stable_clock (ports_of K) regs) sent okd" and "con_ready okd s"
    and "valid_time t" and "clock_shows regs t" and "regs 0x0B AND 0x02 \<noteq> 0 \<or> dt_hour t mod 12 \<noteq> 0"
  shows "\<exists>u. cmd_time K s = Some u \<and> cmd_buffer u = cmd_buffer s \<and> hist u = hist s \<and> wrote sent okd s (time_script t) u"
proof -
  have "okd (dev s)" using assms(3) by (simp add: con_ready_def)
  moreover have "rtc_convert (sample_of regs) (regs 0x0B) = rtc_of t"
    using rtc_convert_shown [OF assms(4,5)] assms(6) by (auto simp: read_hour_def rtc_of_def)
  ultimately obtain d where "rtc_read_time (ports_of K) (dev s) = Some (rtc_of t, d)" "okd d" "sent d = sent (dev s)"
    using rtc_read_stable [OF silentlyD [OF assms(2), of "sent (dev s)"], of "dev s"] by auto
  then show ?thesis by (intro cmd_time_read [OF _ assms(4,1,3)])
qed

section \<open>pci\<close>

definition device_script :: "pci_device \<Rightarrow> action list" where
  "device_script dv =
     out ''bus='' @ dec (unat (bus dv)) @ out '' slot='' @ dec (unat (slot dv)) @ out '' func='' @ dec (unat (func dv)) @
     out '' vendor='' @ hex (ucast (vendor_id dv)) @ out '' device='' @ hex (ucast (device_id dv)) @
     out '' class='' @ out (pci_class_name (class_code dv) (subclass_code dv)) @ out ''\<newline>''"

definition pci_script :: "pci_device list \<Rightarrow> action list" where
  "pci_script dvs = out ''PCI devices: '' @ dec (length dvs) @ out ''\<newline>'' @ concat (map device_script dvs)"

lemma class_name_nonzero: "list_all (\<lambda>c. c \<noteq> CHR 0x00) (pci_class_name c sc)"
  by (simp add: pci_class_name_def)

lemma prints_device:
  "uart P sent okd \<Longrightarrow> prints sent okd s0 (print_device P dv) (device_script dv)"
  unfolding print_device_def
  by (rule prints_as, (rule script_rules class_name_nonzero | (simp; fail))+)
    (simp add: device_script_def hex_def hex_text_def)

lemma map_nth_script: "map (\<lambda>i. f (xs ! i)) [0..<length xs] = map f xs"
  by (rule nth_equalityI) simp_all

lemma cmd_pci_spec:
  assumes "uart (ports_of K) sent okd" and "silently (config_space (ports_of K) cfg) sent okd" and "con_ready okd s"
    and "length (pci_devices s) = 64" and "dvs = take 64 (all_functions cfg)"
  shows "\<exists>u. cmd_pci K s = Some u \<and> cmd_buffer u = cmd_buffer s \<and> hist u = hist s \<and> pci_devices u = dvs @ drop (length dvs) (pci_devices s) \<and>
    wrote sent okd (s\<lparr>pci_devices := dvs @ drop (length dvs) (pci_devices s)\<rparr>) (pci_script dvs) u"
proof -
  let ?a = "dvs @ drop (length dvs) (pci_devices s)" and ?P = "ports_of K"
  have n: "length dvs \<le> 64" using assms(5) by simp
  have u: "unat (of_nat (length dvs) :: u8) = length dvs" using n by (simp add: unat_of_nat take_bit_eq_mod)
  obtain d where d: "pci_enumerate ?P (Some (pci_devices s)) 64 (dev s) = Some (of_nat (length dvs), Some ?a, d)"
      "okd d" "sent d = sent (dev s)"
    using enumerate_spec [OF silentlyD [OF assms(2), of "sent (dev s)"], of "dev s" 64 "pci_devices s"] assms(3-5)
    by (auto simp: pci_enumerate_def con_ready_def simp del: length_take)
  let ?s = "s\<lparr>pci_devices := ?a\<rparr>"
  have w: "wrote sent okd ?s [] (?s\<lparr>dev := d\<rparr>)"
    by (rule wrote_dev) (use assms(3) d in \<open>simp_all add: con_ready_def\<close>)
  let ?f = "\<lambda>s. do { s \<leftarrow> kprint ?P (lit ''PCI devices: '') s;
          s \<leftarrow> kprint_u64 ?P (ucast (of_nat (length dvs) :: u8)) s;
          s \<leftarrow> kprint ?P (lit ''\<newline>'') s;
          for_range 0 (length dvs) (\<lambda>i s. do { dv \<leftarrow> rd ?a i; print_device ?P dv s }) s }"
  have one: "prints sent okd s0 (\<lambda>s. do { dv \<leftarrow> rd ?a i; print_device ?P dv s }) (device_script (dvs ! i))"
    if "i < length dvs" for i s0
    using prints_device [OF assms(1), of s0 "dvs ! i"] that by (simp add: nth_append)
  have p: "prints sent okd s0 ?f (pci_script dvs)" for s0
    by (rule prints_as, (rule script_rules prints_for_range one assms(1) | (simp; fail))+)
      (simp add: pci_script_def u map_nth_script)
  obtain t where "?f (?s\<lparr>dev := d\<rparr>) = Some t" "wrote sent okd (?s\<lparr>dev := d\<rparr>) (pci_script dvs) t"
      "cmd_buffer t = cmd_buffer s" "hist t = hist s"
    using prints_wrote [OF p wrote_ready [OF w]] by auto
  moreover have "pci_devices t = ?a" using \<open>wrote sent okd (?s\<lparr>dev := d\<rparr>) (pci_script dvs) t\<close> by (auto simp: wrote_def same_kernel_def)
  ultimately show ?thesis using d(1) u wrote_trans [OF w] by (intro exI [of _ t]) (simp add: cmd_pci_def Let_def)
qed

section \<open>allocdemo\<close>

definition allocdemo_script :: "u64 \<Rightarrow> u64 \<Rightarrow> action list" where
  "allocdemo_script sz r =
     (if r = 0 then out ''Allocation failed\<newline>''
      else out ''Allocated '' @ dec (unat sz) @ out '' bytes at '' @ hex r @ out ''\<newline>'' @ out ''Freed allocation\<newline>'')"

lemma cmd_allocdemo_runs:
  assumes "uart (ports_of K) sent okd" and "con_ready okd s" and "\<forall>a \<in> set args. 0 \<in> set a"
    and "asked_number (map cstr args) 64 = Some sz"
    and "kmalloc pmm_alloc_frames sz (heap_st s) (pmm_st s) = Some (r, h, q)"
    and "if r = 0 then h' = h else kfree r (h\<lparr>payload := kmemset (payload h) r 0xA5 sz\<rparr>) = Some h'"
  shows "\<exists>u. cmd_allocdemo K args s = Some u \<and> cmd_buffer u = cmd_buffer s \<and> hist u = hist s \<and>
    wrote sent okd (s\<lparr>pmm_st := q, heap_st := h'\<rparr>) (allocdemo_script sz r) u"
proof (cases "r = 0")
  case True
  let ?s = "s\<lparr>heap_st := h, pmm_st := q\<rparr>"
  have e: "?s = s\<lparr>pmm_st := q, heap_st := h'\<rparr>" using True assms(6) by simp
  have "con_ready okd ?s" using assms(2) by (simp add: con_ready_def)
  then obtain u where "kprint (ports_of K) (lit ''Allocation failed\<newline>'') ?s = Some u"
      "wrote sent okd ?s (out ''Allocation failed\<newline>'') u" "cmd_buffer u = cmd_buffer s" "hist u = hist s"
    using prints_wrote [OF prints_lit [OF assms(1), of "''Allocation failed\<newline>''"]] by fastforce
  moreover have "number_arg args 64 = Some (Some sz)" using number_arg_spec [OF assms(3)] assms(4) by simp
  ultimately show ?thesis using True assms(5) e
    by (intro exI [of _ u]) (simp add: cmd_allocdemo_def allocdemo_script_def)
next
  case False
  let ?P = "ports_of K" and ?h = "h\<lparr>payload := kmemset (payload h) r 0xA5 sz\<rparr>"
  let ?xs = "out ''Allocated '' @ dec (unat sz) @ out '' bytes at '' @ hex r @ out ''\<newline>''"
  let ?f = "\<lambda>s. do { s \<leftarrow> kprint ?P (lit ''Allocated '') s;
                   s \<leftarrow> kprint_u64 ?P sz s;
                   s \<leftarrow> kprint ?P (lit '' bytes at '') s;
                   s \<leftarrow> kprint_hex ?P r s;
                   kprint ?P (lit ''\<newline>'') s }"
  let ?s1 = "s\<lparr>pmm_st := q, heap_st := ?h\<rparr>" and ?s2 = "s\<lparr>pmm_st := q, heap_st := h'\<rparr>"
  have p: "prints sent okd s0 ?f ?xs" for s0
    by (rule prints_as, (rule script_rules assms(1) | (simp; fail))+) (simp add: hex_def hex_text_def)
  have "con_ready okd ?s1" using assms(2) by (simp add: con_ready_def)
  then obtain v d where vd: "?f ?s1 = Some (?s1\<lparr>con_vga := v, dev := d\<rparr>)" "con_ready okd (?s1\<lparr>con_vga := v, dev := d\<rparr>)"
      "sent d = sent (dev ?s1) @ crlf (put_bytes ?xs)" "term_of v = fold act ?xs (term_of (con_vga ?s1))"
    using printsD [OF p] by blast
  let ?s3 = "?s2\<lparr>con_vga := v, dev := d\<rparr>"
  have e: "s\<lparr>pmm_st := q, con_vga := v, dev := d, heap_st := h'\<rparr> = ?s3" by simp
  have w: "wrote sent okd ?s2 ?xs ?s3"
    using vd(2-4) same_kernel_con by (simp add: wrote_def con_ready_def)
  obtain u where u: "kprint ?P (lit ''Freed allocation\<newline>'') ?s3 = Some u"
      "wrote sent okd ?s3 (out ''Freed allocation\<newline>'') u" "cmd_buffer u = cmd_buffer ?s3" "hist u = hist ?s3"
    using prints_wrote [OF prints_lit [OF assms(1), of "''Freed allocation\<newline>''"] wrote_ready [OF w]] by auto
  have "number_arg args 64 = Some (Some sz)" using number_arg_spec [OF assms(3)] assms(4) by simp
  then have "cmd_allocdemo K args s = Option.bind (?f ?s1) (\<lambda>s. do { h \<leftarrow> kfree r (heap_st s);
      kprint ?P (lit ''Freed allocation\<newline>'') (s\<lparr>heap_st := h\<rparr>) })"
    using assms(5) False by (simp add: cmd_allocdemo_def Let_def)
  then have "cmd_allocdemo K args s = Some u" unfolding vd(1) using assms(6) u(1) False by (simp add: e)
  moreover have "wrote sent okd ?s2 (allocdemo_script sz r) u"
    using wrote_trans [OF w u(2)] False by (simp add: allocdemo_script_def)
  ultimately show ?thesis using u(3,4) by (intro exI [of _ u]) simp
qed

text \<open>On a heap at rest the answer follows from the regions, and the heap is at rest again.\<close>

lemma cmd_allocdemo_rest:
  assumes "uart (ports_of K) sent okd" and "con_ready okd s" and "\<forall>a \<in> set args. 0 \<in> set a"
    and "asked_number (map cstr args) 64 = Some sz" and "pmm_ok (pmm_st s)" and "heap_rest (heap_st s) bs (used_frames (pmm_st s))"
    and "sane_request sz"
  shows "\<exists>r bs' q h u. serve pmm_alloc_frames sz bs (pmm_st s) = Some (r, bs', q) \<and> cmd_allocdemo K args s = Some u \<and>
    pmm_ok q \<and> heap_rest h bs' (used_frames q) \<and> cmd_buffer u = cmd_buffer s \<and> hist u = hist s \<and>
    wrote sent okd (s\<lparr>pmm_st := q, heap_st := h\<rparr>) (allocdemo_script sz r) u"
proof -
  obtain r bs' h q where k: "serve pmm_alloc_frames sz bs (pmm_st s) = Some (r, bs', q)"
      "kmalloc pmm_alloc_frames sz (heap_st s) (pmm_st s) = Some (r, h, q)" "pmm_ok q" "served r h bs' (used_frames q)"
    using frames.serve_spec [OF assms(5-7)] by blast
  obtain h' where h': "if r = 0 then h' = h else kfree r (h\<lparr>payload := kmemset (payload h) r 0xA5 sz\<rparr>) = Some h'"
      "heap_rest h' bs' (used_frames q)"
    using k(4) unfolding served_def by (cases "r = 0") auto
  show ?thesis using cmd_allocdemo_runs [OF assms(1-4) k(2) h'(1)] k h'(2) by blast
qed

section \<open>sleep\<close>

definition sleep_script :: "u64 \<Rightarrow> action list" where
  "sleep_script n = out ''Sleeping for '' @ dec (unat n) @ out '' ms...\<newline>'' @ out ''Awake\<newline>''"

lemma silently_burst: "burst_bound E okd B \<Longrightarrow> burst_bound E (\<lambda>d. okd d \<and> ok d) B"
  by (simp add: burst_bound_def)

text \<open>The tick counter after a sleep is the deadline, or later by interrupts that fell between the checks.\<close>

lemma cmd_sleep_late:
  assumes "uart (ports_of K) sent okd" and "silently (\<lambda>ok. irq_source (env K) ok before_tick) sent okd"
    and "burst_bound (env K) okd B"
    and "con_ready okd s" and "keyboard_wf (kbd s)" and "interrupts s" and "\<forall>a \<in> set args. 0 \<in> set a"
    and "asked_number (map cstr args) 100 = Some n" and "unat (timer_ticks s) + unat n + 2 * B < 2 ^ 64"
  shows "\<exists>late k t. late \<le> 2 * B \<and> cmd_sleep K args s = Some (Returns () t) \<and> keyboard_wf k \<and>
    cmd_buffer t = cmd_buffer s \<and> hist t = hist s \<and>
    wrote sent okd (s\<lparr>kbd := k, timer_ticks := timer_ticks s + n + of_nat late\<rparr>) (sleep_script n) t"
proof -
  let ?P = "ports_of K"
  have na: "number_arg args 100 = Some (Some n)" using number_arg_spec [OF assms(7)] assms(8) by simp
  let ?f = "\<lambda>s. do { s \<leftarrow> kprint ?P (lit ''Sleeping for '') s; s \<leftarrow> kprint_u64 ?P n s; kprint ?P (lit '' ms...\<newline>'') s }"
  let ?xs = "out ''Sleeping for '' @ dec (unat n) @ out '' ms...\<newline>''"
  have p: "prints sent okd s ?f ?xs"
    by (rule prints_as, (rule script_rules assms(1) | (simp; fail))+)
  obtain d v where d: "?f s = Some (s\<lparr>con_vga := v, dev := d\<rparr>)" "con_ready okd (s\<lparr>con_vga := v, dev := d\<rparr>)"
      "sent d = sent (dev s) @ crlf (put_bytes ?xs)" "term_of v = fold act ?xs (term_of (con_vga s))"
    using printsD [OF p assms(4)] by blast
  let ?s = "s\<lparr>con_vga := v, dev := d\<rparr>" and ?ok = "\<lambda>e. okd e \<and> sent e = sent d"
  have "machine_ok ?ok ?s" using assms(5,6) d(2) by (simp add: machine_ok_def con_ready_def)
  then obtain late t where t: "system_sleep_ms (env K) n ?s = Some (Returns () t)" "late \<le> 2 * B" "ticked ?ok (unat n + late) ?s t"
    using sleep_returns [OF silentlyD [OF assms(2)] silently_burst [OF assms(3)], of "sent d" ?s n] assms(9) by auto
  obtain k e where e: "t = ?s\<lparr>kbd := k, dev := e, timer_ticks := timer_ticks ?s + of_nat (unat n + late)\<rparr>"
      "keyboard_wf k" "okd e" "sent e = sent d"
    using t(3) unfolding ticked_def by blast
  let ?after = "s\<lparr>kbd := k, timer_ticks := timer_ticks s + n + of_nat late\<rparr>"
  have t': "t = ?after\<lparr>con_vga := v, dev := e\<rparr>" unfolding e(1) by (simp add: add.assoc)
  have w: "wrote sent okd ?after ?xs t"
    unfolding t' using d(2-4) e(3,4) same_kernel_con by (simp add: wrote_def con_ready_def)
  obtain u where u: "kprint ?P (lit ''Awake\<newline>'') t = Some u" "wrote sent okd t (out ''Awake\<newline>'') u"
      "cmd_buffer u = cmd_buffer t" "hist u = hist t"
    using prints_wrote [OF prints_lit [OF assms(1), of "''Awake\<newline>''"] wrote_ready [OF w]] by auto
  have "cmd_sleep K args s = Option.bind (?f s) (\<lambda>s. and_then (system_sleep_ms (env K) n s)
      (\<lambda>_ s. returns (kprint ?P (lit ''Awake\<newline>'') s)))"
    using na by (simp add: cmd_sleep_def Let_def)
  also have "\<dots> = and_then (system_sleep_ms (env K) n ?s) (\<lambda>_ s. returns (kprint ?P (lit ''Awake\<newline>'') s))"
    unfolding d(1) by (rule Option.bind.bind_lunit)
  also have "\<dots> = Some (Returns () u)" unfolding t(1) and_then_simps u(1) by simp
  finally have run: "cmd_sleep K args s = Some (Returns () u)" .
  have "wrote sent okd ?after (sleep_script n) u" using wrote_trans [OF w u(2)] by (simp add: sleep_script_def)
  moreover have "cmd_buffer u = cmd_buffer s" "hist u = hist s" using u(3,4) t' by simp_all
  ultimately show ?thesis using run e(2) t(2) by blast
qed

text \<open>When interrupts come only while the processor waits, the sleep is exact.\<close>

lemma cmd_sleep_spec:
  assumes "uart (ports_of K) sent okd" and "silently (\<lambda>ok. irq_source (env K) ok before_tick) sent okd"
    and "burst_bound (env K) okd 0"
    and "con_ready okd s" and "keyboard_wf (kbd s)" and "interrupts s" and "\<forall>a \<in> set args. 0 \<in> set a"
    and "asked_number (map cstr args) 100 = Some n" and "unat (timer_ticks s) + unat n < 2 ^ 64"
  shows "\<exists>k t. cmd_sleep K args s = Some (Returns () t) \<and> keyboard_wf k \<and> cmd_buffer t = cmd_buffer s \<and> hist t = hist s \<and>
    wrote sent okd (s\<lparr>kbd := k, timer_ticks := timer_ticks s + n\<rparr>) (sleep_script n) t"
  using cmd_sleep_late [OF assms(1-8)] assms(9) by fastforce

section \<open>panic, reboot and halt\<close>

text \<open>The keyboard controller takes the reset command at last.\<close>

definition resets :: "'d ports \<Rightarrow> ('d \<Rightarrow> bool) \<Rightarrow> bool" where
  "resets P okd \<longleftrightarrow> (\<forall>d. okd d \<longrightarrow> okd (snd (reboot_drain P d)) \<and> (\<exists>n. fst (reboot_drain P (polled (reboot_drain P) n d))))"

definition last_words :: "u8 list \<Rightarrow> u8 list" where
  "last_words w =
     (if w = str ''panic'' then panic_text (str ''panic command invoked'')
      else if w = str ''reboot'' then str ''Rebooting system...\<newline>''
      else str ''System halted.\<newline>'')"

lemma cmd_panic_spec:
  assumes "uart (ports_of K) sent okd" and "quiet_port (ports_of K) sent okd 0xF4" and "con_ready okd s"
  shows "\<exists>t. cmd_panic K s = Some (Halts t) \<and> \<not> interrupts t \<and>
    sent (dev t) = sent (dev s) @ crlf (last_words (str ''panic'')) \<and> (\<exists>d. dev t = outb (ports_of K) 0xF4 0x21 d)"
proof -
  have z: "0 \<in> set (lit ''panic command invoked'')" by (simp add: lit_def)
  have "cstr (lit ''panic command invoked'') = str ''panic command invoked''" by (rule cstr_lit) simp
  then show ?thesis using panic_spec [OF assms z] by (simp add: cmd_panic_def last_words_def)
qed

lemma cmd_halt_spec:
  assumes "uart (ports_of K) sent okd" and "con_ready okd s"
  shows "\<exists>t. cmd_halt K s = Some (Halts t) \<and> \<not> interrupts t \<and> sent (dev t) = sent (dev s) @ crlf (last_words (str ''halt''))"
proof -
  obtain u where "kprint_colored (ports_of K) (lit ''System halted.\<newline>'') VGA_COLOR_RED VGA_COLOR_BLACK s = Some u"
      "wrote sent okd s (coloured VGA_COLOR_RED VGA_COLOR_BLACK (str ''System halted.\<newline>'')) u"
    using prints_wrote [OF prints_colored_lit [OF assms(1)] assms(2), of "''System halted.\<newline>''"] by auto
  then show ?thesis by (simp add: cmd_halt_def system_halt_def cpu_cli_def wrote_def last_words_def str_def)
qed

lemma cmd_reboot_spec:
  assumes "uart (ports_of K) sent okd" and "quiet_port (ports_of K) sent okd 0x64" and "silently (resets (ports_of K)) sent okd"
    and "con_ready okd s"
  shows "\<exists>t. cmd_reboot K s = Some (Halts t) \<and> \<not> interrupts t \<and>
    sent (dev t) = sent (dev s) @ crlf (last_words (str ''reboot'')) \<and> (\<exists>d. dev t = outb (ports_of K) 0x64 0xFE d)"
proof -
  obtain u where u: "kprint_colored (ports_of K) (lit ''Rebooting system...\<newline>'') VGA_COLOR_YELLOW VGA_COLOR_BLACK s = Some u"
      "wrote sent okd s (coloured VGA_COLOR_YELLOW VGA_COLOR_BLACK (str ''Rebooting system...\<newline>'')) u"
    using prints_wrote [OF prints_colored_lit [OF assms(1)] assms(4), of "''Rebooting system...\<newline>''"] by auto
  let ?ok = "\<lambda>d. okd d \<and> sent d = sent (dev u)"
  have "?ok (dev u)" using wrote_ready [OF u(2)] by (simp add: con_ready_def)
  then obtain d where d: "poll (reboot_drain (ports_of K)) (dev u) = Some d" "okd d" "sent d = sent (dev u)"
    using poll_keeps [of "reboot_drain (ports_of K)" "dev u" ?ok] silentlyD [OF assms(3), of "sent (dev u)"]
    unfolding resets_def by blast
  then have "sent (outb (ports_of K) 0x64 0xFE d) = sent (dev u)" using assms(2) by (simp add: quiet_port_def)
  then show ?thesis using u d(1)
    by (simp add: cmd_reboot_def system_reboot_def cpu_cli_def out8_def wrote_def last_words_def str_def) blast
qed

text \<open>The three commands that never return.\<close>

lemma execute_stops_spec:
  assumes "uart (ports_of K) sent okd" and "quiet_port (ports_of K) sent okd 0xF4" and "con_ready okd s" and "0 \<in> set cmd"
    and "cstr cmd \<in> {str ''panic'', str ''halt''} \<or>
      cstr cmd = str ''reboot'' \<and> quiet_port (ports_of K) sent okd 0x64 \<and> silently (resets (ports_of K)) sent okd"
  shows "\<exists>t. execute_command K cmd args s = Some (Halts t) \<and> \<not> interrupts t \<and>
    sent (dev t) = sent (dev s) @ crlf (last_words (cstr cmd)) \<and>
    (cstr cmd = str ''panic'' \<longrightarrow> (\<exists>d. dev t = outb (ports_of K) 0xF4 0x21 d)) \<and>
    (cstr cmd = str ''reboot'' \<longrightarrow> (\<exists>d. dev t = outb (ports_of K) 0x64 0xFE d))"
proof -
  have ne: "str ''panic'' \<noteq> str ''reboot''" "str ''panic'' \<noteq> str ''halt''" "str ''reboot'' \<noteq> str ''halt''"
    by (simp_all add: str_def)
  consider "cstr cmd = str ''panic''" | "cstr cmd = str ''reboot''" "quiet_port (ports_of K) sent okd 0x64" "silently (resets (ports_of K)) sent okd" | "cstr cmd = str ''halt''" using assms(5) by blast
  then show ?thesis
  proof cases
    case 1
    then show ?thesis using cmd_panic_spec [OF assms(1,2,3)] execute_stops(1) [OF assms(4) 1, of K args s] ne by auto
  next
    case 2
    then show ?thesis using cmd_reboot_spec [OF assms(1) _ _ assms(3)] 2(2,3) execute_stops(2) [OF assms(4) 2(1), of K args s] ne by auto
  next
    case 3
    then show ?thesis using cmd_halt_spec [OF assms(1,3)] execute_stops(3) [OF assms(4) 3, of K args s] ne by auto
  qed
qed

section \<open>A board for the examples\<close>

text \<open>A serial port for the examples: received and sent bytes, and the latch that turns the data port into
  the divisor.\<close>

record tty =
  rx :: "u8 list"
  tx :: "u8 list"
  latch :: bool

definition tty_ports :: "tty ports" where
  "tty_ports =
     \<lparr>inb = (\<lambda>p d. if p = 0x3FD then (if rx d = [] then 0x20 else 0x21, d)
               else if p = COM1_PORT then (case rx d of [] \<Rightarrow> (0, d) | c # cs \<Rightarrow> (c, d\<lparr>rx := cs\<rparr>)) else (0xFF, d)),
      outb = (\<lambda>p v d. if p = COM1_PORT \<and> \<not> latch d then d\<lparr>tx := tx d @ [v]\<rparr>
               else if p = 0x3FB then d\<lparr>latch := bit v 7\<rparr> else d),
      inl = (\<lambda>p d. (0, d)), outl = (\<lambda>p v d. d)\<rparr>"

abbreviation unlatched :: "tty \<Rightarrow> bool" where "unlatched d \<equiv> \<not> latch d"

definition tty_env :: "tty env" where
  "tty_env = \<lparr>io = tty_ports, next_irq = (\<lambda>_. None), irq_burst = (\<lambda>_. 0), read_cr2 = (\<lambda>_. 0)\<rparr>"

lemma tty_env_simps [simp]: "io tty_env = tty_ports"
  by (simp add: tty_env_def)

text \<open>A serial port, a timer, a clock chip, a host bridge, and an idle keyboard controller.\<close>

type_synonym board = "tty \<times> (u8 \<times> nat) \<times> u32"

definition board_ports :: "(u8 \<Rightarrow> u8) \<Rightarrow> (u32 \<Rightarrow> u32) \<Rightarrow> board ports" where
  "board_ports regs cfg =
     \<lparr>inb = (\<lambda>p (t, c, b). if p = 0x71 then (case inb (chip_ports (\<lambda>_. regs)) p c of (v, c) \<Rightarrow> (v, t, c, b))
               else if p = 0x64 then (0, t, c, b)
               else (case inb tty_ports p t of (v, t) \<Rightarrow> (v, t, c, b))),
      outb = (\<lambda>p v (t, c, b). if p = 0x70 then (t, outb (chip_ports (\<lambda>_. regs)) p v c, b) else (outb tty_ports p v t, c, b)),
      inl = (\<lambda>p (t, c, b). case inl (bridge_ports cfg) p b of (v, b) \<Rightarrow> (v, t, c, b)),
      outl = (\<lambda>p v (t, c, b). (t, c, outl (bridge_ports cfg) p v b))\<rparr>"

abbreviation board_sent :: "board \<Rightarrow> u8 list" where "board_sent d \<equiv> tx (fst d)"
abbreviation board_in :: "board \<Rightarrow> u8 list" where "board_in d \<equiv> rx (fst d)"
abbreviation board_ok :: "u8 list \<Rightarrow> board \<Rightarrow> bool" where "board_ok cs d \<equiv> unlatched (fst d) \<and> rx (fst d) = cs"

definition board_env :: "board env" where
  "board_env = \<lparr>io = board_ports noon_registers one_device, next_irq = (\<lambda>d. Some (no_frame, d)), irq_burst = (\<lambda>_. 0), read_cr2 = (\<lambda>_. 0)\<rparr>"

lemma board_env_io [simp]: "io board_env = board_ports noon_registers one_device"
  by (simp add: board_env_def)

lemma board_uart: "uart (board_ports regs cfg) board_sent (board_ok cs)"
proof -
  have r: "fst (serial_tx_ready (board_ports regs cfg) (polled (serial_tx_ready (board_ports regs cfg)) 0 d))" for d
    by (cases d) (simp add: serial_tx_ready_def board_ports_def tty_ports_def Let_def)
  show ?thesis unfolding uart_def
    by (intro conjI allI impI exI [of _ 0] r) (auto simp: serial_tx_ready_def board_ports_def tty_ports_def Let_def)
qed

lemma board_quiet: "port \<noteq> COM1_PORT \<Longrightarrow> port \<noteq> 0x3FB \<Longrightarrow> quiet_port (board_ports regs cfg) board_sent (board_ok cs) port"
  by (auto simp: quiet_port_def board_ports_def tty_ports_def)

lemma board_clock: "regs 0x0A = 0 \<Longrightarrow> silently (stable_clock (board_ports regs cfg) regs) board_sent (board_ok cs)"
proof -
  assume "regs 0x0A = 0"
  then have "\<not> fst (rtc_updating (board_ports regs cfg) (polled (rtc_updating (board_ports regs cfg)) 0 d))" for d
    by (cases d) (auto simp: rtc_updating_def cmos_read_def board_ports_def chip_ports_def split_beta Let_def)
  moreover have "snd (cmos_read (board_ports regs cfg) r (t, c, b)) = (t, (r, snd c + 1), b)"
      "fst (cmos_read (board_ports regs cfg) r (t, c, b)) = regs r" for r t c b
    by (cases c; simp add: cmos_read_def board_ports_def chip_ports_def)+
  ultimately show ?thesis unfolding silently_def stable_clock_def by (metis fst_conv prod.exhaust_sel)
qed

lemma board_bridge: "silently (config_space (board_ports regs cfg) cfg) board_sent (board_ok cs)"
  by (auto simp: silently_def config_space_def board_ports_def bridge_ports_def)

lemma board_resets: "silently (resets (board_ports regs cfg)) board_sent (board_ok cs)"
proof -
  have "reboot_drain (board_ports regs cfg) d = (True, d)" for d
    by (cases d) (simp add: reboot_drain_def board_ports_def Let_def)
  then have "fst (reboot_drain (board_ports regs cfg) (polled (reboot_drain (board_ports regs cfg)) 0 d))"
      "snd (reboot_drain (board_ports regs cfg) d) = d" for d by simp_all
  then show ?thesis unfolding silently_def resets_def by metis
qed

lemma board_timer: "silently (\<lambda>ok. irq_source board_env ok (\<lambda>_. 0)) board_sent (board_ok cs)"
  by (auto simp: silently_def irq_source_def irq_device_def no_frame_def board_env_def board_ports_def tty_ports_def)

lemma board_burst: "burst_bound board_env okd 0"
  by (simp add: burst_bound_def board_env_def)

definition board_machine :: "board machine" where
  "board_machine = \<lparr>dev = (\<lparr>rx = [], tx = [], latch = False\<rparr>, (0, 0), 0), serial_initialized = 1, con_vga = example_vga,
     kbd = fresh_keyboard, timer_ticks = 0, idt_st = example_idt, interrupts = True\<rparr>"

lemma board_ready: "con_ready (board_ok []) (static_kern board_machine)"
  by (simp add: con_ready_def board_machine_def example_vga_wf)

section \<open>Properties\<close>

text \<open>C13: the command \<open>time\<close>, on a clock that shows a date and time (in any mode of the chip, but for the
  hours 0 and 12 of the 12-hour clock), prints exactly it, each field but the year with two digits,
  and changes nothing but the console.\<close>

theorem shell_time_correct:
  assumes "uart (ports_of K) sent okd" and "silently (stable_clock (ports_of K) regs) sent okd" and "con_ready okd s"
    and "valid_time t" and "clock_shows regs t" and "regs 0x0B AND 0x02 \<noteq> 0 \<or> dt_hour t mod 12 \<noteq> 0"
    and "0 \<in> set cmd" and "cstr cmd = str ''time''"
  shows "\<exists>u. execute_command K cmd args s = Some (Returns False u) \<and> wrote sent okd s (time_script t) u"
  using cmd_time_spec [OF assms(1-6)] execute_time [OF assms(7,8), of K args s] by auto

theorem shell_time_correct_witness:
  "\<exists>u. execute_command (platform_of board_env) (lit ''time'') [] (static_kern board_machine) = Some (Returns False u) \<and>
     board_sent (dev u) = crlf (str ''RTC time: 2024-02-28 11:30:59\<newline>'')"
proof -
  let ?t = "\<lparr>dt_year = 24, dt_month = 2, dt_day = 28, dt_hour = 11, dt_minute = 30, dt_second = 59\<rparr>"
  let ?K = "platform_of board_env"
  have t: "valid_time ?t" "clock_shows noon_registers ?t" "noon_registers 0x0B AND 0x02 \<noteq> 0 \<or> dt_hour ?t mod 12 \<noteq> 0"
    by code_simp+
  have "noon_registers 0x0A = 0" by code_simp
  then have c: "silently (stable_clock (ports_of ?K) noon_registers) board_sent (board_ok [])" using board_clock by simp
  have u: "uart (ports_of ?K) board_sent (board_ok [])" using board_uart by simp
  have "0 \<in> set (lit ''time'')" "cstr (lit ''time'') = str ''time''" by (simp add: lit_def) (rule cstr_lit, simp)
  from shell_time_correct [OF u c board_ready t this]
  obtain u where "execute_command ?K (lit ''time'') [] (static_kern board_machine) = Some (Returns False u)"
      "wrote board_sent (board_ok []) (static_kern board_machine) (time_script ?t) u" by blast
  moreover have "put_bytes (time_script ?t) = str ''RTC time: 2024-02-28 11:30:59\<newline>''"
    by (simp add: time_script_def two_digits_def digit_string_def base_digits.simps str_def)
  ultimately show ?thesis by (auto simp: wrote_def board_machine_def)
qed

text \<open>C14: the command \<open>pci\<close> prints the number of functions and one line for each, in order: exactly the
  functions that are present, each once and by increasing address, up to 64, which are also what the
  device table holds afterwards.\<close>

theorem shell_pci_correct:
  assumes "uart (ports_of K) sent okd" and "silently (config_space (ports_of K) cfg) sent okd" and "con_ready okd s"
    and "length (pci_devices s) = 64" and "dvs = take 64 (all_functions cfg)"
    and "0 \<in> set cmd" and "cstr cmd = str ''pci''"
  shows "\<exists>u. execute_command K cmd args s = Some (Returns False u) \<and> pci_devices u = dvs @ drop (length dvs) (pci_devices s) \<and>
    sorted_wrt (<) dvs \<and>
    wrote sent okd (s\<lparr>pci_devices := dvs @ drop (length dvs) (pci_devices s)\<rparr>) (pci_script dvs) u"
  using cmd_pci_spec [OF assms(1-5)] execute_pci [OF assms(6,7), of K args s] sorted_wrt_take [OF all_functions_sorted] assms(5)
  by auto

theorem shell_pci_correct_witness:
  "\<exists>u. execute_command (platform_of board_env) (lit ''pci'') [] (static_kern board_machine) = Some (Returns False u) \<and>
     board_sent (dev u) = crlf (str ''PCI devices: 1\<newline>bus=0 slot=0 func=0 vendor=0x8086 device=0x1237 class=Host bridge\<newline>'')"
proof -
  let ?dvs = "take 64 (all_functions one_device)"
  have "put_bytes (pci_script ?dvs) = str ''PCI devices: 1\<newline>bus=0 slot=0 func=0 vendor=0x8086 device=0x1237 class=Host bridge\<newline>''"
    by (simp add: one_device_all pci_script_def device_script_def hex_def hex_text_def digit_string_def base_digits.simps
        pci_class_name_def str_def)
  moreover have "0 \<in> set (lit ''pci'')" "cstr (lit ''pci'') = str ''pci''" by (simp add: lit_def) (rule cstr_lit, simp)
  moreover have "length (pci_devices (static_kern board_machine)) = 64" by (simp add: static_kern_def machine.defs)
  moreover have "board_sent (dev (static_kern board_machine)) = []" by (simp add: board_machine_def)
  ultimately show ?thesis
    using shell_pci_correct [of "platform_of board_env" board_sent "board_ok []" one_device "static_kern board_machine" ?dvs "lit ''pci''" "[]"]
      board_uart board_bridge board_ready by (auto simp: wrote_def)
qed

text \<open>C12: the command \<open>allocdemo\<close>, on a heap at rest (as every visitor leaves it, the shell at its prompt among
  them) and with a size that can be rounded up and given a header without passing the end of the address
  space, returns and prints the answer that follows from the regions of the heap: the pointer of the
  first region large enough, else of a new one, else that the allocation failed.  Afterwards the heap is
  at rest again, nothing is in use, and only the console, the heap and the frame bitmap have changed.\<close>

theorem shell_allocdemo_correct:
  assumes "uart (ports_of K) sent okd" and "con_ready okd s" and "\<forall>a \<in> set args. 0 \<in> set a"
    and "asked_number (map cstr args) 64 = Some sz" and "pmm_ok (pmm_st s)" and "heap_rest (heap_st s) bs (used_frames (pmm_st s))"
    and "sane_request sz" and "0 \<in> set cmd" and "cstr cmd = str ''allocdemo''"
  shows "\<exists>r bs' q u. serve pmm_alloc_frames sz bs (pmm_st s) = Some (r, bs', q) \<and>
    execute_command K cmd args s = Some (Returns False u) \<and> pmm_st u = q \<and> pmm_ok q \<and>
    heap_rest (heap_st u) bs' (used_frames q) \<and> heap_used_bytes (heap_st u) = 0 \<and>
    wrote sent okd (s\<lparr>pmm_st := q, heap_st := heap_st u\<rparr>) (allocdemo_script sz r) u"
proof -
  obtain r bs' q h u where u: "serve pmm_alloc_frames sz bs (pmm_st s) = Some (r, bs', q)" "cmd_allocdemo K args s = Some u"
      "pmm_ok q" "heap_rest h bs' (used_frames q)" "wrote sent okd (s\<lparr>pmm_st := q, heap_st := h\<rparr>) (allocdemo_script sz r) u"
    using cmd_allocdemo_rest [OF assms(1-7)] by blast
  have "heap_st u = h" "pmm_st u = q" using u(5) by (auto simp: wrote_def same_kernel_def)
  then show ?thesis using u heap_rest_used(1) [OF u(4)] execute_allocdemo [OF assms(8,9), of K args s]
    by (intro exI [of _ r] exI [of _ bs'] exI [of _ q] exI [of _ u]) simp
qed

theorem shell_allocdemo_correct_witness:
  "\<exists>u. execute_command (platform_of board_env) (lit ''allocdemo'') [str ''100'' @ [0]]
       ((static_kern board_machine)\<lparr>pmm_st := open_pmm\<rparr>) = Some (Returns False u) \<and>
     board_sent (dev u) = crlf (str ''Allocated 100 bytes at 0x1018\<newline>Freed allocation\<newline>'')"
proof -
  let ?s = "(static_kern board_machine)\<lparr>pmm_st := open_pmm\<rparr>"
  have c: "0 \<in> set (lit ''allocdemo'')" "cstr (lit ''allocdemo'') = str ''allocdemo''" by (simp add: lit_def) (rule cstr_lit, simp)
  have a: "asked_number (map cstr [str ''100'' @ [0]]) 64 = Some 100" by code_simp
  have z: "\<forall>a \<in> set [str ''100'' @ [0]]. 0 \<in> set a" by simp
  have s: "sane_request 100" by (simp add: sane_request_def)
  have r: "con_ready (board_ok []) ?s" using board_ready by (simp add: con_ready_def)
  have k: "map_option fst (serve pmm_alloc_frames 100 [] open_pmm) = Some 4120" by code_simp
  have st: "heap_st ?s = empty_heap" "pmm_st ?s = open_pmm" "board_sent (dev ?s) = []" by (simp_all add: board_machine_def)
  have x: "put_bytes (allocdemo_script 100 4120) = str ''Allocated 100 bytes at 0x1018\<newline>Freed allocation\<newline>''"
    by (simp add: allocdemo_script_def hex_def hex_text_def digit_string_def base_digits.simps str_def)
  have u: "uart (ports_of (platform_of board_env)) board_sent (board_ok [])" using board_uart by simp
  have h: "pmm_ok (pmm_st ?s)" "heap_rest (heap_st ?s) [] (used_frames (pmm_st ?s))"
    unfolding st using open_pmm_ok heap_rest_init [of empty_heap] by (simp_all add: empty_heap_init)
  obtain r' bs' q u where "serve pmm_alloc_frames 100 [] open_pmm = Some (r', bs', q)"
      and e: "execute_command (platform_of board_env) (lit ''allocdemo'') [str ''100'' @ [0]] ?s = Some (Returns False u)"
      and w: "wrote board_sent (board_ok []) (?s\<lparr>pmm_st := q, heap_st := heap_st u\<rparr>) (allocdemo_script 100 r') u"
    using shell_allocdemo_correct [OF u r z a h s c] unfolding st by blast
  then have "r' = 4120" using k by simp
  then have "board_sent (dev u) = crlf (str ''Allocated 100 bytes at 0x1018\<newline>Freed allocation\<newline>'')"
    using w x st(3) by (simp add: wrote_def)
  then show ?thesis using e by blast
qed

text \<open>C15: the command \<open>sleep\<close>, while interrupts keep coming and the timer among them, prints its message,
  waits and says that it is awake: not before the given number of milliseconds has been counted, and
  with at most \<open>B\<close> interrupts between two of its checks of the clock and the halt at most \<open>2 * B\<close> ticks
  late, so exactly on time when none comes there.  Events typed in the meantime are in the keyboard ring.\<close>

theorem shell_sleep_correct:
  assumes "uart (ports_of K) sent okd" and "silently (\<lambda>ok. irq_source (env K) ok before_tick) sent okd"
    and "burst_bound (env K) okd B"
    and "con_ready okd s" and "keyboard_wf (kbd s)" and "interrupts s" and "\<forall>a \<in> set args. 0 \<in> set a"
    and "asked_number (map cstr args) 100 = Some n" and "unat (timer_ticks s) + unat n + 2 * B < 2 ^ 64"
    and "0 \<in> set cmd" and "cstr cmd = str ''sleep''"
  shows "\<exists>late k t. late \<le> 2 * B \<and> execute_command K cmd args s = Some (Returns False t) \<and> keyboard_wf k \<and>
    wrote sent okd (s\<lparr>kbd := k, timer_ticks := timer_ticks s + n + of_nat late\<rparr>) (sleep_script n) t"
  using cmd_sleep_late [OF assms(1-9)] execute_sleep [OF assms(10,11), of K args s] by fastforce

theorem shell_sleep_correct_witness:
  "\<exists>t late. execute_command (platform_of (log_env\<lparr>irq_burst := \<lambda>_. 1\<rparr>)) (lit ''sleep'') [] (static_kern example_machine) =
       Some (Returns False t) \<and>
     late \<le> 2 \<and> timer_ticks t = 100 + of_nat late \<and> log_sent (dev t) = crlf (str ''Sleeping for 100 ms...\<newline>Awake\<newline>'')"
proof -
  let ?s = "static_kern example_machine" and ?E = "log_env\<lparr>irq_burst := \<lambda>_. 1\<rparr>"
  have c: "0 \<in> set (lit ''sleep'')" "cstr (lit ''sleep'') = str ''sleep''" by (simp add: lit_def) (rule cstr_lit, simp)
  have u: "uart (ports_of (platform_of ?E)) log_sent idle_device" using log_uart by simp
  have i: "silently (\<lambda>ok. irq_source (env (platform_of ?E)) ok (\<lambda>_. 0)) log_sent idle_device"
    by (simp add: silently_def irq_source_def irq_device_def no_frame_def log_ports_def log_sent_def)
  have b: "burst_bound (env (platform_of ?E)) idle_device 1" by (simp add: burst_bound_def)
  have s: "con_ready idle_device ?s" "keyboard_wf (kbd ?s)" "interrupts ?s" "timer_ticks ?s = 0" "log_sent (dev ?s) = []"
    using example_machine_ready by (simp_all add: con_ready_def fresh_keyboard_simps log_sent_def log_device0_def)
  have "put_bytes (sleep_script 100) = str ''Sleeping for 100 ms...\<newline>Awake\<newline>''"
    by (simp add: sleep_script_def digit_string_def base_digits.simps str_def)
  moreover have "asked_number (map cstr []) 100 = Some 100" by (simp add: asked_number_def)
  ultimately show ?thesis
    using shell_sleep_correct [OF u i b s(1-3) _ _ _ c, of "[]" 100] s(4,5) by (fastforce simp: wrote_def same_kernel_def)
qed

text \<open>C16: \<open>panic\<close>, \<open>reboot\<close> and \<open>halt\<close> never return to the shell: each prints its message and stops the
  processor with interrupts disabled, \<open>panic\<close> after the exit code and \<open>reboot\<close> after the reset command
  to the keyboard controller.\<close>

theorem shell_stops_correct:
  assumes "uart (ports_of K) sent okd" and "quiet_port (ports_of K) sent okd 0xF4" and "quiet_port (ports_of K) sent okd 0x64"
    and "silently (resets (ports_of K)) sent okd" and "con_ready okd s"
    and "0 \<in> set cmd" and "cstr cmd \<in> {str ''panic'', str ''reboot'', str ''halt''}"
  shows "\<exists>t. execute_command K cmd args s = Some (Halts t) \<and> \<not> interrupts t \<and>
    sent (dev t) = sent (dev s) @ crlf (last_words (cstr cmd)) \<and>
    (cstr cmd = str ''panic'' \<longrightarrow> (\<exists>d. dev t = outb (ports_of K) 0xF4 0x21 d)) \<and>
    (cstr cmd = str ''reboot'' \<longrightarrow> (\<exists>d. dev t = outb (ports_of K) 0x64 0xFE d))"
  by (rule execute_stops_spec [OF assms(1,2,5,6)]) (use assms(3,4,7) in auto)

theorem shell_stops_correct_witness:
  "\<exists>t. execute_command (platform_of board_env) (lit ''reboot'') [] (static_kern board_machine) = Some (Halts t) \<and>
     board_sent (dev t) = crlf (str ''Rebooting system...\<newline>'')"
proof -
  have c: "0 \<in> set (lit ''reboot'')" "cstr (lit ''reboot'') = str ''reboot''" by (simp add: lit_def) (rule cstr_lit, simp)
  have "last_words (str ''reboot'') = str ''Rebooting system...\<newline>''" by (simp add: last_words_def str_def)
  moreover have "board_sent (dev (static_kern board_machine)) = []" by (simp add: board_machine_def)
  moreover have "uart (ports_of (platform_of board_env)) board_sent (board_ok [])"
      "quiet_port (ports_of (platform_of board_env)) board_sent (board_ok []) 0xF4"
      "quiet_port (ports_of (platform_of board_env)) board_sent (board_ok []) 0x64"
      "silently (resets (ports_of (platform_of board_env))) board_sent (board_ok [])"
    using board_uart board_quiet [of "0xF4"] board_quiet [of "0x64"] board_resets by simp_all
  from shell_stops_correct [OF this board_ready c(1), of "[]"]
  have "\<exists>t. execute_command (platform_of board_env) (lit ''reboot'') [] (static_kern board_machine) = Some (Halts t) \<and>
      board_sent (dev t) = board_sent (dev (static_kern board_machine)) @ crlf (last_words (str ''reboot''))"
    using c(2) by auto
  ultimately show ?thesis by simp
qed

end
