(* ===== verification/Answers.thy ===== *)
theory Answers
  imports Effects
begin

text \<open>
  What the shell answers to a command that returns, and what the command leaves behind: the scripts of
  \<open>Replies\<close>, and the commands of \<open>Effects\<close> that read a device or allocate.  The state of the kernel is
  seen through a \<open>view\<close>: the heap as the list of its regions, everything else as it is.
\<close>

section \<open>The chips a session may read\<close>

text \<open>A clock that shows a time, a PCI configuration space, a keyboard controller that resets the
  machine, and a timer that keeps interrupting, each of them optional.  The time of a session is predicted
  for interrupts that come while the processor waits for them (\<open>burst_bound\<close> with the bound 0); how late a
  sleep may be otherwise is \<open>cmd_sleep_late\<close>.\<close>

record chips =
  clock :: "((u8 \<Rightarrow> u8) \<times> date_time) option"
  config :: "(u32 \<Rightarrow> u32) option"
  controller :: bool
  timer :: bool

definition chips_ok :: "'d env \<Rightarrow> chips \<Rightarrow> ('d \<Rightarrow> u8 list) \<Rightarrow> ('d \<Rightarrow> bool) \<Rightarrow> bool" where
  "chips_ok E C sent okd \<longleftrightarrow>
     (\<forall>regs t. clock C = Some (regs, t) \<longrightarrow> silently (stable_clock (io E) regs) sent okd \<and> valid_time t \<and> clock_shows regs t \<and>
        (regs 0x0B AND 0x02 \<noteq> 0 \<or> dt_hour t mod 12 \<noteq> 0)) \<and>
     (\<forall>cfg. config C = Some cfg \<longrightarrow> silently (config_space (io E) cfg) sent okd) \<and>
     (controller C \<longrightarrow> quiet_port (io E) sent okd 0x64 \<and> silently (resets (io E)) sent okd) \<and>
     (timer C \<longrightarrow> (\<exists>before_tick. silently (\<lambda>ok. irq_source E ok before_tick) sent okd) \<and> burst_bound E okd 0)"

section \<open>The state, seen through the regions of the heap\<close>

type_synonym 'd view = "'d kern \<times> blk list"

text \<open>The state the figures of the commands are computed from.\<close>

definition shown :: "'d view \<Rightarrow> 'd kern" where
  "shown w = (case w of (s, bs) \<Rightarrow>
     s\<lparr>heap_st := (heap_st s)\<lparr>total_bytes := sum_list (map bsize bs), used_bytes := 0\<rparr>\<rparr>)"

definition tracks :: "'d view \<Rightarrow> 'd kern \<Rightarrow> bool" where
  "tracks w t \<longleftrightarrow> (case w of (s, bs) \<Rightarrow>
     same_kernel (s\<lparr>heap_st := heap_st t, kbd := kbd t\<rparr>) t \<and> heap_rest (heap_st t) bs (used_frames (pmm_st s)) \<and>
     pmm_ok (pmm_st s) \<and> length (pci_devices s) = 64 \<and> keyboard_wf (kbd t) \<and> interrupts s)"

section \<open>Answers\<close>

text \<open>The script a command runs and the state it leaves; \<open>None\<close> for one that does not return, for a number
  that wraps, and for a chip the machine does not have.\<close>

definition answer :: "'d platform \<Rightarrow> chips \<Rightarrow> 'd view \<Rightarrow> u8 list \<Rightarrow> u8 list list \<Rightarrow> (action list \<times> 'd view) option" where
  "answer K C v w as = (case v of (s, bs) \<Rightarrow>
     (case reply K (shown v) w as of
        Some xs \<Rightarrow> Some (xs, v)
      | None \<Rightarrow>
          if w = str ''time'' then map_option (\<lambda>(regs, t). (time_script t, v)) (clock C)
          else if w = str ''pci'' then map_option (\<lambda>cfg.
            (let dvs = take 64 (all_functions cfg) in
             (pci_script dvs, (s\<lparr>pci_devices := dvs @ drop (length dvs) (pci_devices s)\<rparr>, bs)))) (config C)
          else if w = str ''allocdemo'' then
            do { sz \<leftarrow> asked_number as 64;
                 if sane_request sz
                 then map_option (\<lambda>(r, bs', q). (allocdemo_script sz r, (s\<lparr>pmm_st := q\<rparr>, bs')))
                   (serve pmm_alloc_frames sz bs (pmm_st s))
                 else None }
          else if w = str ''sleep'' then
            do { n \<leftarrow> asked_number as 100;
                 if timer C \<and> unat (timer_ticks s) + unat n < 2 ^ 64
                 then Some (sleep_script n, (s\<lparr>timer_ticks := timer_ticks s + n\<rparr>, bs))
                 else None }
          else None))"

lemma same_kernel_fields:
  "same_kernel s t \<Longrightarrow> timer_ticks t = timer_ticks s \<and> boot_st t = boot_st s \<and> pmm_st t = pmm_st s \<and> heap_st t = heap_st s \<and>
     pci_devices t = pci_devices s \<and> kbd t = kbd s \<and> interrupts t = interrupts s"
  by (auto simp: same_kernel_def)

lemma same_kernel_update:
  assumes "same_kernel s t"
  shows "same_kernel (s\<lparr>pci_devices := x\<rparr>) (t\<lparr>pci_devices := x\<rparr>)" and "same_kernel (s\<lparr>pmm_st := q\<rparr>) (t\<lparr>pmm_st := q\<rparr>)"
    and "same_kernel (s\<lparr>heap_st := h\<rparr>) (t\<lparr>heap_st := h\<rparr>)" and "same_kernel (s\<lparr>kbd := k\<rparr>) (t\<lparr>kbd := k\<rparr>)"
    and "same_kernel (s\<lparr>timer_ticks := n\<rparr>) (t\<lparr>timer_ticks := n\<rparr>)"
proof -
  obtain d v b hs where "t = s\<lparr>con_vga := v, dev := d, cmd_buffer := b, hist := hs\<rparr>" using assms by (auto simp: same_kernel_def)
  then show "same_kernel (s\<lparr>pci_devices := x\<rparr>) (t\<lparr>pci_devices := x\<rparr>)" and "same_kernel (s\<lparr>pmm_st := q\<rparr>) (t\<lparr>pmm_st := q\<rparr>)"
    and "same_kernel (s\<lparr>heap_st := h\<rparr>) (t\<lparr>heap_st := h\<rparr>)" and "same_kernel (s\<lparr>kbd := k\<rparr>) (t\<lparr>kbd := k\<rparr>)"
    and "same_kernel (s\<lparr>timer_ticks := n\<rparr>) (t\<lparr>timer_ticks := n\<rparr>)"
    unfolding same_kernel_def by (intro exI [of _ d] exI [of _ v] exI [of _ b] exI [of _ hs]; simp)+
qed

lemma reply_shown:
  fixes K :: "'d platform"
  assumes "tracks (s, bs) t"
  shows "reply K t w as = reply K (shown (s, bs)) w as"
proof -
  have r: "heap_rest (heap_st t) bs (used_frames (pmm_st s))" using assms by (simp add: tracks_def)
  then have h: "heap_total_bytes (heap_st t) = sum_list (map bsize bs)" "heap_used_bytes (heap_st t) = 0"
      "heap_free_bytes (heap_st t) = sum_list (map bsize bs)"
    using heap_rest_used [OF r] by (simp_all add: heap_rest_def heap_total_bytes_def)
  have s: "timer_ticks t = timer_ticks s" "boot_st t = boot_st s" "pmm_st t = pmm_st s"
    using assms same_kernel_fields [of "s\<lparr>heap_st := heap_st t, kbd := kbd t\<rparr>" t] by (simp_all add: tracks_def)
  have "list_all2 (\<lambda>(n, f) (m, g). n = m \<and> f K t as = g K (shown (s, bs)) as) (scripts :: (string \<times> 'd script) list) scripts"
    using h s by (simp add: scripts_def shown_def)
      (simp add: heap_total_bytes_def heap_used_bytes_def heap_free_bytes_def)
  from map_of_related [OF this, of str w]
  have "rel_option (\<lambda>f g. f K t as = g K (shown (s, bs)) as) (map_of (map (apfst str) scripts) w) (map_of (map (apfst str) scripts) w)" .
  then show ?thesis unfolding reply_def
    by (cases "map_of (map (apfst str) (scripts :: (string \<times> 'd script) list)) w") auto
qed

text \<open>The console wrote a script; whatever else the command changed is in the view.\<close>

definition said :: "('d \<Rightarrow> u8 list) \<Rightarrow> ('d \<Rightarrow> bool) \<Rightarrow> 'd kern \<Rightarrow> action list \<Rightarrow> 'd kern \<Rightarrow> bool" where
  "said sent okd s xs s' \<longleftrightarrow>
     con_ready okd s' \<and> sent (dev s') = sent (dev s) @ crlf (put_bytes xs) \<and>
     term_of (con_vga s') = fold act xs (term_of (con_vga s))"

lemma wrote_said: "wrote sent okd s xs t \<longleftrightarrow> same_kernel s t \<and> said sent okd s xs t"
  by (auto simp: wrote_def said_def)

lemma said_then: "said sent A s xs t \<Longrightarrow> said sent B t ys u \<Longrightarrow> said sent B s (xs @ ys) u"
  by (simp add: said_def)

lemma tracks_same:
  assumes "tracks v t" and "same_kernel t u"
  shows "tracks v u"
  using assms same_kernel_trans [OF _ assms(2)] same_kernel_fields [OF assms(2)] by (auto simp: tracks_def)

lemma tracks_fields:
  "tracks (s, bs) t \<Longrightarrow> pmm_st t = pmm_st s \<and> boot_st t = boot_st s \<and> pci_devices t = pci_devices s \<and>
     timer_ticks t = timer_ticks s \<and> interrupts t = interrupts s"
  using same_kernel_fields [of "s\<lparr>heap_st := heap_st t, kbd := kbd t\<rparr>" t] by (simp add: tracks_def)

lemma tracks_boot: "tracks v t \<Longrightarrow> boot_st t = boot_st (fst v)"
  using tracks_fields [of "fst v" "snd v" t] by simp

text \<open>What a command changes beside the console is carried over to the view.\<close>

lemma tracks_pci:
  assumes "tracks (s, bs) t" and "same_kernel (t\<lparr>pci_devices := x\<rparr>) u" and "length x = 64"
  shows "tracks (s\<lparr>pci_devices := x\<rparr>, bs) u"
proof -
  have f: "heap_st u = heap_st t" "kbd u = kbd t" using same_kernel_fields [OF assms(2)] by simp_all
  have "same_kernel (s\<lparr>heap_st := heap_st t, kbd := kbd t\<rparr>) t" using assms(1) by (simp add: tracks_def)
  from same_kernel_trans [OF same_kernel_update(1) [OF this] assms(2)]
  have k: "same_kernel (s\<lparr>heap_st := heap_st t, kbd := kbd t, pci_devices := x\<rparr>) u" .
  have "s\<lparr>heap_st := heap_st t, kbd := kbd t, pci_devices := x\<rparr> = s\<lparr>pci_devices := x, heap_st := heap_st t, kbd := kbd t\<rparr>" by simp
  from k [unfolded this] show ?thesis using assms(1,3) f by (simp add: tracks_def)
qed

lemma tracks_heap:
  assumes "tracks (s, bs) t" and "same_kernel (t\<lparr>pmm_st := q, heap_st := h\<rparr>) u" and "pmm_ok q"
    and "heap_rest h bs' (used_frames q)"
  shows "tracks (s\<lparr>pmm_st := q\<rparr>, bs') u"
proof -
  have f: "heap_st u = h" "kbd u = kbd t" using same_kernel_fields [OF assms(2)] by simp_all
  have "same_kernel (s\<lparr>heap_st := heap_st t, kbd := kbd t\<rparr>) t" using assms(1) by (simp add: tracks_def)
  from same_kernel_trans [OF same_kernel_update(3) [OF same_kernel_update(2) [OF this]] assms(2)]
  have k: "same_kernel (s\<lparr>heap_st := heap_st t, kbd := kbd t, pmm_st := q, heap_st := h\<rparr>) u" .
  have "s\<lparr>heap_st := heap_st t, kbd := kbd t, pmm_st := q, heap_st := h\<rparr> = s\<lparr>pmm_st := q, heap_st := h, kbd := kbd t\<rparr>" by simp
  from k [unfolded this] show ?thesis using assms(1,3,4) f by (simp add: tracks_def)
qed

lemma tracks_sleep:
  assumes "tracks (s, bs) t" and "same_kernel (t\<lparr>kbd := k, timer_ticks := n\<rparr>) u" and "keyboard_wf k"
  shows "tracks (s\<lparr>timer_ticks := n\<rparr>, bs) u"
proof -
  have f: "heap_st u = heap_st t" "kbd u = k" using same_kernel_fields [OF assms(2)] by simp_all
  have "same_kernel (s\<lparr>heap_st := heap_st t, kbd := kbd t\<rparr>) t" using assms(1) by (simp add: tracks_def)
  from same_kernel_trans [OF same_kernel_update(5) [OF same_kernel_update(4) [OF this]] assms(2)]
  have k: "same_kernel (s\<lparr>heap_st := heap_st t, kbd := kbd t, kbd := k, timer_ticks := n\<rparr>) u" .
  have "s\<lparr>heap_st := heap_st t, kbd := kbd t, kbd := k, timer_ticks := n\<rparr> = s\<lparr>timer_ticks := n, heap_st := heap_st t, kbd := k\<rparr>" by simp
  from k [unfolded this] show ?thesis using assms(1,3) f by (simp add: tracks_def)
qed

lemma answer_boot:
  assumes "answer K C v w as = Some (xs, v')"
  shows "boot_st (fst v') = boot_st (fst v)"
  using assms by (cases v) (auto simp: answer_def Let_def Option.bind_eq_Some_conv split: option.splits if_splits)

text \<open>Every answer is what the code does.\<close>

lemma execute_answers:
  fixes K :: "'d platform"
  assumes "uart (ports_of K) sent okd" and "chips_ok (env K) C sent okd" and "con_ready okd t" and "map_present K (boot_st t)"
    and "tracks v t" and "0 \<in> set cmd" and "\<forall>a \<in> set args. 0 \<in> set a"
    and "answer K C v (cstr cmd) (map cstr args) = Some (xs, v')"
  shows "\<exists>u. execute_command K cmd args t = Some (Returns False u) \<and> said sent okd t xs u \<and> tracks v' u \<and>
    cmd_buffer u = cmd_buffer t \<and> hist u = hist t"
proof -
  obtain s bs where v: "v = (s, bs)" by (cases v)
  note tr = assms(5) [unfolded v]
  have f: "pmm_st t = pmm_st s" "pci_devices t = pci_devices s" using tracks_fields [OF tr] by simp_all
  show ?thesis
  proof (cases "reply K (shown v) (cstr cmd) (map cstr args)")
    case (Some ys)
    then have ys: "ys = xs" "v' = v" using assms(8) v by (simp_all add: answer_def)
    have "reply K t (cstr cmd) (map cstr args) = Some xs" using Some ys(1) reply_shown [OF tr] v by simp
    then obtain d w where u: "execute_command K cmd args t = Some (Returns False (t\<lparr>con_vga := w, dev := d\<rparr>))"
        "con_ready okd (t\<lparr>con_vga := w, dev := d\<rparr>)" "sent d = sent (dev t) @ crlf (put_bytes xs)"
        "term_of w = fold act xs (term_of (con_vga t))"
      using execute_prints [OF assms(1,3,4,6,7)] by blast
    then show ?thesis using tracks_same [OF assms(5) same_kernel_con] ys(2)
      by (intro exI [of _ "t\<lparr>con_vga := w, dev := d\<rparr>"]) (simp add: said_def)
  next
    case None
    consider (time) regs dt where "cstr cmd = str ''time''" "clock C = Some (regs, dt)" "xs = time_script dt" "v' = v"
      | (pci) cfg dvs where "cstr cmd = str ''pci''" "config C = Some cfg" "dvs = take 64 (all_functions cfg)" "xs = pci_script dvs"
          "v' = (s\<lparr>pci_devices := dvs @ drop (length dvs) (pci_devices s)\<rparr>, bs)"
      | (alloc) sz r bs' q where "cstr cmd = str ''allocdemo''" "asked_number (map cstr args) 64 = Some sz" "sane_request sz"
          "serve pmm_alloc_frames sz bs (pmm_st s) = Some (r, bs', q)" "xs = allocdemo_script sz r" "v' = (s\<lparr>pmm_st := q\<rparr>, bs')"
      | (sleep) n where "cstr cmd = str ''sleep''" "asked_number (map cstr args) 100 = Some n" "timer C"
          "unat (timer_ticks s) + unat n < 2 ^ 64" "xs = sleep_script n" "v' = (s\<lparr>timer_ticks := timer_ticks s + n\<rparr>, bs)"
      using assms(8) None v by (auto simp: answer_def Let_def Option.bind_eq_Some_conv split: if_splits)
    then show ?thesis
    proof cases
      case time
      then have c: "silently (stable_clock (ports_of K) regs) sent okd" "valid_time dt" "clock_shows regs dt"
          "regs 0x0B AND 0x02 \<noteq> 0 \<or> dt_hour dt mod 12 \<noteq> 0"
        using assms(2) by (auto simp: chips_ok_def)
      obtain u where "cmd_time K t = Some u" "cmd_buffer u = cmd_buffer t" "hist u = hist t" "wrote sent okd t (time_script dt) u"
        using cmd_time_spec [OF assms(1) c(1) assms(3) c(2-4)] by blast
      then show ?thesis using execute_time [OF assms(6) time(1), of K args t] tracks_same [OF assms(5)] time(3,4)
        by (intro exI [of _ u]) (simp add: wrote_said)
    next
      case pci
      have n: "length (pci_devices t) = 64" using tr f(2) by (simp add: tracks_def)
      have c: "silently (config_space (ports_of K) cfg) sent okd" using assms(2) pci(2) by (simp add: chips_ok_def)
      obtain u where "cmd_pci K t = Some u" "cmd_buffer u = cmd_buffer t" "hist u = hist t"
          "wrote sent okd (t\<lparr>pci_devices := dvs @ drop (length dvs) (pci_devices t)\<rparr>) (pci_script dvs) u"
        using cmd_pci_spec [OF assms(1) c assms(3) n pci(3)] by blast
      moreover then have "tracks v' u" unfolding pci(5) using f(2) n pci(3)
        by (intro tracks_pci [OF tr]) (simp_all add: wrote_said)
      ultimately show ?thesis using execute_pci [OF assms(6) pci(1), of K args t] pci(4)
        by (intro exI [of _ u]) (simp add: wrote_said said_def)
    next
      case alloc
      have r: "pmm_ok (pmm_st t)" "heap_rest (heap_st t) bs (used_frames (pmm_st t))" using tr f(1) by (simp_all add: tracks_def)
      obtain h u where "cmd_allocdemo K args t = Some u" "pmm_ok q" "heap_rest h bs' (used_frames q)"
          "cmd_buffer u = cmd_buffer t" "hist u = hist t" "wrote sent okd (t\<lparr>pmm_st := q, heap_st := h\<rparr>) xs u"
        using cmd_allocdemo_rest [OF assms(1,3,7) alloc(2) r alloc(3)] alloc(4,5) f(1) by auto
      moreover then have "tracks v' u" unfolding alloc(6) by (intro tracks_heap [OF tr]) (simp_all add: wrote_said)
      ultimately show ?thesis using execute_allocdemo [OF assms(6) alloc(1), of K args t]
        by (intro exI [of _ u]) (simp add: wrote_said said_def)
    next
      case sleep
      obtain before_tick where irq: "silently (\<lambda>ok. irq_source (env K) ok before_tick) sent okd" "burst_bound (env K) okd 0"
        using assms(2) sleep(3) by (auto simp: chips_ok_def)
      have st: "keyboard_wf (kbd t)" "interrupts t" "unat (timer_ticks t) + unat n < 2 ^ 64"
        using tr tracks_fields [OF tr] sleep(4) by (simp_all add: tracks_def)
      obtain k u where "cmd_sleep K args t = Some (Returns () u)" "keyboard_wf k" "cmd_buffer u = cmd_buffer t" "hist u = hist t"
          "wrote sent okd (t\<lparr>kbd := k, timer_ticks := timer_ticks t + n\<rparr>) (sleep_script n) u"
        using cmd_sleep_spec [OF assms(1) irq assms(3) st(1,2) assms(7) sleep(2) st(3)] by blast
      moreover then have "tracks v' u" unfolding sleep(6) using tracks_fields [OF tr]
        by (intro tracks_sleep [OF tr]) (simp_all add: wrote_said)
      ultimately show ?thesis using execute_sleep [OF assms(6) sleep(1), of K args t] sleep(5)
        by (intro exI [of _ u]) (simp add: wrote_said said_def)
    qed
  qed
qed

text \<open>The commands after which the processor is stopped.\<close>

definition stops :: "chips \<Rightarrow> u8 list \<Rightarrow> bool" where
  "stops C w \<longleftrightarrow> w = str ''panic'' \<or> w = str ''halt'' \<or> w = str ''reboot'' \<and> controller C"

lemma execute_stop:
  assumes "uart (ports_of K) sent okd" and "chips_ok (env K) C sent okd" and "quiet_port (ports_of K) sent okd 0xF4"
    and "con_ready okd s" and "0 \<in> set cmd" and "stops C (cstr cmd)"
  shows "\<exists>t. execute_command K cmd args s = Some (Halts t) \<and> \<not> interrupts t \<and>
    sent (dev t) = sent (dev s) @ crlf (last_words (cstr cmd))"
  using execute_stops_spec [OF assms(1,3-5)] assms(2,6) unfolding stops_def chips_ok_def by blast

end
