(* ===== verification/Session.thy ===== *)
theory Session
  imports Answers
begin

text \<open>
  Whole sessions of the shell over the serial line: what \<open>shell_run\<close> does with the bytes that arrive,
  from the greeting to \<open>exit\<close> or a command that stops the processor.
\<close>

section \<open>A serial line\<close>

text \<open>Sending and receiving do not disturb each other.\<close>

definition serial_line :: "'d ports \<Rightarrow> ('d \<Rightarrow> u8 list) \<Rightarrow> ('d \<Rightarrow> u8 list) \<Rightarrow> ('d \<Rightarrow> bool) \<Rightarrow> bool" where
  "serial_line P sent incoming okd \<longleftrightarrow>
     (\<forall>cs. uart P sent (\<lambda>d. okd d \<and> incoming d = cs)) \<and> (\<forall>bs. receiver P incoming (\<lambda>d. okd d \<and> sent d = bs))"

abbreviation waiting :: "('d \<Rightarrow> u8 list) \<Rightarrow> ('d \<Rightarrow> bool) \<Rightarrow> u8 list \<Rightarrow> 'd \<Rightarrow> bool" where
  "waiting incoming okd cs \<equiv> \<lambda>d. okd d \<and> incoming d = cs"

lemma serial_line_uart: "serial_line P sent incoming okd \<Longrightarrow> uart P sent (waiting incoming okd cs)"
  by (simp add: serial_line_def)

text \<open>Scripts that run one after the other, while the waiting input changes.\<close>

lemma wrote_then: "wrote sent A s xs t \<Longrightarrow> wrote sent B t ys u \<Longrightarrow> wrote sent B s (xs @ ys) u"
  unfolding wrote_def by (auto intro: same_kernel_trans)

text \<open>The next event is taken from the line.\<close>

lemma take_event:
  assumes "serial_line (io E) sent incoming okd" and "con_ready (waiting incoming okd cs) s" and "serial_event cs = Some (e, rest)"
  shows "\<exists>t. input_getevent E s = Some (Returns e t) \<and> wrote sent (waiting incoming okd rest) s [] t \<and>
    cmd_buffer t = cmd_buffer s \<and> hist t = hist s"
proof -
  let ?ok = "\<lambda>d. okd d \<and> sent d = sent (dev s)"
  have "receiver (io E) incoming ?ok" using assms(1) by (simp add: serial_line_def)
  moreover have "receiving incoming ?ok s cs" using assms(2) by (simp add: receiving_def con_ready_def)
  ultimately obtain d where "input_getevent E s = Some (Returns e (s\<lparr>dev := d\<rparr>))" "receiving incoming ?ok (s\<lparr>dev := d\<rparr>) rest"
    using input_serial_spec [OF _ _ assms(3)] by blast
  then show ?thesis using assms(2)
    by (intro exI [of _ "s\<lparr>dev := d\<rparr>"]) (simp add: wrote_def receiving_def con_ready_def)
qed

section \<open>Reading a line\<close>

lemma serial_event_less: "serial_event cs = Some (e, rest) \<Longrightarrow> length rest < length cs"
  by (auto simp: serial_event_def split: list.splits if_splits)

text \<open>The line, the script and what is left, when the bytes hold a complete line.\<close>

function type_line :: "u8 list list \<Rightarrow> line_state \<Rightarrow> u8 list \<Rightarrow> (line_state \<times> action list \<times> u8 list) option" where
  "type_line hs l cs =
     (case serial_event cs of
        None \<Rightarrow> None
      | Some (e, rest) \<Rightarrow>
          (case edit hs e l of (complete, l', xs) \<Rightarrow>
             if complete then Some (l', xs, rest)
             else (case type_line hs l' rest of None \<Rightarrow> None | Some (l2, ys, r) \<Rightarrow> Some (l2, xs @ ys, r))))"
  by pat_completeness auto
termination
  by (relation "measure (\<lambda>(hs, l, cs). length cs)") (auto dest: serial_event_less)

declare type_line.simps [simp del]

lemma type_line_less: "type_line hs l cs = Some (l', xs, rest) \<Longrightarrow> length rest < length cs"
proof (induction hs l cs arbitrary: l' xs rest rule: type_line.induct)
  case (1 hs l cs)
  obtain e r b l1 ys where e: "serial_event cs = Some (e, r)" "edit hs e l = (b, l1, ys)"
    using "1.prems" by (subst (asm) type_line.simps) (auto split: option.splits prod.splits)
  show ?case
  proof (cases b)
    case True
    then have "rest = r" using "1.prems" e by (subst (asm) type_line.simps) simp
    then show ?thesis using serial_event_less [OF e(1)] by simp
  next
    case False
    then obtain l2 zs where "type_line hs l1 r = Some (l2, zs, rest)"
      using "1.prems" e by (subst (asm) type_line.simps) (auto split: option.splits)
    then show ?thesis using "1.IH" [OF e(1) refl e(2) [symmetric] refl False] serial_event_less [OF e(1)] by fastforce
  qed
qed

lemma read_line_loop:
  assumes "serial_line (ports_of K) sent incoming okd"
  shows "type_line hs l cs = Some (l', xs, rest) \<Longrightarrow> con_ready (waiting incoming okd cs) s \<Longrightarrow> editor_ok ed s \<Longrightarrow>
    hs = history_texts (hist s) \<Longrightarrow> l = line_of ed s \<Longrightarrow>
    \<exists>ed' t. repeat_until (line_step K) (ed, s) = Some (Returns () t, ed', t) \<and> wrote sent (waiting incoming okd rest) s xs t \<and>
      editor_ok ed' t \<and> line_of ed' t = l' \<and> hist t = hist s"
proof (induction hs l cs arbitrary: l' xs rest ed s rule: type_line.induct)
  case (1 hs l cs)
  obtain e r b l1 ys where e: "serial_event cs = Some (e, r)" "edit hs e l = (b, l1, ys)"
    using "1.prems"(1) by (subst (asm) type_line.simps) (auto split: option.splits prod.splits)
  obtain u where u: "input_getevent (env K) s = Some (Returns e u)" "wrote sent (waiting incoming okd r) s [] u"
      "cmd_buffer u = cmd_buffer s" "hist u = hist s"
    using take_event [OF assms "1.prems"(2) e(1)] by blast
  have ok: "editor_ok ed u" "line_of ed u = l" using "1.prems"(3,5) u(3,4) by (simp_all add: editor_ok_def line_of_def)
  obtain ed1 v where v: "edit_event K e (ed, u) = Some (b, ed1, v)" "editor_ok ed1 v" "line_of ed1 v = l1"
      "wrote sent (waiting incoming okd r) u ys v" "hist v = hist u"
    using edit_event_spec [OF serial_line_uart [OF assms] wrote_ready [OF u(2)] ok(1), of e] e(2) "1.prems"(4) ok(2) u(4)
    by (auto simp: edited_def)
  have w: "wrote sent (waiting incoming okd r) s ys v" using wrote_then [OF u(2) v(4)] by simp
  have step: "line_step K (ed, s) = Some (if b then Some (Returns () v) else None, ed1, v)"
    using u(1) v(1) by (simp add: line_step_def)
  show ?case
  proof (cases b)
    case True
    then have "l' = l1" "xs = ys" "rest = r" using "1.prems"(1) e by (subst (asm) type_line.simps, simp)+
    then show ?thesis using repeat_until_hit [of "line_step K" "(ed, s)"] step True v(2,3,5) u(4) w
      by (intro exI [of _ ed1] exI [of _ v]) simp
  next
    case False
    then obtain zs where t: "type_line hs l1 r = Some (l', zs, rest)" "xs = ys @ zs"
      using "1.prems"(1) e by (subst (asm) type_line.simps) (auto split: option.splits)
    obtain ed' t where "repeat_until (line_step K) (ed1, v) = Some (Returns () t, ed', t)"
        "wrote sent (waiting incoming okd rest) v zs t" "editor_ok ed' t" "line_of ed' t = l'" "hist t = hist v"
      using "1.IH" [OF e(1) refl e(2) [symmetric] refl False t(1) wrote_ready [OF v(4)] v(2)] "1.prems"(4) u(4) v(3,5)
      by auto
    moreover have "repeat_until (line_step K) (ed, s) = repeat_until (line_step K) (ed1, v)"
      using step False by (intro repeat_until_miss) simp
    ultimately show ?thesis using wrote_then [OF w] t(2) v(5) u(4) by auto
  qed
qed


text \<open>The line at the start: nothing is typed, but the buffer still holds the line before.\<close>

definition blank_line :: "u8 list list \<Rightarrow> u8 list \<Rightarrow> line_state" where
  "blank_line hs before = \<lparr>visible = [], stored = before, at = length hs, saved = []\<rparr>"

definition shell_ok :: "'d kern \<Rightarrow> bool" where
  "shell_ok s \<longleftrightarrow> row_ok (cmd_buffer s) \<and> history_wf (hist s)"

lemma read_line_spec:
  assumes "serial_line (ports_of K) sent incoming okd" and "con_ready (waiting incoming okd cs) s" and "shell_ok s"
    and "length (stack_line K) = 256"
    and "type_line (history_texts (hist s)) (blank_line (history_texts (hist s)) (cstr (cmd_buffer s))) cs = Some (l, xs, rest)"
  shows "\<exists>t. shell_read_line K s = Some (Returns () t) \<and> wrote sent (waiting incoming okd rest) s xs t \<and>
    shell_ok t \<and> cstr (cmd_buffer t) = stored l \<and> hist t = hist s"
proof -
  let ?l = "(stack_line K)[0 := 0]"
  let ?ed = "\<lparr>pos = 0, history_position = entries s, current_line = ?l\<rparr>"
  obtain x xs' where x: "stack_line K = x # xs'" using assms(4) by (cases "stack_line K") auto
  have ed: "new_line K s = Some ?ed" using assms(4) by (simp add: new_line_def)
  have ok: "editor_ok ?ed s" using assms(3,4) x by (simp add: editor_ok_def shell_ok_def)
  have "cstr ?l = []" using x by simp
  then have "line_of ?ed s = blank_line (history_texts (hist s)) (cstr (cmd_buffer s))"
    by (simp add: line_of_def blank_line_def)
  then obtain ed' t where "repeat_until (line_step K) (?ed, s) = Some (Returns () t, ed', t)"
      "wrote sent (waiting incoming okd rest) s xs t" "editor_ok ed' t" "line_of ed' t = l" "hist t = hist s"
    using read_line_loop [OF assms(1,5,2) ok refl] by auto
  then show ?thesis using ed by (intro exI [of _ t]) (auto simp: shell_read_line_def editor_ok_def shell_ok_def line_of_def)
qed

section \<open>Executing a line\<close>

definition command_of :: "u8 list \<Rightarrow> u8 list" where
  "command_of w = (case words w of [] \<Rightarrow> [] | c # _ \<Rightarrow> c)"

definition arguments_of :: "u8 list \<Rightarrow> u8 list list" where
  "arguments_of w = take 16 (tl (words w))"

text \<open>What is left of the line in the buffer after it has been split.\<close>

definition left_over :: "u8 list \<Rightarrow> u8 list" where
  "left_over w = takeWhile (\<lambda>c. c = 32) w @ command_of w"

lemma execute_line_split:
  assumes "shell_ok s" and "w = cstr (cmd_buffer s)"
  shows "\<exists>h b cmd args. shell_execute_line K s = execute_command K cmd args (s\<lparr>hist := h, cmd_buffer := b\<rparr>) \<and>
    0 \<in> set cmd \<and> cstr cmd = command_of w \<and> (\<forall>a \<in> set args. 0 \<in> set a) \<and> map cstr args = arguments_of w \<and>
    shell_ok (s\<lparr>hist := h, cmd_buffer := b\<rparr>) \<and> cstr b = left_over w \<and> history_texts h = remember w (history_texts (hist s))"
proof -
  have row: "row_ok (cmd_buffer s)" using assms(1) by (simp add: shell_ok_def)
  obtain h where h: "history_add (cmd_buffer s) (hist s) = Some h" "history_wf h"
      "history_texts h = remember w (history_texts (hist s))"
    using history_add_spec [of "hist s" "cmd_buffer s"] assms by (auto simp: shell_ok_def)
  have z: "0 \<in> set (cmd_buffer s)" using row_ok_terminated [OF row] by simp
  obtain b cmd args where b: "shell_parse_command (cmd_buffer s) = Some (b, cmd, args)" "length b = length (cmd_buffer s)"
      "ended b cmd" "\<forall>j \<in> set args. ended b j" "text_at b cmd = command_of w" "map (text_at b) args = arguments_of w"
      "cstr b = left_over w"
    using parse_command_spec [OF z] assms(2) by (auto simp: command_of_def arguments_of_def left_over_def)
  have "b ! 255 = 0" using parse_command_zeros [OF b(1)] row by (simp add: row_ok_def)
  then have "row_ok b" using b(2) row by (simp add: row_ok_def)
  moreover have "0 \<in> set (drop cmd b)" "cstr (drop cmd b) = command_of w" using b(3,5) by (simp_all add: ended_def text_at_def)
  moreover have "\<forall>a \<in> set (map (\<lambda>i. drop i b) args). 0 \<in> set a" "map cstr (map (\<lambda>i. drop i b) args) = arguments_of w"
    using b(4) by (auto simp: ended_def) (simp add: b(6) [symmetric] text_at_def)
  moreover have "shell_execute_line K s = execute_command K (drop cmd b) (map (\<lambda>i. drop i b) args) (s\<lparr>hist := h, cmd_buffer := b\<rparr>)"
    by (simp add: shell_execute_line_def h(1) b(1))
  ultimately show ?thesis using h(2,3) b(7)
    by (intro exI [of _ h] exI [of _ b] exI [of _ "drop cmd b"] exI [of _ "map (\<lambda>i. drop i b) args"]) (simp add: shell_ok_def)
qed

lemma same_kernel_line: "same_kernel s (s\<lparr>hist := h, cmd_buffer := b\<rparr>)"
  by (rule same_kernel_trans [OF same_kernel_hist same_kernel_buffer])

text \<open>A line with \<open>exit\<close>, a line that is answered, and a line that stops the processor.\<close>

lemma line_exits:
  assumes "con_ready okd s" and "shell_ok s" and "command_of (cstr (cmd_buffer s)) = str ''exit''"
  shows "\<exists>t. shell_execute_line K s = Some (Returns True t) \<and> said sent okd s [] t \<and> same_kernel s t \<and> shell_ok t"
proof -
  obtain h b cmd args where e: "shell_execute_line K s = execute_command K cmd args (s\<lparr>hist := h, cmd_buffer := b\<rparr>)"
      "0 \<in> set cmd" "cstr cmd = str ''exit''" "shell_ok (s\<lparr>hist := h, cmd_buffer := b\<rparr>)"
    using execute_line_split [OF assms(2) refl] assms(3) by metis
  let ?t = "s\<lparr>hist := h, cmd_buffer := b\<rparr>"
  have "shell_execute_line K s = Some (Returns True ?t)"
    using e(1,3) execute_command_cases [OF e(2)] by (simp add: str_def)
  moreover have "said sent okd s [] ?t" using assms(1) by (simp add: said_def)
  ultimately show ?thesis using e(4) same_kernel_line by blast
qed

lemma line_answers:
  assumes "uart (ports_of K) sent okd" and "chips_ok (env K) C sent okd" and "con_ready okd s" and "shell_ok s"
    and "map_present K (boot_st (fst v))" and "tracks v s" and "w = cstr (cmd_buffer s)"
    and "answer K C v (command_of w) (arguments_of w) = Some (xs, v')"
  shows "\<exists>t. shell_execute_line K s = Some (Returns False t) \<and> said sent okd s xs t \<and> tracks v' t \<and> shell_ok t \<and>
    cstr (cmd_buffer t) = left_over w \<and> history_texts (hist t) = remember w (history_texts (hist s))"
proof -
  obtain h b cmd args where e: "shell_execute_line K s = execute_command K cmd args (s\<lparr>hist := h, cmd_buffer := b\<rparr>)"
      "0 \<in> set cmd" "cstr cmd = command_of w" "\<forall>a \<in> set args. 0 \<in> set a" "map cstr args = arguments_of w"
      "shell_ok (s\<lparr>hist := h, cmd_buffer := b\<rparr>)" "cstr b = left_over w" "history_texts h = remember w (history_texts (hist s))"
    using execute_line_split [OF assms(4,7)] by metis
  let ?s = "s\<lparr>hist := h, cmd_buffer := b\<rparr>"
  have "tracks v ?s" by (rule tracks_same [OF assms(6) same_kernel_line])
  moreover have "con_ready okd ?s" using assms(3) by simp
  moreover have "map_present K (boot_st ?s)" using assms(5) tracks_boot [OF assms(6)] by simp
  moreover have "answer K C v (cstr cmd) (map cstr args) = Some (xs, v')" using assms(8) e(3,5) by simp
  ultimately obtain t where t: "execute_command K cmd args ?s = Some (Returns False t)" "said sent okd ?s xs t" "tracks v' t"
      "cmd_buffer t = cmd_buffer ?s" "hist t = hist ?s"
    using execute_answers [OF assms(1,2)] e(2,4) by blast
  have "said sent okd s xs t" using t(2) by (simp add: said_def)
  then show ?thesis using e(1,6-8) t by (intro exI [of _ t]) (simp add: shell_ok_def)
qed

lemma line_stops:
  assumes "uart (ports_of K) sent okd" and "chips_ok (env K) C sent okd" and "quiet_port (ports_of K) sent okd 0xF4"
    and "con_ready okd s" and "shell_ok s" and "stops C (command_of (cstr (cmd_buffer s)))"
  shows "\<exists>t. shell_execute_line K s = Some (Halts t) \<and> \<not> interrupts t \<and>
    sent (dev t) = sent (dev s) @ crlf (last_words (command_of (cstr (cmd_buffer s))))"
proof -
  obtain h b cmd args where e: "shell_execute_line K s = execute_command K cmd args (s\<lparr>hist := h, cmd_buffer := b\<rparr>)"
      "0 \<in> set cmd" "cstr cmd = command_of (cstr (cmd_buffer s))"
    using execute_line_split [OF assms(5) refl] by metis
  have "con_ready okd (s\<lparr>hist := h, cmd_buffer := b\<rparr>)" using assms(4) by simp
  from execute_stop [OF assms(1-3) this e(2), of args] show ?thesis using assms(6) e(1,3) by simp
qed

section \<open>Sessions\<close>

definition prompt :: "action list" where
  "prompt = coloured VGA_COLOR_LIGHT_CYAN VGA_COLOR_BLACK (str ''kernel'') @
     coloured VGA_COLOR_LIGHT_GREEN VGA_COLOR_BLACK (str ''> '')"

definition greeting :: "action list" where
  "greeting = [Wipe] @ rainbow_text (str ''Welcome to the kernel shell!\<newline>'') @
     out ''Type 'help' for available commands.\<newline>\<newline>''"

definition farewell :: "action list" where
  "farewell = coloured VGA_COLOR_YELLOW VGA_COLOR_BLACK (str ''Exiting shell.\<newline>'')"

text \<open>
  How a session ends: \<open>Exited xs rest v\<close> with \<open>exit\<close>, the script \<open>xs\<close>, the bytes that are not read and
  the state; \<open>Stopped xs w\<close> with the command \<open>w\<close> that stops the processor, after the script \<open>xs\<close>.
\<close>

datatype 'd ending = Exited "action list" "u8 list" "'d view" | Stopped "action list" "u8 list"

fun after :: "action list \<Rightarrow> 'd ending \<Rightarrow> 'd ending" where
  "after xs (Exited ys rest v) = Exited (xs @ ys) rest v"
| "after xs (Stopped ys w) = Stopped (xs @ ys) w"

text \<open>
  The session that the bytes \<open>cs\<close> on the line are, from the state \<open>v\<close>, the history \<open>hs\<close> and the text
  \<open>before\<close> in the buffer.  It is \<open>None\<close> when the bytes hold no complete last line, or a command without
  an answer.
\<close>

function session :: "'d platform \<Rightarrow> chips \<Rightarrow> 'd view \<Rightarrow> u8 list list \<Rightarrow> u8 list \<Rightarrow> u8 list \<Rightarrow> 'd ending option" where
  "session K C v hs before cs =
     (case type_line hs (blank_line hs before) cs of
        None \<Rightarrow> None
      | Some (l, xs, rest) \<Rightarrow>
          (let w = stored l; c = command_of w in
           if c = str ''exit'' then Some (Exited (prompt @ xs @ farewell) rest v)
           else if stops C c then Some (Stopped (prompt @ xs) c)
           else (case answer K C v c (arguments_of w) of
               None \<Rightarrow> None
             | Some (ys, v') \<Rightarrow> map_option (after (prompt @ xs @ ys)) (session K C v' (remember w hs) (left_over w) rest))))"
  by pat_completeness auto
termination
  by (relation "measure (\<lambda>(K, C, v, hs, before, cs). length cs)") (auto dest: type_line_less)

declare session.simps [simp del]

lemma prints_prompt: "uart (ports_of K) sent okd \<Longrightarrow> prints sent okd s0 (shell_print_prompt K) prompt"
  unfolding shell_print_prompt_def prompt_def by (intro prints_bind prints_colored_lit) simp_all

text \<open>A turn is the prompt, a line, and its execution.\<close>

lemma turn_reads:
  assumes "serial_line (ports_of K) sent incoming okd" and "con_ready (waiting incoming okd cs) s" and "shell_ok s"
    and "length (stack_line K) = 256"
    and "type_line (history_texts (hist s)) (blank_line (history_texts (hist s)) (cstr (cmd_buffer s))) cs = Some (l, xs, rest)"
  shows "\<exists>t. shell_turn K s = shell_execute_line K t \<and> wrote sent (waiting incoming okd rest) s (prompt @ xs) t \<and> shell_ok t \<and>
    cstr (cmd_buffer t) = stored l \<and> hist t = hist s"
proof -
  obtain u where u: "shell_print_prompt K s = Some u" "wrote sent (waiting incoming okd cs) s prompt u"
      "cmd_buffer u = cmd_buffer s" "hist u = hist s"
    using prints_wrote [OF prints_prompt [OF serial_line_uart [OF assms(1)]] assms(2)] by blast
  have "shell_ok u" using assms(3) u(3,4) by (simp add: shell_ok_def)
  then obtain t where t: "shell_read_line K u = Some (Returns () t)" "wrote sent (waiting incoming okd rest) u xs t"
      "shell_ok t" "cstr (cmd_buffer t) = stored l" "hist t = hist u"
    using read_line_spec [OF assms(1) wrote_ready [OF u(2)] _ assms(4)] assms(5) u(3,4) by fastforce
  then show ?thesis using u(1,4) wrote_then [OF u(2) t(2)] by (intro exI [of _ t]) (simp add: shell_turn_def)
qed

lemma prints_farewell: "uart (ports_of K) sent okd \<Longrightarrow> prints sent okd s0
  (kprint_colored (ports_of K) (lit ''Exiting shell.\<newline>'') VGA_COLOR_YELLOW VGA_COLOR_BLACK) farewell"
  unfolding farewell_def by (intro prints_colored_lit) simp_all

lemma prints_greeting: "uart (ports_of K) sent okd \<Longrightarrow> prints sent okd s0 (shell_init K) greeting"
proof -
  assume u: "uart (ports_of K) sent okd"
  have "prints sent okd s0 (cmd_clear K) [Wipe]"
    using prints_clear [OF u, of s0] by (simp add: cmd_clear_def prints_def)
  then show ?thesis unfolding shell_init_def greeting_def
    by (intro prints_bind prints_rainbow_text prints_lit u) simp_all
qed

lemma exit_quiet:
  assumes "quiet_port (io E) sent okd 0xF4" and "con_ready okd s"
  shows "wrote sent okd s [] (system_qemu_exit E code s)"
  using assms by (simp add: wrote_def system_qemu_exit_def out8_def quiet_port_def con_ready_def)

text \<open>What the run of the shell gives for an ending of the session, from the state \<open>s\<close>.\<close>

definition ends :: "('d \<Rightarrow> u8 list) \<Rightarrow> ('d \<Rightarrow> u8 list) \<Rightarrow> ('d \<Rightarrow> bool) \<Rightarrow> 'd kern \<Rightarrow> 'd ending \<Rightarrow> (unit, 'd kern) outcome \<Rightarrow> bool" where
  "ends sent incoming okd s e r \<longleftrightarrow> (case e of
     Exited xs rest v \<Rightarrow> (\<exists>t. r = Returns () t \<and> said sent (waiting incoming okd rest) s xs t \<and> tracks v t \<and> shell_ok t)
   | Stopped xs w \<Rightarrow> (\<exists>t. r = Halts t \<and> \<not> interrupts t \<and> sent (dev t) = sent (dev s) @ crlf (put_bytes xs @ last_words w)))"

lemma ends_after:
  assumes "said sent A s xs t" and "ends sent incoming okd t e r"
  shows "ends sent incoming okd s (after xs e) r"
  using assms said_then [OF assms(1)] by (cases e) (auto simp: ends_def said_def)

lemma session_loop:
  assumes "serial_line (ports_of K) sent incoming okd" and "\<And>cs. quiet_port (ports_of K) sent (waiting incoming okd cs) 0xF4"
    and "\<And>cs. chips_ok (env K) C sent (waiting incoming okd cs)" and "length (stack_line K) = 256"
  shows "session K C v hs before cs = Some e \<Longrightarrow> con_ready (waiting incoming okd cs) s \<Longrightarrow> shell_ok s \<Longrightarrow> tracks v s \<Longrightarrow>
    map_present K (boot_st (fst v)) \<Longrightarrow> hs = history_texts (hist s) \<Longrightarrow> before = cstr (cmd_buffer s) \<Longrightarrow>
    \<exists>r t. repeat_until (shell_step K) s = Some (r, t) \<and> ends sent incoming okd s e r"
proof (induction "length cs" arbitrary: v hs before cs s e rule: less_induct)
  case less
  obtain l ys rest where l: "type_line hs (blank_line hs before) cs = Some (l, ys, rest)"
    using less.prems(1) by (subst (asm) session.simps) (auto split: option.splits)
  let ?w = "stored l" and ?okd = "waiting incoming okd rest"
  note u = serial_line_uart [OF assms(1)]
  obtain a where a: "shell_turn K s = shell_execute_line K a" "wrote sent ?okd s (prompt @ ys) a" "shell_ok a"
      "cstr (cmd_buffer a) = ?w" "hist a = hist s"
    using turn_reads [OF assms(1) less.prems(2,3) assms(4) l [unfolded less.prems(6,7)]] by blast
  have sa: "said sent ?okd s (prompt @ ys) a" "same_kernel s a" using a(2) by (simp_all add: wrote_said)
  have ra: "con_ready ?okd a" by (rule wrote_ready [OF a(2)])
  have ta: "tracks v a" by (rule tracks_same [OF less.prems(4) sa(2)])
  consider (exits) "command_of ?w = str ''exit''" "e = Exited (prompt @ ys @ farewell) rest v"
    | (halts) "stops C (command_of ?w)" "e = Stopped (prompt @ ys) (command_of ?w)"
    | (goes) as v' f where "answer K C v (command_of ?w) (arguments_of ?w) = Some (as, v')"
        "session K C v' (remember ?w hs) (left_over ?w) rest = Some f" "e = after (prompt @ ys @ as) f"
    using less.prems(1) l by (subst (asm) session.simps) (auto simp: Let_def split: option.splits if_splits)
  then show ?case
  proof cases
    case exits
    obtain b where b: "shell_execute_line K a = Some (Returns True b)" "said sent ?okd a [] b" "same_kernel a b" "shell_ok b"
      using line_exits [OF ra a(3)] exits(1) a(4) by metis
    have rb: "con_ready ?okd b" using b(2) by (simp add: said_def)
    obtain c where c: "kprint_colored (ports_of K) (lit ''Exiting shell.\<newline>'') VGA_COLOR_YELLOW VGA_COLOR_BLACK b = Some c"
        "wrote sent ?okd b farewell c" "cmd_buffer c = cmd_buffer b" "hist c = hist b"
      using prints_wrote [OF prints_farewell [OF u] rb] by blast
    let ?t = "system_qemu_exit (env K) 0x10 c"
    have t: "wrote sent ?okd c [] ?t" by (rule exit_quiet [OF assms(2) wrote_ready [OF c(2)]])
    have "said sent ?okd b farewell c" "said sent ?okd c [] ?t" using c(2) t by (simp_all add: wrote_said)
    from said_then [OF said_then [OF said_then [OF sa(1) b(2)] this(1)] this(2)]
    have "said sent ?okd s (prompt @ ys @ farewell) ?t" by simp
    moreover have "same_kernel b c" "same_kernel c ?t" using c(2) t by (simp_all add: wrote_said)
    then have "tracks v ?t" by (rule tracks_same [OF tracks_same [OF tracks_same [OF ta b(3)]]])
    moreover have "shell_ok ?t" using b(4) c(3,4) by (simp add: shell_ok_def system_qemu_exit_def out8_def)
    moreover have "shell_step K s = Some (Some (Returns () ?t), ?t)" using a(1) b(1) c(1) by (simp add: shell_step_def Let_def)
    ultimately show ?thesis using repeat_until_hit [of "shell_step K" s] exits(2) by (simp add: ends_def)
  next
    case halts
    obtain t where t: "shell_execute_line K a = Some (Halts t)" "\<not> interrupts t"
        "sent (dev t) = sent (dev a) @ crlf (last_words (command_of ?w))"
      using line_stops [OF u assms(3,2) ra a(3)] halts(1) a(4) by auto
    have "shell_step K s = Some (Some (Halts t), t)" using a(1) t(1) by (simp add: shell_step_def)
    then show ?thesis using repeat_until_hit [of "shell_step K" s] halts(2) t(2,3) sa(1) by (simp add: ends_def said_def)
  next
    case goes
    obtain b where b: "shell_execute_line K a = Some (Returns False b)" "said sent ?okd a as b" "tracks v' b" "shell_ok b"
        "cstr (cmd_buffer b) = left_over ?w" "history_texts (hist b) = remember ?w (history_texts (hist a))"
      using line_answers [OF u assms(3) ra a(3) less.prems(5) ta a(4) [symmetric] goes(1)] by blast
    have rb: "con_ready ?okd b" using b(2) by (simp add: said_def)
    have mp: "map_present K (boot_st (fst v'))" using less.prems(5) answer_boot [OF goes(1)] by simp
    obtain r t where r: "repeat_until (shell_step K) b = Some (r, t)" "ends sent incoming okd b f r"
      using less.hyps [OF type_line_less [OF l] goes(2) rb b(4,3) mp] b(5,6) a(5) less.prems(6) by auto
    have "shell_step K s = Some (None, b)" using a(1) b(1) by (simp add: shell_step_def)
    then have "repeat_until (shell_step K) s = repeat_until (shell_step K) b" by (rule repeat_until_miss)
    then show ?thesis using r ends_after [OF said_then [OF sa(1) b(2)] r(2)] goes(3) by simp
  qed
qed

lemma shell_run_spec:
  assumes "serial_line (ports_of K) sent incoming okd" and "\<And>cs. quiet_port (ports_of K) sent (waiting incoming okd cs) 0xF4"
    and "\<And>cs. chips_ok (env K) C sent (waiting incoming okd cs)" and "length (stack_line K) = 256"
    and "con_ready (waiting incoming okd cs) s" and "shell_ok s" and "tracks v s" and "map_present K (boot_st s)"
    and "session K C v (history_texts (hist s)) (cstr (cmd_buffer s)) cs = Some e"
  shows "\<exists>r. shell_run K s = Some r \<and> ends sent incoming okd s (after greeting e) r"
proof -
  obtain u where u: "shell_init K s = Some u" "wrote sent (waiting incoming okd cs) s greeting u"
      "cmd_buffer u = cmd_buffer s" "hist u = hist s"
    using prints_wrote [OF prints_greeting [OF serial_line_uart [OF assms(1)]] assms(5)] by blast
  have k: "shell_ok u" "same_kernel s u" "said sent (waiting incoming okd cs) s greeting u"
    using assms(6) u(2-4) by (simp_all add: shell_ok_def wrote_said)
  have "map_present K (boot_st (fst v))" using assms(8) tracks_boot [OF assms(7)] by simp
  then obtain r t where "repeat_until (shell_step K) u = Some (r, t)" "ends sent incoming okd u e r"
    using session_loop [OF assms(1-4,9) wrote_ready [OF u(2)] k(1) tracks_same [OF assms(7) k(2)]] u(3,4) by auto
  then show ?thesis using u(1) ends_after [OF k(3)] by (simp add: shell_run_def)
qed


section \<open>Lines that are just typed\<close>

text \<open>A line of printable characters that fits the buffer, typed without editing.\<close>

definition plain :: "u8 list \<Rightarrow> bool" where
  "plain w \<longleftrightarrow> list_all (\<lambda>c. 32 \<le> c \<and> c < 127) w \<and> length w \<le> 255"

definition keyed :: "u8 list \<Rightarrow> action list" where
  "keyed w = concat (map (\<lambda>c. [View_end, Put c]) w) @ [View_end, Put 10]"

lemma put_bytes_keyed: "put_bytes (keyed w) = w @ [10]"
  by (induction w) (simp_all add: keyed_def)

lemma type_plain:
  assumes "list_all (\<lambda>c. 32 \<le> c \<and> c < 127) w" and "length (visible l) + length w \<le> 255" and "0 \<notin> set (visible l)"
  shows "\<exists>l'. type_line hs l (w @ 13 # rest) = Some (l', keyed w, rest) \<and> stored l' = visible l @ w"
  using assms
proof (induction w arbitrary: l)
  case Nil
  have "type_line hs l (13 # rest) = Some (l\<lparr>stored := cstr (visible l)\<rparr>, keyed [], rest)"
    by (subst type_line.simps) (simp add: serial_event_def edit_def keyed_def)
  then show ?case using Nil by (simp add: cstr_id)
next
  case (Cons c w)
  let ?l = "set_line (visible l @ [c]) (back_to_line hs l)"
  have c: "32 \<le> c" "c < 127" using Cons.prems(1) by simp_all
  then have ne: "c \<noteq> 0" "c \<noteq> 8" "c \<noteq> 10" "c \<noteq> 13" "c \<noteq> 0x1B" "c \<noteq> 0x7F" by auto
  have v: "visible ?l = visible l @ [c]" by (simp add: set_line_def)
  obtain l' where l': "type_line hs ?l (w @ 13 # rest) = Some (l', keyed w, rest)" "stored l' = visible l @ c # w"
    using Cons.IH [of ?l] Cons.prems ne(1) v by auto
  have "type_line hs l ((c # w) @ 13 # rest) = Some (l', keyed (c # w), rest)"
    using l'(1) ne Cons.prems(2)
    by (subst type_line.simps) (simp add: serial_event_def edit_def keyed_def Let_def)
  then show ?case using l'(2) by blast
qed

definition typing :: "u8 list list \<Rightarrow> u8 list" where
  "typing ws = concat (map (\<lambda>w. w @ [13]) ws)"

text \<open>The session that lines typed one after the other are; the history plays no part in it.\<close>

fun talk :: "'d platform \<Rightarrow> chips \<Rightarrow> 'd view \<Rightarrow> u8 list list \<Rightarrow> 'd ending option" where
  "talk K C v [] = None"
| "talk K C v (w # ws) =
     (let c = command_of w in
      if c = str ''exit'' then Some (Exited (prompt @ keyed w @ farewell) (typing ws) v)
      else if stops C c then Some (Stopped (prompt @ keyed w) c)
      else (case answer K C v c (arguments_of w) of
          None \<Rightarrow> None
        | Some (ys, v') \<Rightarrow> map_option (after (prompt @ keyed w @ ys)) (talk K C v' ws)))"

lemma session_talk:
  "list_all plain ws \<Longrightarrow> talk K C v ws = Some e \<Longrightarrow> session K C v hs before (typing ws) = Some e"
proof (induction ws arbitrary: v hs before e)
  case (Cons w ws)
  have "list_all (\<lambda>c. 32 \<le> c \<and> c < 127) w" "length w \<le> 255" using Cons.prems(1) by (simp_all add: plain_def)
  then obtain l where l: "type_line hs (blank_line hs before) (typing (w # ws)) = Some (l, keyed w, typing ws)" "stored l = w"
    using type_plain [of w "blank_line hs before" hs "typing ws"] by (auto simp: typing_def blank_line_def)
  show ?case
    using Cons.prems l Cons.IH
    by (subst session.simps) (auto simp: Let_def split: option.splits if_splits)
qed simp

section \<open>Properties\<close>

lemma tty_serial_line: "serial_line tty_ports tx rx unlatched"
proof -
  have r: "fst (serial_tx_ready tty_ports (polled (serial_tx_ready tty_ports) 0 d))" for d
    by (simp add: serial_tx_ready_def tty_ports_def Let_def)
  have "uart tty_ports tx (waiting rx unlatched cs)" for cs
    unfolding uart_def
    by (intro conjI allI impI exI [of _ 0] r) (auto simp: serial_tx_ready_def tty_ports_def Let_def)
  moreover have "receiver tty_ports rx (\<lambda>d. unlatched d \<and> tx d = bs)" for bs
    unfolding receiver_def by (auto simp: tty_ports_def split: list.splits)
  ultimately show ?thesis by (simp add: serial_line_def)
qed

lemma tty_quiet: "port \<noteq> COM1_PORT \<Longrightarrow> port \<noteq> 0x3FB \<Longrightarrow> quiet_port tty_ports tx (waiting rx unlatched cs) port"
  by (simp add: quiet_port_def tty_ports_def)

lemma board_serial_line: "serial_line (board_ports regs cfg) board_sent board_in (\<lambda>d. unlatched (fst d))"
proof -
  have "receiver (board_ports regs cfg) board_in (\<lambda>d. unlatched (fst d) \<and> board_sent d = bs)" for bs
    unfolding receiver_def by (auto simp: board_ports_def tty_ports_def split: list.splits)
  then show ?thesis using board_uart by (simp add: serial_line_def)
qed

text \<open>The board with every chip, and bytes that wait on its serial line.\<close>

definition board_chips :: chips where
  "board_chips = \<lparr>clock = Some (noon_registers,
       \<lparr>dt_year = 24, dt_month = 2, dt_day = 28, dt_hour = 11, dt_minute = 30, dt_second = 59\<rparr>),
     config = Some one_device, controller = True, timer = True\<rparr>"

lemma board_chips_ok: "chips_ok board_env board_chips board_sent (board_ok cs)"
proof -
  let ?t = "\<lparr>dt_year = 24, dt_month = 2, dt_day = 28, dt_hour = 11, dt_minute = 30, dt_second = 59\<rparr>"
  have "valid_time ?t" "clock_shows noon_registers ?t" "noon_registers 0x0B AND 0x02 \<noteq> 0" "noon_registers 0x0A = 0" by code_simp+
  moreover have "\<exists>f. silently (\<lambda>ok. irq_source board_env ok f) board_sent (board_ok cs)" by (rule exI, rule board_timer)
  ultimately show ?thesis using board_clock board_bridge board_resets board_burst board_quiet [of "0x64"] by (simp add: chips_ok_def board_chips_def)
qed

definition board_kern :: "u8 list \<Rightarrow> board kern" where
  "board_kern cs = (static_kern (board_machine\<lparr>dev := (\<lparr>rx = cs, tx = [], latch = False\<rparr>, (0, 0), 0)\<rparr>))\<lparr>pmm_st := open_pmm\<rparr>"

lemma static_shell_ok: "shell_ok (static_kern m)"
  by (simp add: shell_ok_def empty_history_wf(1) row_ok_def)

definition typed_lines :: "u8 list list" where
  "typed_lines = [str ''allocdemo 100'', str ''heapinfo'', str ''time'', str ''sleep 5'', str ''uptime'', str ''exit'']"

definition typed_answers :: "u8 list" where
  "typed_answers = str ''Freed allocation\<newline>kernel> heapinfo\<newline>Heap total bytes: 4072\<newline>Heap used bytes: 0\<newline>'' @
     str ''Heap free bytes: 4072\<newline>kernel> time\<newline>RTC time: 2024-02-28 11:30:59\<newline>kernel> sleep 5\<newline>'' @
     str ''Sleeping for 5 ms...\<newline>Awake\<newline>kernel> uptime\<newline>Uptime (ms): 5\<newline>kernel> exit\<newline>Exiting shell.\<newline>''"

lemma typed_words:
  "command_of (str ''allocdemo 100'') = str ''allocdemo''" "arguments_of (str ''allocdemo 100'') = [str ''100'']"
  "command_of (str ''heapinfo'') = str ''heapinfo''" "arguments_of (str ''heapinfo'') = []"
  "command_of (str ''time'') = str ''time''" "arguments_of (str ''time'') = []" "command_of (str ''exit'') = str ''exit''"
  "asked_number [str ''100''] 64 = Some 100"
  "command_of (str ''sleep 5'') = str ''sleep''" "arguments_of (str ''sleep 5'') = [str ''5'']" "asked_number [str ''5''] 100 = Some 5"
  "command_of (str ''uptime'') = str ''uptime''" "arguments_of (str ''uptime'') = []"
  by code_simp+

lemma typed_plain: "list_all plain typed_lines"
  by code_simp

text \<open>What these lines are answered when the heap is empty and the first region it gets is at \<open>r\<close>.\<close>

lemma sample_talk:
  fixes K :: "'d platform"
  assumes "serve pmm_alloc_frames 100 [] (pmm_st s) = Some (r + 24, [(r, 4072, True)], q)" and "r + 24 \<noteq> 0" and "timer_ticks s = 0"
  shows "\<exists>xs w. talk K board_chips (s, []) typed_lines = Some (Exited xs [] (w, [(r, 4072, True)])) \<and> timer_ticks w = 5 \<and>
    put_bytes xs = str ''kernel> allocdemo 100\<newline>Allocated 100 bytes at 0x'' @ digit_string 16 (unat (r + 24)) @ str ''\<newline>'' @ typed_answers"
proof -
  have "sane_request 100" by code_simp
  let ?bs = "[(r, 4072, True)]"
  let ?v = "(s\<lparr>pmm_st := q\<rparr>, ?bs)" and ?w = "(s\<lparr>pmm_st := q, timer_ticks := 5\<rparr>, ?bs)"
  let ?t = "\<lparr>dt_year = 24, dt_month = 2, dt_day = 28, dt_hour = 11, dt_minute = 30, dt_second = 59\<rparr>"
  let ?heap = "figures [(''Heap total bytes: '', 4072), (''\<newline>Heap used bytes: '', 0), (''\<newline>Heap free bytes: '', 4072)]"
  have ra: "reply K u (str ''allocdemo'') as = usage ''Usage: allocdemo [bytes]\<newline>'' (asked_number as 64)"
    and rh: "reply K u (str ''heapinfo'') as = Some (figures [(''Heap total bytes: '', unat (heap_total_bytes (heap_st u))),
         (''\<newline>Heap used bytes: '', unat (heap_used_bytes (heap_st u))), (''\<newline>Heap free bytes: '', unat (heap_free_bytes (heap_st u)))])"
    and rt: "reply K u (str ''time'') as = None"
    and rs: "reply K u (str ''sleep'') as = usage ''Usage: sleep [ms]\<newline>'' (asked_number as 100)"
    and ru: "reply K u (str ''uptime'') as = Some (figures [(''Uptime (ms): '', unat (timer_ticks u))])" for u as
    by (simp_all add: reply_def scripts_def str_def)
  have names: "str ''allocdemo'' \<noteq> str ''time''" "str ''allocdemo'' \<noteq> str ''pci''" "str ''sleep'' \<noteq> str ''time''"
      "str ''sleep'' \<noteq> str ''pci''" "str ''sleep'' \<noteq> str ''allocdemo''" by (simp_all add: str_def)
  then have a: "answer K board_chips (s, []) (str ''allocdemo'') [str ''100''] = Some (allocdemo_script 100 (r + 24), ?v)"
    using assms(1) \<open>sane_request 100\<close> by (simp add: answer_def ra usage_def typed_words(8))
  have b: "answer K board_chips ?v (str ''heapinfo'') [] = Some (?heap, ?v)"
    by (simp add: answer_def rh shown_def heap_total_bytes_def heap_used_bytes_def heap_free_bytes_def)
  have c: "answer K board_chips ?v (str ''time'') [] = Some (time_script ?t, ?v)"
    by (simp add: answer_def rt board_chips_def)
  have d: "answer K board_chips ?v (str ''sleep'') [str ''5''] = Some (sleep_script 5, ?w)"
    using assms(3) names by (simp add: answer_def rs usage_def typed_words(11) board_chips_def)
  have e: "answer K board_chips ?w (str ''uptime'') [] = Some (figures [(''Uptime (ms): '', 5)], ?w)"
    by (simp add: answer_def ru shown_def)
  have ne: "str ''allocdemo'' \<noteq> str ''exit''" "str ''heapinfo'' \<noteq> str ''exit''" "str ''time'' \<noteq> str ''exit''"
      "str ''sleep'' \<noteq> str ''exit''" "str ''uptime'' \<noteq> str ''exit''" "\<not> stops board_chips (str ''sleep'')" "\<not> stops board_chips (str ''uptime'')"
      "\<not> stops board_chips (str ''allocdemo'')" "\<not> stops board_chips (str ''heapinfo'')" "\<not> stops board_chips (str ''time'')"
    by (simp_all add: stops_def str_def)
  have "put_bytes prompt = str ''kernel> ''" "put_bytes farewell = str ''Exiting shell.\<newline>''" by code_simp+
  moreover have "put_bytes ?heap = str ''Heap total bytes: 4072\<newline>Heap used bytes: 0\<newline>Heap free bytes: 4072\<newline>''"
      "put_bytes (time_script ?t) = str ''RTC time: 2024-02-28 11:30:59\<newline>''"
      "put_bytes (sleep_script 5) = str ''Sleeping for 5 ms...\<newline>Awake\<newline>''"
      "put_bytes (figures [(''Uptime (ms): '', 5)]) = str ''Uptime (ms): 5\<newline>''"
    by (simp_all add: figures_def time_script_def sleep_script_def two_digits_def digit_string_def base_digits.simps str_def)
  moreover have "digit_string 10 (unat (100 :: u64)) = str ''100''" by (simp add: digit_string_def base_digits.simps str_def)
  then have "put_bytes (allocdemo_script 100 (r + 24)) =
      str ''Allocated 100 bytes at 0x'' @ digit_string 16 (unat (r + 24)) @ str ''\<newline>Freed allocation\<newline>''"
    using assms(2) by (simp add: allocdemo_script_def hex_def hex_text_def) (simp add: str_def)
  ultimately show ?thesis
    by (intro exI conjI, simp add: typed_lines_def Let_def typed_words a b c d e ne typing_def)
      (simp_all add: put_bytes_keyed typed_answers_def str_def)
qed

lemma open_serve: "\<exists>q. serve pmm_alloc_frames 100 [] open_pmm = Some (0x1000 + 24, [(0x1000, 4072, True)], q)"
proof -
  have "map_option (\<lambda>(r, bs, q). (r, bs)) (serve pmm_alloc_frames 100 [] open_pmm) = Some (0x1018, [(0x1000, 4072, True)])"
    by code_simp
  then show ?thesis by auto
qed

lemma board_kern_ready:
  "con_ready (waiting board_in (\<lambda>d. unlatched (fst d)) cs) (board_kern cs)" "shell_ok (board_kern cs)"
  "history_texts (hist (board_kern cs)) = []" "cstr (cmd_buffer (board_kern cs)) = []" "boot_st (board_kern cs) = None"
  "pmm_st (board_kern cs) = open_pmm" "heap_st (board_kern cs) = empty_heap" "length (pci_devices (board_kern cs)) = 64"
  "board_sent (dev (board_kern cs)) = []" "keyboard_wf (kbd (board_kern cs))" "interrupts (board_kern cs)" "timer_ticks (board_kern cs) = 0"
  by (simp_all add: fresh_keyboard_simps con_ready_def board_kern_def board_machine_def example_vga_wf shell_ok_def empty_history_wf row_ok_def
      static_kern_def machine.defs)

text \<open>What a run of the shell shows for the ending of a session.\<close>

definition run_shows :: "('d \<Rightarrow> u8 list) \<Rightarrow> ('d \<Rightarrow> u8 list) \<Rightarrow> 'd kern \<Rightarrow> 'd ending \<Rightarrow> (unit, 'd kern) outcome \<Rightarrow> bool" where
  "run_shows sent incoming s e r \<longleftrightarrow> (case e of
     Exited xs rest v \<Rightarrow> \<exists>t. r = Returns () t \<and> shell_ok t \<and> tracks v t \<and> incoming (dev t) = rest \<and>
       sent (dev t) = sent (dev s) @ crlf (put_bytes (greeting @ xs)) \<and>
       term_of (con_vga t) = fold act (greeting @ xs) (term_of (con_vga s))
   | Stopped xs w \<Rightarrow> \<exists>t. r = Halts t \<and> \<not> interrupts t \<and>
       sent (dev t) = sent (dev s) @ crlf (put_bytes (greeting @ xs) @ last_words w))"

text \<open>C7: a session of the shell: whatever is typed on the serial line (history, editing and unknown
  commands included), as long as it holds complete lines up to \<open>exit\<close> or a command that stops the
  processor, and the heap is at rest and, for \<open>sleep\<close>, that the timer keeps ticking: the shell sends to the terminal and shows on the screen exactly the
  greeting, the prompts, the echoed lines and the answers, in order.  After \<open>exit\<close> it returns with the
  bytes after that line unread, the heap again at rest with the regions the answers say, and nothing else of
  the kernel changed; after \<open>panic\<close>, \<open>reboot\<close> or \<open>halt\<close> it never returns.\<close>

theorem shell_session_correct:
  assumes "serial_line (ports_of K) sent incoming okd" and "\<And>cs. quiet_port (ports_of K) sent (waiting incoming okd cs) 0xF4"
    and "\<And>cs. chips_ok (env K) C sent (waiting incoming okd cs)" and "length (stack_line K) = 256"
    and "con_ready (waiting incoming okd cs) s" and "shell_ok s" and "map_present K (boot_st s)"
    and "pmm_ok (pmm_st s)" and "heap_rest (heap_st s) bs (used_frames (pmm_st s))" and "length (pci_devices s) = 64"
    and "keyboard_wf (kbd s)" and "interrupts s" and "session K C (s, bs) (history_texts (hist s)) (cstr (cmd_buffer s)) cs = Some e"
  shows "\<exists>r. shell_run K s = Some r \<and> run_shows sent incoming s e r"
proof -
  have "tracks (s, bs) s" using assms(8-12) by (simp add: tracks_def)
  from shell_run_spec [OF assms(1-6) this assms(7,13)] show ?thesis
    by (cases e) (auto simp: ends_def run_shows_def said_def con_ready_def)
qed

theorem shell_session_correct_witness:
  "\<exists>t. shell_run (platform_of board_env) (board_kern (typing typed_lines)) = Some (Returns () t) \<and>
     heap_rest (heap_st t) [(0x1000, 4072, True)] (used_frames (pmm_st t)) \<and>
     board_sent (dev t) = crlf (str ''Welcome to the kernel shell!\<newline>Type 'help' for available commands.\<newline>\<newline>'' @
       str ''kernel> allocdemo 100\<newline>Allocated 100 bytes at 0x1018\<newline>'' @ typed_answers)"
proof -
  let ?K = "platform_of board_env" and ?cs = "typing typed_lines" and ?okd = "\<lambda>d. unlatched (fst d)"
  let ?s = "board_kern ?cs"
  obtain q where "serve pmm_alloc_frames 100 [] (pmm_st ?s) = Some (0x1000 + 24, [(0x1000, 4072, True)], q)"
    using open_serve by (auto simp: board_kern_ready)
  then obtain xs v where xs: "talk ?K board_chips (?s, []) typed_lines = Some (Exited xs [] v)"
      "put_bytes xs = str ''kernel> allocdemo 100\<newline>Allocated 100 bytes at 0x'' @ digit_string 16 0x1018 @
        str ''\<newline>'' @ typed_answers"
      "snd v = [(0x1000, 4072, True)]"
    using sample_talk [of ?s "0x1000" q ?K] by (fastforce simp: board_kern_ready)
  have g: "put_bytes greeting = str ''Welcome to the kernel shell!\<newline>Type 'help' for available commands.\<newline>\<newline>''"
    by code_simp
  have d: "digit_string 16 0x1018 = str ''1018''" by (simp add: digit_string_def base_digits.simps str_def)
  have se: "session ?K board_chips (?s, []) (history_texts (hist ?s)) (cstr (cmd_buffer ?s)) ?cs = Some (Exited xs [] v)"
    using session_talk [OF typed_plain xs(1)] by simp
  have laws: "serial_line (ports_of ?K) board_sent board_in ?okd"
      "\<And>cs. quiet_port (ports_of ?K) board_sent (waiting board_in ?okd cs) 0xF4"
      "\<And>cs. chips_ok (env ?K) board_chips board_sent (waiting board_in ?okd cs)" "length (stack_line ?K) = 256"
    using board_serial_line board_quiet [of "0xF4"] board_chips_ok by simp_all
  have st: "map_present ?K (boot_st ?s)" "pmm_ok (pmm_st ?s)" "heap_rest (heap_st ?s) [] (used_frames (pmm_st ?s))"
    using heap_rest_init [of empty_heap] by (simp_all add: board_kern_ready map_present_def open_pmm_ok empty_heap_init)
  obtain t where t: "shell_run ?K ?s = Some (Returns () t)" "tracks v t"
      "board_sent (dev t) = crlf (put_bytes (greeting @ xs))"
    using shell_session_correct [OF laws board_kern_ready(1,2) st board_kern_ready(8,10,11) se]
    by (auto simp: run_shows_def board_kern_ready)
  have "heap_rest (heap_st t) (snd v) (used_frames (pmm_st t))"
    using t(2) tracks_fields [of "fst v" "snd v" t] by (cases v) (simp add: tracks_def)
  moreover have "put_bytes (greeting @ xs) = put_bytes greeting @ put_bytes xs" by simp
  ultimately show ?thesis using t(1,3) xs(2,3) g d by (intro exI [of _ t]) (simp add: str_def)
qed

text \<open>C11: every command that only prints, and every unknown command, returns after printing exactly its
  answer, computed from its words and the state (the figures of the memory manager and the heap, the
  uptime, the processor, the memory map), and changes nothing but the console.\<close>

theorem shell_command_output:
  assumes "uart (ports_of K) sent okd" and "con_ready okd s" and "map_present K (boot_st s)"
    and "0 \<in> set cmd" and "\<forall>a \<in> set args. 0 \<in> set a" and "reply K s (cstr cmd) (map cstr args) = Some xs"
  shows "\<exists>d v. execute_command K cmd args s = Some (Returns False (s\<lparr>con_vga := v, dev := d\<rparr>)) \<and>
    con_ready okd (s\<lparr>con_vga := v, dev := d\<rparr>) \<and> sent d = sent (dev s) @ crlf (put_bytes xs) \<and>
    term_of v = fold act xs (term_of (con_vga s))"
  by (rule execute_prints [OF assms])

theorem shell_command_output_witness:
  "\<exists>d v. execute_command (platform_of log_env) (lit ''meminfo'') [] (static_kern example_machine) =
     Some (Returns False ((static_kern example_machine)\<lparr>con_vga := v, dev := d\<rparr>)) \<and>
     log_sent d = crlf (str ''PMM total bytes: 0\<newline>PMM free bytes: 0\<newline>PMM reserved bytes: 0\<newline>'')"
proof -
  let ?s = "static_kern example_machine"
  have c: "cstr (lit ''meminfo'') = str ''meminfo''" by (rule cstr_lit) simp
  obtain xs where xs: "reply (platform_of log_env) ?s (str ''meminfo'') [] = Some xs"
      "put_bytes xs = str ''PMM total bytes: 0\<newline>PMM free bytes: 0\<newline>PMM reserved bytes: 0\<newline>''"
  proof -
    let ?xs = "figures [(''PMM total bytes: '', 0), (''\<newline>PMM free bytes: '', 0), (''\<newline>PMM reserved bytes: '', 0)]"
    have "reply (platform_of log_env) ?s (str ''meminfo'') [] = Some ?xs"
      by (simp add: reply_def scripts_def str_def pmm_total_bytes_def pmm_free_bytes_def pmm_reserved_bytes_def pmm_static_def)
    moreover have "put_bytes ?xs = str ''PMM total bytes: 0\<newline>PMM free bytes: 0\<newline>PMM reserved bytes: 0\<newline>''" by code_simp
    ultimately show ?thesis by (rule that)
  qed
  have "con_ready idle_device ?s" using example_machine_ready by (simp add: con_ready_def)
  moreover have "map_present (platform_of log_env) (boot_st ?s)" by (simp add: map_present_def)
  moreover have "log_sent (dev ?s) = []" by (simp add: log_sent_def log_device0_def)
  moreover have "0 \<in> set (lit ''meminfo'')" by (simp add: lit_def)
  ultimately show ?thesis
    using shell_command_output [of "platform_of log_env" log_sent idle_device ?s "lit ''meminfo''" "[]" xs] log_uart xs c
    by auto
qed

end
