(* ===== verification/Kernel.thy ===== *)
theory Kernel
  imports Session
begin

text \<open>
  \<open>src/kernel.c\<close>: the entry of the kernel, which starts every component in order, prints a banner and
  runs the shell.  Sessions from power-on to \<open>exit\<close> are the composition of all components.
\<close>

section \<open>kernel.c\<close>

text \<open>The components are started in the order of the code.\<close>

definition kernel_start :: "'d platform \<Rightarrow> u64 \<times> boot_info \<Rightarrow> 'd kern \<Rightarrow> 'd kern option" where
  "kernel_start K bip s =
     do { let s = s\<lparr>boot_st := boot_init (Some bip) (boot_st s)\<rparr>;
          let s = s\<lparr>gdt_st := gdt_init (gdt_addr K) (tss_addr K) (gdt_st s)\<rparr>;
          s \<leftarrow> trap_init (env K) (isr_stub_table K) (idt_addr K) s;
          let s = s\<lparr>kbd := keyboard_init (kbd s)\<rparr>;
          let s = system_init_timer (env K) s;
          p \<leftarrow> pmm_init bip (map_at K (memory_map_addr (snd bip))) (pmm_st s);
          Some (s\<lparr>pmm_st := p, heap_st := heap_init (heap_st s)\<rparr>) }"

definition kernel_banner :: "'d platform \<Rightarrow> boot_info \<Rightarrow> 'd kern \<Rightarrow> 'd kern option" where
  "kernel_banner K bi s = (let P = ports_of K in
     do { s \<leftarrow> kprint P (lit ''simple_kernel '') s;
          s \<leftarrow> kprint P (lit KERNEL_VERSION) s;
          s \<leftarrow> kprint P (lit ''\<newline>boot_info memory entries: '') s;
          s \<leftarrow> kprint_u64 P (ucast (memory_map_entries bi)) s;
          s \<leftarrow> kprint P (lit ''\<newline>kernel phys start: '') s;
          s \<leftarrow> kprint_hex P (kernel_phys_start bi) s;
          s \<leftarrow> kprint P (lit ''\<newline>kernel phys end: '') s;
          s \<leftarrow> kprint_hex P (kernel_phys_end bi) s;
          s \<leftarrow> kprint P (lit ''\<newline>heap total bytes: '') s;
          s \<leftarrow> kprint_u64 P (heap_total_bytes (heap_st s)) s;
          kprint P (lit ''\<newline>\<newline>'') s })"

text \<open>The last loop: with interrupts disabled the first \<open>hlt\<close> is the end.\<close>

definition kernel_main :: "'d platform \<Rightarrow> boot_info_ptr \<Rightarrow> 'd operation" where
  "kernel_main K boot_info s =
     do { s \<leftarrow> console_init (ports_of K) s;
          case boot_info of
            None \<Rightarrow> panic (env K) (lit ''missing boot info'') s
          | Some bip \<Rightarrow>
              if magic (snd bip) \<noteq> BOOT_INFO_MAGIC then panic (env K) (lit ''missing boot info'') s
              else do {
                s \<leftarrow> kernel_start K bip s;
                s \<leftarrow> kernel_banner K (snd bip) s;
                and_then (shell_run K (cpu_sti s))
                  (\<lambda>_ s. cpu_hlt (env K) (cpu_cli (system_qemu_exit (env K) 0x10 s))) } }"


section \<open>Power-on\<close>

definition serial_setup :: "(u16 \<times> u8) list" where
  "serial_setup = [(COM1_PORT + 1, 0x00), (COM1_PORT + 3, 0x80), (COM1_PORT + 0, 0x01), (COM1_PORT + 1, 0x00),
     (COM1_PORT + 3, 0x03), (COM1_PORT + 2, 0xC7), (COM1_PORT + 4, 0x0B)]"

text \<open>
  A device before it is programmed: moving the cursor does nothing to the serial port, and after the
  set-up sequence the port sends and receives.
\<close>

definition powers_up :: "'d ports \<Rightarrow> ('d \<Rightarrow> u8 list) \<Rightarrow> ('d \<Rightarrow> u8 list) \<Rightarrow> ('d \<Rightarrow> bool) \<Rightarrow> ('d \<Rightarrow> bool) \<Rightarrow> bool" where
  "powers_up P sent incoming off okd \<longleftrightarrow>
     (\<forall>d c port. off d \<and> port \<in> {0x3D4, 0x3D5} \<longrightarrow>
        off (outb P port c d) \<and> sent (outb P port c d) = sent d \<and> incoming (outb P port c d) = incoming d) \<and>
     (\<forall>d. off d \<longrightarrow> okd (outbs P serial_setup d) \<and> sent (outbs P serial_setup d) = sent d \<and>
        incoming (outbs P serial_setup d) = incoming d)"

text \<open>The interrupt controllers and the timer are beside the serial port.\<close>

definition quiet_board :: "'d ports \<Rightarrow> ('d \<Rightarrow> u8 list) \<Rightarrow> ('d \<Rightarrow> u8 list) \<Rightarrow> ('d \<Rightarrow> bool) \<Rightarrow> bool" where
  "quiet_board P sent incoming okd \<longleftrightarrow>
     (\<forall>port \<in> {0x20, 0x21, 0xA0, 0xA1, 0x40, 0x43, 0xF4}. \<forall>cs. quiet_port P sent (waiting incoming okd cs) port)"

lemma console_init_spec:
  assumes "powers_up P sent incoming off okd" and "off (dev s)" and "incoming (dev s) = cs"
  shows "\<exists>d v. console_init P s = Some (s\<lparr>con_vga := v, dev := d, serial_initialized := 1\<rparr>) \<and>
    con_ready (waiting incoming okd cs) (s\<lparr>con_vga := v, dev := d, serial_initialized := 1\<rparr>) \<and> sent d = sent (dev s) \<and>
    term_of v = \<lparr>lines = [replicate VGA_CONTENT_WIDTH (vga_entry 32 7)], cur_row = 0, cur_col = 0, view = 0, colour = 7\<rparr>"
proof -
  obtain v where v: "vga_initialize P (con_vga s, dev s) = Some (v, update_cursor P v (update_cursor P v (dev s)))" "vga_wf v"
      "term_of v = \<lparr>lines = [replicate VGA_CONTENT_WIDTH (vga_entry 32 7)], cur_row = 0, cur_col = 0, view = 0, colour = 7\<rparr>"
    using vga_initialize_spec [of P "con_vga s" "dev s"] by blast
  have c: "off (update_cursor P v d) \<and> sent (update_cursor P v d) = sent d \<and> incoming (update_cursor P v d) = incoming d"
    if "off d" for d
    using that assms(1) by (simp add: update_cursor_def Let_def powers_up_def)
  let ?d = "update_cursor P v (update_cursor P v (dev s))"
  have d: "off ?d" "sent ?d = sent (dev s)" "incoming ?d = incoming (dev s)" using c assms(2) by simp_all
  have "console_init P s = Some (s\<lparr>con_vga := v, dev := outbs P serial_setup ?d, serial_initialized := 1\<rparr>)"
    using v(1) by (simp add: console_init_def serial_init_def serial_setup_def)
  moreover have "okd (outbs P serial_setup ?d)" "sent (outbs P serial_setup ?d) = sent (dev s)"
      "incoming (outbs P serial_setup ?d) = cs"
    using assms(1,3) d by (simp_all add: powers_up_def)
  ultimately show ?thesis using v(2,3) by (intro exI [of _ "outbs P serial_setup ?d"] exI [of _ v]) (simp add: con_ready_def)
qed

section \<open>Starting the components\<close>

lemma quiet_outbs:
  assumes "\<forall>(port, c) \<in> set ws. quiet_port P sent A port" and "A d"
  shows "A (outbs P ws d) \<and> sent (outbs P ws d) = sent d"
  using assms
proof (induction ws arbitrary: d)
  case (Cons w ws)
  obtain port c where "w = (port, c)" by (cases w)
  then show ?case using Cons by (simp add: quiet_port_def)
qed simp

definition started :: "'d platform \<Rightarrow> u64 \<times> boot_info \<Rightarrow> 'd kern \<Rightarrow> bool" where
  "started K bip s \<longleftrightarrow>
     boot_st s = Some bip \<and> pmm_ok (pmm_st s) \<and>
     used_frames (pmm_st s) = {..<0x40000} -
       usable_frames (take (unat (memory_map_entries (snd bip))) (map_at K (memory_map_addr (snd bip)))) \<union> pmm_reserved_frames bip \<and>
     heap_rest (heap_st s) [] (used_frames (pmm_st s)) \<and> keyboard_wf (kbd s) \<and> pending (kbd s) = [] \<and> timer_ticks s = 0 \<and>
     idtr (idt_st s) = \<lparr>idt_limit = 4095, idt_base = idt_addr K\<rparr> \<and>
     (\<forall>v < 256. if v < 48 then read_gate (idt_bytes (idt_st s)) v = gate_for (isr_stub_table K ! v) 0x08 0x8E
        else \<not> present (read_gate (idt_bytes (idt_st s)) v)) \<and>
     gdtr (gdt_st s) = \<lparr>gdt_limit = 39, gdt_base = gdt_addr K\<rparr> \<and> task_register (gdt_st s) = 0x18"

lemma gdt_init_loaded: "gdtr (gdt_init a b g) = \<lparr>gdt_limit = 39, gdt_base = a\<rparr>" "task_register (gdt_init a b g) = 0x18"
  by (simp_all add: gdt_init_def Let_def sizeof_gdt_def)

lemma keyboard_init_empty: "keyboard_wf k \<Longrightarrow> keyboard_wf (keyboard_init k) \<and> pending (keyboard_init k) = []"
  by (simp add: keyboard_init_def keyboard_reset_state_def keyboard_wf_def pending_def ring_count_def)

lemma kernel_start_spec:
  assumes "quiet_board (ports_of K) sent incoming okd" and "con_ready (waiting incoming okd cs) s"
    and "length (isr_stub_table K) = 48" and "length (idt (idt_st s)) = 256" and "keyboard_wf (kbd s)"
    and "frame_limit (pmm_st s) = PMM_MAX_FRAMES"
    and "unat (memory_map_entries (snd bip)) \<le> length (map_at K (memory_map_addr (snd bip)))"
  shows "\<exists>t. kernel_start K bip s = Some t \<and> started K bip t \<and> con_ready (waiting incoming okd cs) t \<and>
    sent (dev t) = sent (dev s) \<and> con_vga t = con_vga s \<and> cmd_buffer t = cmd_buffer s \<and> hist t = hist s \<and> pci_devices t = pci_devices s"
proof -
  let ?s = "s\<lparr>boot_st := Some bip, gdt_st := gdt_init (gdt_addr K) (tss_addr K) (gdt_st s)\<rparr>"
  let ?P = "ports_of K"
  obtain t where t: "trap_init (env K) (isr_stub_table K) (idt_addr K) ?s = Some (?s\<lparr>dev := pic_remap ?P (dev s), idt_st := t\<rparr>)"
      "idtr t = \<lparr>idt_limit = 4095, idt_base = idt_addr K\<rparr>"
      "\<forall>v < 48. read_gate (idt_bytes t) v = gate_for (isr_stub_table K ! v) 0x08 0x8E"
      "\<forall>v. 48 \<le> v \<and> v < 256 \<longrightarrow> \<not> present (read_gate (idt_bytes t) v)"
    using trap_init_spec [OF assms(3), of ?s "env K" "idt_addr K"] assms(4) by auto
  obtain p where p: "pmm_init bip (map_at K (memory_map_addr (snd bip))) (pmm_st s) = Some p" "pmm_wf p"
      "used_frames p = {..<0x40000} -
        usable_frames (take (unat (memory_map_entries (snd bip))) (map_at K (memory_map_addr (snd bip)))) \<union> pmm_reserved_frames bip"
    using pmm_init_spec [OF assms(6,7)] by blast
  have z: "0 \<in> used_frames p" using p(3) low_memory_reserved [of 0 bip] by simp
  let ?d = "outbs ?P [(0x43, 0x36), (0x40, 0xA9), (0x40, 0x04)] (pic_remap ?P (dev s))"
  define A where "A = waiting incoming okd cs"
  have q: "quiet_port ?P sent A port" if "port \<in> {0x20, 0x21, 0xA0, 0xA1, 0x40, 0x43}" for port
    using assms(1) that by (auto simp: quiet_board_def A_def)
  have "A (dev s)" using assms(2) by (simp add: con_ready_def A_def)
  then have "A (pic_remap ?P (dev s)) \<and> sent (pic_remap ?P (dev s)) = sent (dev s)"
    unfolding pic_remap_def by (intro quiet_outbs) (simp_all add: q)
  then have d: "A ?d" "sent ?d = sent (dev s)"
    using quiet_outbs [of "[(0x43, 0x36), (0x40, 0xA9), (0x40, 0x04)]" ?P sent A "pic_remap ?P (dev s)"]
    by (simp_all add: q del: outbs_simps)
  let ?t = "?s\<lparr>idt_st := t, kbd := keyboard_init (kbd s), dev := ?d, timer_ticks := 0, pmm_st := p, heap_st := heap_init (heap_st s)\<rparr>"
  have "kernel_start K bip s = Some ?t"
    using t(1) p(1) by (simp add: kernel_start_def boot_init_def system_init_timer_def out8_def Let_def)
  moreover have "started K bip ?t"
    using t(2-4) p(2,3) z keyboard_init_empty [OF assms(5)] heap_rest_init
    by (auto simp: started_def pmm_ok_def gdt_init_loaded)
  moreover have "con_ready (waiting incoming okd cs) ?t" using assms(2) d(1) by (simp add: con_ready_def A_def)
  ultimately show ?thesis using d(2) by (intro exI [of _ ?t]) simp
qed

text \<open>The banner, and the state in which the shell starts.\<close>

definition banner :: "boot_info \<Rightarrow> action list" where
  "banner bi = out ''simple_kernel '' @ out KERNEL_VERSION @
     out ''\<newline>boot_info memory entries: '' @ dec (unat (memory_map_entries bi)) @
     out ''\<newline>kernel phys start: '' @ hex (kernel_phys_start bi) @ out ''\<newline>kernel phys end: '' @ hex (kernel_phys_end bi) @
     out ''\<newline>heap total bytes: 0\<newline>\<newline>''"

lemma digit_string_0: "digit_string 10 0 = [48]"
  by code_simp

lemma prints_banner:
  assumes "uart (ports_of K) sent okd" and "heap_total_bytes (heap_st s0) = 0"
  shows "prints sent okd s0 (kernel_banner K bi) (banner bi)"
  unfolding kernel_banner_def Let_def
  by (rule prints_as, (rule prints_bind prints_lit prints_state_u64 prints_numbers assms | (simp add: KERNEL_VERSION_def; fail))+)
    (simp add: banner_def hex_def hex_text_def assms(2) digit_string_0 str_def)



lemma same_kernel_started: "same_kernel s t \<Longrightarrow> started K bip s \<Longrightarrow> started K bip t"
  by (auto simp: same_kernel_def started_def)

lemma started_sti: "started K bip (cpu_sti s) \<longleftrightarrow> started K bip s"
  by (simp add: started_def cpu_sti_def)

lemma kernel_main_spec:
  assumes "powers_up (ports_of K) sent incoming off okd" and "serial_line (ports_of K) sent incoming okd"
    and "quiet_board (ports_of K) sent incoming okd" and "off (dev s)" and "incoming (dev s) = cs"
    and "length (isr_stub_table K) = 48" and "length (idt (idt_st s)) = 256" and "keyboard_wf (kbd s)"
    and "frame_limit (pmm_st s) = PMM_MAX_FRAMES" and "magic (snd bip) = BOOT_INFO_MAGIC"
    and "unat (memory_map_entries (snd bip)) \<le> length (map_at K (memory_map_addr (snd bip)))" and "shell_ok s"
  shows "\<exists>t. kernel_main K (Some bip) s =
      and_then (shell_run K t) (\<lambda>_ s. cpu_hlt (env K) (cpu_cli (system_qemu_exit (env K) 0x10 s))) \<and>
    started K bip t \<and> interrupts t \<and> shell_ok t \<and> con_ready (waiting incoming okd cs) t \<and>
    sent (dev t) = sent (dev s) @ crlf (put_bytes (banner (snd bip))) \<and> cmd_buffer t = cmd_buffer s \<and> hist t = hist s \<and>
    pci_devices t = pci_devices s"
proof -
  obtain d v where c: "console_init (ports_of K) s = Some (s\<lparr>con_vga := v, dev := d, serial_initialized := 1\<rparr>)"
      "con_ready (waiting incoming okd cs) (s\<lparr>con_vga := v, dev := d, serial_initialized := 1\<rparr>)" "sent d = sent (dev s)"
    using console_init_spec [OF assms(1,4,5)] by auto
  let ?s1 = "s\<lparr>con_vga := v, dev := d, serial_initialized := 1\<rparr>"
  obtain s2 where s2: "kernel_start K bip ?s1 = Some s2" "started K bip s2" "con_ready (waiting incoming okd cs) s2"
      "sent (dev s2) = sent d" "cmd_buffer s2 = cmd_buffer s" "hist s2 = hist s" "pci_devices s2 = pci_devices s"
    using kernel_start_spec [OF assms(3) c(2) assms(6), of bip] assms(7-9,11) by auto
  have "heap_total_bytes (heap_st s2) = 0" using s2(2) by (simp add: started_def heap_rest_def heap_total_bytes_def)
  then obtain s3 where s3: "kernel_banner K (snd bip) s2 = Some s3" "wrote sent (waiting incoming okd cs) s2 (banner (snd bip)) s3"
      "cmd_buffer s3 = cmd_buffer s2" "hist s3 = hist s2"
    using prints_wrote [OF prints_banner [OF serial_line_uart [OF assms(2)]] s2(3)] by blast
  let ?t = "cpu_sti s3"
  have k: "started K bip s3" using same_kernel_started [OF _ s2(2)] s3(2) by (simp add: wrote_def)
  have "started K bip ?t" using k by (simp only: started_sti)
  moreover have "con_ready (waiting incoming okd cs) ?t" using wrote_ready [OF s3(2)] by (simp add: con_ready_def cpu_sti_def)
  moreover have "kernel_main K (Some bip) s =
      and_then (shell_run K ?t) (\<lambda>_ s. cpu_hlt (env K) (cpu_cli (system_qemu_exit (env K) 0x10 s)))"
    using c(1) s2(1) s3(1) assms(10) by (simp add: kernel_main_def)
  moreover have "sent (dev ?t) = sent (dev s) @ crlf (put_bytes (banner (snd bip)))"
    using s3(2) s2(4) c(3) by (simp add: wrote_def cpu_sti_def)
  moreover have "interrupts ?t" "shell_ok ?t" "cmd_buffer ?t = cmd_buffer s" "hist ?t = hist s"
    using assms(12) s2(5,6) s3(3,4) by (simp_all add: cpu_sti_def shell_ok_def)
  moreover have "pci_devices ?t = pci_devices s"
    using s2(7) s3(2) same_kernel_fields [of s2 s3] by (simp add: cpu_sti_def wrote_def)
  ultimately show ?thesis by (intro exI [of _ ?t]) simp
qed

section \<open>Properties\<close>

text \<open>A machine at power-on, with bytes waiting on the serial line.\<close>

definition cold_machine :: "u8 list \<Rightarrow> tty machine" where
  "cold_machine cs = \<lparr>dev = \<lparr>rx = cs, tx = [], latch = False\<rparr>, serial_initialized = 0, con_vga = vga_static,
     kbd = fresh_keyboard, timer_ticks = 0, idt_st = example_idt, interrupts = False\<rparr>"

lemma tty_powers_up: "powers_up tty_ports tx rx (\<lambda>_. True) unlatched"
  by (simp add: powers_up_def serial_setup_def tty_ports_def)

lemma tty_quiet_board: "quiet_board tty_ports tx rx unlatched"
  by (auto simp: quiet_board_def intro!: tty_quiet)

lemma example_boot_simps [simp]:
  "magic (snd example_boot) = BOOT_INFO_MAGIC" "memory_map_entries (snd example_boot) = 1"
  "kernel_phys_start (snd example_boot) = 0x100000" "kernel_phys_end (snd example_boot) = 0x108000"
  by (simp_all add: example_boot_def)

lemma cold_kernel:
  "length (isr_stub_table (platform_of tty_env)) = 48" "length (idt (idt_st (static_kern (cold_machine cs)))) = 256"
  "keyboard_wf (kbd (static_kern (cold_machine cs)))" "frame_limit (pmm_st (static_kern (cold_machine cs))) = PMM_MAX_FRAMES"
  "dev (static_kern (cold_machine cs)) = \<lparr>rx = cs, tx = [], latch = False\<rparr>" "length example_map = 1"
  by (simp_all add: cold_machine_def example_idt_def fresh_keyboard_simps pmm_static_def example_map_def)

lemma example_digits:
  "digit_string 10 (Suc 0) = str ''1''" "digit_string 16 0x100000 = str ''100000''" "digit_string 16 0x108000 = str ''108000''"
  by (simp_all add: digit_string_def base_digits.simps str_def)

text \<open>C9: booting establishes every invariant: with valid boot information the kernel gets to the shell,
  with the frame bitmap of the memory map, an empty heap over it, an empty keyboard ring, the 48 gates
  and the segments loaded, the clock at zero and interrupts enabled, having sent exactly the banner.\<close>

theorem kernel_boot_correct:
  assumes "powers_up (ports_of K) sent incoming off okd" and "serial_line (ports_of K) sent incoming okd"
    and "quiet_board (ports_of K) sent incoming okd" and "off (dev s)" and "incoming (dev s) = cs"
    and "length (isr_stub_table K) = 48" and "length (idt (idt_st s)) = 256" and "keyboard_wf (kbd s)"
    and "frame_limit (pmm_st s) = PMM_MAX_FRAMES" and "magic (snd bip) = BOOT_INFO_MAGIC"
    and "unat (memory_map_entries (snd bip)) \<le> length (map_at K (memory_map_addr (snd bip)))" and "shell_ok s"
  shows "\<exists>t. kernel_main K (Some bip) s =
      and_then (shell_run K t) (\<lambda>_ s. cpu_hlt (env K) (cpu_cli (system_qemu_exit (env K) 0x10 s))) \<and>
    started K bip t \<and> interrupts t \<and> shell_ok t \<and> con_ready (waiting incoming okd cs) t \<and>
    sent (dev t) = sent (dev s) @ crlf (put_bytes (banner (snd bip)))"
  using kernel_main_spec [OF assms] by blast

theorem kernel_boot_correct_witness:
  "\<exists>t. kernel_main (platform_of tty_env) (Some example_boot) (static_kern (cold_machine [])) =
      and_then (shell_run (platform_of tty_env) t)
        (\<lambda>_ s. cpu_hlt tty_env (cpu_cli (system_qemu_exit tty_env 0x10 s))) \<and>
     used_frames (pmm_st t) = {..<0x40000} - usable_frames example_map \<union> pmm_reserved_frames example_boot \<and>
     tx (dev t) = crlf (str ''simple_kernel 0.2.0\<newline>boot_info memory entries: 1\<newline>kernel phys start: 0x100000\<newline>kernel phys end: 0x108000\<newline>heap total bytes: 0\<newline>\<newline>'')"
proof -
  let ?K = "platform_of tty_env" and ?s = "static_kern (cold_machine [])"
  have "put_bytes (banner (snd example_boot)) = str ''simple_kernel 0.2.0\<newline>boot_info memory entries: 1\<newline>kernel phys start: 0x100000\<newline>kernel phys end: 0x108000\<newline>heap total bytes: 0\<newline>\<newline>''"
    by (simp add: banner_def hex_def hex_text_def example_digits KERNEL_VERSION_def flip: str_append)
  moreover have "take (unat (memory_map_entries (snd example_boot))) example_map = example_map" by (simp add: cold_kernel(6))
  moreover have "shell_ok ?s" by (rule static_shell_ok)
  then obtain t where "kernel_main ?K (Some example_boot) ?s = and_then (shell_run ?K t)
        (\<lambda>_ s. cpu_hlt (env ?K) (cpu_cli (system_qemu_exit (env ?K) 0x10 s)))" "started ?K example_boot t"
      "tx (dev t) = tx (dev ?s) @ crlf (put_bytes (banner (snd example_boot)))"
    using kernel_boot_correct [of ?K tx rx "\<lambda>_. True" unlatched ?s "[]" example_boot]
      tty_powers_up tty_serial_line tty_quiet_board cold_kernel by auto
  ultimately show ?thesis
    unfolding started_def by (intro exI [of _ t] conjI) (simp_all only: platform_of_simps cold_kernel(5) tty.select_convs append_Nil)
qed

text \<open>C17: without boot information, or with a wrong magic number, the kernel panics: it sends the message,
  never starts a component, and halts with interrupts disabled.\<close>

theorem kernel_needs_boot_info:
  assumes "powers_up (ports_of K) sent incoming off okd" and "serial_line (ports_of K) sent incoming okd"
    and "quiet_board (ports_of K) sent incoming okd" and "off (dev s)"
    and "b = None \<or> (\<exists>bip. b = Some bip \<and> magic (snd bip) \<noteq> BOOT_INFO_MAGIC)"
  shows "\<exists>t. kernel_main K b s = Some (Halts t) \<and> \<not> interrupts t \<and>
    sent (dev t) = sent (dev s) @ crlf (str ''\<newline>PANIC: missing boot info\<newline>'')"
proof -
  let ?ok = "waiting incoming okd (incoming (dev s))"
  obtain d v where c: "console_init (ports_of K) s = Some (s\<lparr>con_vga := v, dev := d, serial_initialized := 1\<rparr>)"
      "con_ready ?ok (s\<lparr>con_vga := v, dev := d, serial_initialized := 1\<rparr>)" "sent d = sent (dev s)"
    using console_init_spec [OF assms(1,4) refl] by auto
  have q: "quiet_port (io (env K)) sent ?ok 0xF4" using assms(3) by (simp add: quiet_board_def)
  have z: "0 \<in> set (lit ''missing boot info'')" by (simp add: lit_def)
  have m: "cstr (lit ''missing boot info'') = str ''missing boot info''" by (rule cstr_lit) simp
  have "panic_text (str ''missing boot info'') = str ''\<newline>PANIC: missing boot info\<newline>''" by code_simp
  then show ?thesis
    using panic_spec [OF serial_line_uart [OF assms(2)] q c(2) z] c(1,3) assms(5) m by (auto simp: kernel_main_def)
qed

theorem kernel_needs_boot_info_witness:
  "\<exists>t. kernel_main (platform_of tty_env) (Some (0x9000, (snd example_boot)\<lparr>magic := 0\<rparr>)) (static_kern (cold_machine [])) = Some (Halts t) \<and>
     tx (dev t) = crlf (str ''\<newline>PANIC: missing boot info\<newline>'')"
  using kernel_needs_boot_info [of "platform_of tty_env" tx rx "\<lambda>_. True" unlatched "static_kern (cold_machine [])"
      "Some (0x9000, (snd example_boot)\<lparr>magic := 0\<rparr>)"]
    tty_powers_up tty_serial_line tty_quiet_board cold_kernel(5) by (auto simp: BOOT_INFO_MAGIC_def)

text \<open>C6: from power-on to the end: booted with valid boot information, and given on the serial line a
  session of lines up to \<open>exit\<close> or a command that stops the processor, the kernel halts with interrupts
  disabled, having sent exactly the banner, the greeting and the session.  The answers are those of the
  booted state, whose heap has no region; after \<open>exit\<close> the heap is at rest, with the regions the session
  made it get.\<close>

theorem kernel_session_correct:
  assumes "powers_up (ports_of K) sent incoming off okd" and "serial_line (ports_of K) sent incoming okd"
    and "quiet_board (ports_of K) sent incoming okd" and "off (dev s)" and "incoming (dev s) = cs"
    and "length (isr_stub_table K) = 48" and "length (idt (idt_st s)) = 256" and "keyboard_wf (kbd s)"
    and "frame_limit (pmm_st s) = PMM_MAX_FRAMES" and "magic (snd bip) = BOOT_INFO_MAGIC"
    and "unat (memory_map_entries (snd bip)) \<le> length (map_at K (memory_map_addr (snd bip)))" and "shell_ok s"
    and "length (stack_line K) = 256" and "\<And>cs. chips_ok (env K) C sent (waiting incoming okd cs)" and "length (pci_devices s) = 64"
    and "\<And>t. started K bip t \<Longrightarrow> session K C (t, []) (history_texts (hist s)) (cstr (cmd_buffer s)) cs = Some (e t)"
  shows "\<exists>b t. started K bip b \<and> kernel_main K (Some bip) s = Some (Halts t) \<and> \<not> interrupts t \<and>
    (case e b of
       Exited xs rest v \<Rightarrow> incoming (dev t) = rest \<and> heap_rest (heap_st t) (snd v) (used_frames (pmm_st t)) \<and>
         sent (dev t) = sent (dev s) @ crlf (put_bytes (banner (snd bip) @ greeting @ xs))
     | Stopped xs w \<Rightarrow> sent (dev t) = sent (dev s) @ crlf (put_bytes (banner (snd bip) @ greeting @ xs) @ last_words w))"
proof -
  obtain b where b: "kernel_main K (Some bip) s =
        and_then (shell_run K b) (\<lambda>_ s. cpu_hlt (env K) (cpu_cli (system_qemu_exit (env K) 0x10 s)))"
      "started K bip b" "shell_ok b" "con_ready (waiting incoming okd cs) b"
      "sent (dev b) = sent (dev s) @ crlf (put_bytes (banner (snd bip)))" "cmd_buffer b = cmd_buffer s" "hist b = hist s"
      "pci_devices b = pci_devices s" "interrupts b"
    using kernel_main_spec [OF assms(1-12)] by blast
  have q: "quiet_port (ports_of K) sent (waiting incoming okd cs) 0xF4" for cs using assms(3) by (simp add: quiet_board_def)
  have mp: "map_present K (boot_st b)" using b(2) assms(11) by (cases bip) (simp add: started_def map_present_def)
  have se: "session K C (b, []) (history_texts (hist b)) (cstr (cmd_buffer b)) cs = Some (e b)"
    using assms(16) [OF b(2)] b(6,7) by simp
  have "heap_rest (heap_st b) [] (used_frames (pmm_st b))" "pmm_ok (pmm_st b)" "keyboard_wf (kbd b)"
    using b(2) unfolding started_def by blast+
  then have tr: "tracks (b, []) b" using b(8,9) assms(15) by (simp add: tracks_def)
  obtain r where r: "shell_run K b = Some r" "ends sent incoming okd b (after greeting (e b)) r"
    using shell_run_spec [OF assms(2) q assms(14,13) b(4,3) tr mp se] by blast
  show ?thesis
  proof (cases "e b")
    case (Exited xs rest v)
    then obtain t where t: "r = Returns () t" "said sent (waiting incoming okd rest) b (greeting @ xs) t" "tracks v t"
      using r(2) by (auto simp: ends_def)
    have "con_ready (waiting incoming okd rest) t" using t(2) by (simp add: said_def)
    then have e: "wrote sent (waiting incoming okd rest) t [] (system_qemu_exit (env K) 0x10 t)" by (rule exit_quiet [OF q])
    let ?e = "cpu_cli (system_qemu_exit (env K) 0x10 t)"
    have "kernel_main K (Some bip) s = Some (Halts ?e)" using b(1) t(1) r(1) by (simp add: cpu_hlt_def cpu_cli_def)
    moreover have "sent (dev ?e) = sent (dev s) @ crlf (put_bytes (banner (snd bip) @ greeting @ xs))"
      using e t(2) b(5) by (simp add: wrote_def said_def cpu_cli_def)
    moreover have "incoming (dev ?e) = rest" using e by (simp add: wrote_def con_ready_def cpu_cli_def)
    moreover have "heap_rest (heap_st ?e) (snd v) (used_frames (pmm_st ?e))"
      using t(3) tracks_fields [of "fst v" "snd v" t] by (cases v) (simp add: tracks_def cpu_cli_def system_qemu_exit_def out8_def)
    ultimately show ?thesis using b(2) Exited by (intro exI [of _ b] exI [of _ ?e]) (simp add: cpu_cli_def)
  next
    case (Stopped xs w)
    then obtain t where "r = Halts t" "\<not> interrupts t" "sent (dev t) = sent (dev b) @ crlf (put_bytes (greeting @ xs) @ last_words w)"
      using r(2) by (auto simp: ends_def)
    then show ?thesis using b(1,2,5) r(1) Stopped by (intro exI [of _ b] exI [of _ t]) simp
  qed
qed

text \<open>The board at power-on.  The first region of the heap is the first frame after the kernel image.\<close>

definition cold_board :: "u8 list \<Rightarrow> board machine" where
  "cold_board cs = \<lparr>dev = (\<lparr>rx = cs, tx = [], latch = False\<rparr>, (0, 0), 0), serial_initialized = 0, con_vga = vga_static,
     kbd = fresh_keyboard, timer_ticks = 0, idt_st = example_idt, interrupts = False\<rparr>"

lemma cold_board_kernel:
  "length (isr_stub_table (platform_of board_env)) = 48" "length (idt (idt_st (static_kern (cold_board cs)))) = 256"
  "keyboard_wf (kbd (static_kern (cold_board cs)))" "frame_limit (pmm_st (static_kern (cold_board cs))) = PMM_MAX_FRAMES"
  "dev (static_kern (cold_board cs)) = (\<lparr>rx = cs, tx = [], latch = False\<rparr>, (0, 0), 0)"
  "length (pci_devices (static_kern (cold_board cs))) = 64"
  by (simp_all add: cold_board_def example_idt_def fresh_keyboard_simps pmm_static_def static_kern_def machine.defs)

lemma board_powers_up: "powers_up (board_ports regs cfg) board_sent board_in (\<lambda>_. True) (\<lambda>d. unlatched (fst d))"
  by (simp add: powers_up_def serial_setup_def board_ports_def tty_ports_def split_beta)

lemma board_quiet_board: "quiet_board (board_ports regs cfg) board_sent board_in (\<lambda>d. unlatched (fst d))"
  by (auto simp: quiet_board_def intro!: board_quiet)

lemma started_serve:
  assumes "started (platform_of board_env) example_boot t"
  shows "\<exists>q. serve pmm_alloc_frames 100 [] (pmm_st t) = Some (0x108000 + 24, [(0x108000, 4072, True)], q)"
proof -
  let ?s = "pmm_st t"
  have wf: "pmm_wf ?s" using assms by (simp add: started_def pmm_ok_def)
  have "used_frames ?s = {..<0x40000} - {256..<320} \<union> {..<264}"
    using assms by (simp add: started_def example_usable example_reserved cold_kernel(6))
  then have used: "f \<in> used_frames ?s \<longleftrightarrow> f < 0x40000 \<and> \<not> (256 \<le> f \<and> f < 320) \<or> f < 264" for f by auto
  have "run_free ?s 1 264" by (auto simp: run_free_def used)
  moreover have "\<not> run_free ?s 1 f" if "f < 264" for f using that by (simp add: run_free_def used)
  moreover obtain p q where q: "pmm_alloc_frames 1 ?s = Some (p, q)" "alloc_result ?s 1 p q"
    using pmm_alloc_frames_spec [OF wf, of 1] by auto
  ultimately have "p = of_nat (4096 * 264)"
    unfolding alloc_result_def first_fit_def by (metis le_antisym not_less)
  moreover have "align_up 100 = 112" "heap_pages 112 = 1" by (simp_all add: align_up_def heap_pages_def)
  ultimately show ?thesis using q(1) by (simp add: serve_def region_blk_def insert_blk_def)
qed

theorem kernel_session_correct_witness:
  "\<exists>t. kernel_main (platform_of board_env) (Some example_boot) (static_kern (cold_board (typing typed_lines))) = Some (Halts t) \<and>
     heap_rest (heap_st t) [(0x108000, 4072, True)] (used_frames (pmm_st t)) \<and>
     board_sent (dev t) = crlf (put_bytes (banner (snd example_boot) @ greeting) @
       str ''kernel> allocdemo 100\<newline>Allocated 100 bytes at 0x108018\<newline>'' @ typed_answers)"
proof -
  let ?K = "platform_of board_env" and ?s = "static_kern (cold_board (typing typed_lines))" and ?okd = "\<lambda>d. unlatched (fst d)"
  let ?e = "\<lambda>t. the (talk ?K board_chips (t, []) typed_lines)"
  let ?text = "str ''kernel> allocdemo 100\<newline>Allocated 100 bytes at 0x108018\<newline>'' @ typed_answers"
  have d: "digit_string 16 0x108018 = str ''108018''" by (simp add: digit_string_def base_digits.simps str_def)
  have talk: "\<exists>xs v. talk ?K board_chips (t, []) typed_lines = Some (Exited xs [] v) \<and> snd v = [(0x108000, 4072, True)] \<and> put_bytes xs = ?text"
    if st: "started ?K example_boot t" for t
  proof -
    obtain q where "serve pmm_alloc_frames 100 [] (pmm_st t) = Some (0x108000 + 24, [(0x108000, 4072, True)], q)"
      using started_serve [OF st] by blast
    from sample_talk [OF this, of ?K] show ?thesis using d st by (fastforce simp: str_def started_def)
  qed
  have se: "session ?K board_chips (t, []) (history_texts (hist ?s)) (cstr (cmd_buffer ?s)) (typing typed_lines) = Some (?e t)"
    if st: "started ?K example_boot t" for t
  proof -
    obtain xs v where "talk ?K board_chips (t, []) typed_lines = Some (Exited xs [] v)" using talk [OF st] by blast
    then show ?thesis using session_talk [OF typed_plain] by simp
  qed
  have laws: "powers_up (ports_of ?K) board_sent board_in (\<lambda>_. True) ?okd" "serial_line (ports_of ?K) board_sent board_in ?okd"
      "quiet_board (ports_of ?K) board_sent board_in ?okd"
    using board_powers_up board_serial_line board_quiet_board by simp_all
  have C: "chips_ok (env ?K) board_chips board_sent (waiting board_in ?okd cs)" for cs using board_chips_ok by simp
  have m: "unat (memory_map_entries (snd example_boot)) \<le> length (map_at ?K (memory_map_addr (snd example_boot)))"
    by (simp add: cold_kernel(6))
  have pre: "board_in (dev ?s) = typing typed_lines" "length (stack_line ?K) = 256" "magic (snd example_boot) = BOOT_INFO_MAGIC"
    by (simp_all add: cold_board_def)
  note run = kernel_session_correct [OF laws TrueI pre(1) cold_board_kernel(1-4) pre(3) m static_shell_ok pre(2) C cold_board_kernel(6) se]
  obtain b t where bt: "started ?K example_boot b" "kernel_main ?K (Some example_boot) ?s = Some (Halts t)"
      "case ?e b of Exited xs rest v \<Rightarrow> board_in (dev t) = rest \<and> heap_rest (heap_st t) (snd v) (used_frames (pmm_st t)) \<and>
         board_sent (dev t) = board_sent (dev ?s) @ crlf (put_bytes (banner (snd example_boot) @ greeting @ xs))
       | Stopped xs w \<Rightarrow> board_sent (dev t) = board_sent (dev ?s) @ crlf (put_bytes (banner (snd example_boot) @ greeting @ xs) @ last_words w)"
    using run by blast
  obtain xs v where xs: "talk ?K board_chips (b, []) typed_lines = Some (Exited xs [] v)" "snd v = [(0x108000, 4072, True)]" "put_bytes xs = ?text"
    using talk [OF bt(1)] by blast
  have e: "?e b = Exited xs [] v" using xs(1) by simp
  have "put_bytes (banner (snd example_boot) @ greeting @ xs) = put_bytes (banner (snd example_boot) @ greeting) @ ?text"
    by (simp add: xs(3))
  moreover have "board_sent (dev ?s) = []" by (simp add: cold_board_def)
  ultimately show ?thesis using bt(2,3) xs(2) unfolding e by (intro exI [of _ t]) (simp only: ending.case append_Nil conj_assoc simp_thms)
qed

end
